(* ===== verification/Pitwall_Prelude.thy ===== *)
theory Pitwall_Prelude
  imports Main "HOL-Library.Char_ord" "HOL-Library.List_Lexorder" "HOL-Library.Product_Lexorder"
begin

text \<open>
  The prelude of the development: the machine integers of Go, the errors, the environment a
  service runs in (an oracle for everything the code cannot decide itself: whether a database
  statement fails, what the clock reads, which id the generator returns, whether the broker
  accepts a publish, whether the context is done), the world a service changes (its database,
  and the trace of what it did that others can see), and a small monad for code that changes the
  world and may return an error. Transactions (\<open>WithinTx\<close>) are defined here, together with the
  rules that carry invariants through monadic code.
\<close>

section \<open>Rule collections\<close>

named_theorems keeps_intros \<open>rules that a computation keeps a database invariant\<close>
named_theorems quiet_intros \<open>rules that a computation leaves the trace alone\<close>
named_theorems goes_intros \<open>rules that a computation returns a value when no statement fails\<close>
named_theorems io_defs \<open>definitions of the monad\<close>

section \<open>Machine integers\<close>

text \<open>
  Go's \<open>int\<close> and \<open>int64\<close> are two's complement with 64 bits: arithmetic wraps. A model value is
  an \<open>int\<close>, and every operation of the source that can leave the range is written with
  \<open>wrap64\<close>. \<open>int32(x)\<close> is \<open>wrap32\<close>.
\<close>

definition wrap64 :: "int \<Rightarrow> int" where
  "wrap64 x = (x + 2 ^ 63) mod 2 ^ 64 - 2 ^ 63"

definition wrap32 :: "int \<Rightarrow> int" where
  "wrap32 x = (x + 2 ^ 31) mod 2 ^ 32 - 2 ^ 31"

definition in64 :: "int \<Rightarrow> bool" where
  "in64 x \<longleftrightarrow> - (2 ^ 63) \<le> x \<and> x < 2 ^ 63"

definition in32 :: "int \<Rightarrow> bool" where
  "in32 x \<longleftrightarrow> - (2 ^ 31) \<le> x \<and> x < 2 ^ 31"

lemma wrap64_id [simp]: "in64 x \<Longrightarrow> wrap64 x = x"
  by (simp add: wrap64_def in64_def)

lemma wrap32_id [simp]: "in32 x \<Longrightarrow> wrap32 x = x"
  by (simp add: wrap32_def in32_def)

lemma in64_wrap64 [simp]: "in64 (wrap64 x)"
  unfolding wrap64_def in64_def
  using pos_mod_bound [of "2 ^ 64" "x + 2 ^ 63"] pos_mod_sign [of "2 ^ 64" "x + 2 ^ 63"] by auto

lemma in32_wrap32 [simp]: "in32 (wrap32 x)"
  unfolding wrap32_def in32_def
  using pos_mod_bound [of "2 ^ 32" "x + 2 ^ 31"] pos_mod_sign [of "2 ^ 32" "x + 2 ^ 31"] by auto

lemma in64_bounds: "in64 a \<Longrightarrow> in64 b \<Longrightarrow> a \<le> x \<Longrightarrow> x \<le> b \<Longrightarrow> in64 x"
  by (auto simp: in64_def)

text \<open>Go's integer division truncates towards zero; the remainder takes the dividend's sign.\<close>

definition quot :: "int \<Rightarrow> int \<Rightarrow> int" where
  "quot a b = (if (a < 0) = (b < 0) then \<bar>a\<bar> div \<bar>b\<bar> else - (\<bar>a\<bar> div \<bar>b\<bar>))"

definition rmod :: "int \<Rightarrow> int \<Rightarrow> int" where
  "rmod a b = a - quot a b * b"

lemma quot_nonneg [simp]: "0 \<le> a \<Longrightarrow> 0 < b \<Longrightarrow> quot a b = a div b"
  by (auto simp: quot_def)

lemma rmod_nonneg [simp]: "0 \<le> a \<Longrightarrow> 0 < b \<Longrightarrow> rmod a b = a mod b"
  by (simp add: rmod_def minus_div_mult_eq_mod)

section \<open>Errors\<close>

type_synonym bytes = string

text \<open>
  The errors the code returns, by cause. The wrapping that \<open>fmt.Errorf\<close> adds to the message
  (the operation's name and the id) carries no control flow and is left out.
\<close>

datatype error =
    SqlError                 \<comment> \<open>the database driver failed the statement\<close>
  | Constraint               \<comment> \<open>a UNIQUE or PRIMARY KEY constraint refused the row\<close>
  | NoRows                   \<comment> \<open>\<open>sql.ErrNoRows\<close>\<close>
  | MarshalError             \<comment> \<open>\<open>json.Marshal\<close>\<close>
  | DecodeError              \<comment> \<open>\<open>json.Unmarshal\<close>\<close>
  | Invalid string           \<comment> \<open>the message failed /contract validation\<close>
  | PublishError             \<comment> \<open>the broker did not accept the message\<close>
  | PermanentPublish error   \<comment> \<open>\<open>consumer.PermanentPublishError\<close>\<close>
  | BrokerError              \<comment> \<open>the broker refused a declaration\<close>
  | ChannelGone              \<comment> \<open>\<open>errChannelGone\<close>: no broker channel\<close>
  | CtxDone                  \<comment> \<open>\<open>ctx.Err()\<close>\<close>
  | EmptyMasterId            \<comment> \<open>an erasure request without a masterId\<close>
  | NoSuchOutage             \<comment> \<open>\<open>CloseOutage\<close> updated no row\<close>
  | WrongData string         \<comment> \<open>an envelope carried another payload type\<close>
  | ParseTimeError           \<comment> \<open>\<open>time.Parse\<close>\<close>
  | MissingDLX               \<comment> \<open>\<open>ConsumerOptions.DLXExchange\<close> is empty\<close>
  | ConfigError string       \<comment> \<open>a configuration value is missing or out of range\<close>

section \<open>Traces, oracles, worlds\<close>

text \<open>
  What a service does that the outside can observe, in the order it does it. A publish carries
  whether it succeeded.
\<close>

datatype action =
    Committed                     \<comment> \<open>a transaction committed\<close>
  | Acked bytes                   \<comment> \<open>\<open>d.Ack()\<close>\<close>
  | Nacked bytes bool             \<comment> \<open>\<open>d.Nack(requeue)\<close>\<close>
  | RetryPub bytes int int bool   \<comment> \<open>\<open>RetryToDLX(body, delayMs, nextRetries)\<close> and its success\<close>
  | ParkPub bytes string bool     \<comment> \<open>\<open>ParkToDLX(body, reason)\<close> and its success\<close>
  | Alert string                  \<comment> \<open>a log line that carries an \<open>alert\<close> attribute\<close>
  | Kicked                        \<comment> \<open>\<open>Notify()\<close>: the relay or the web layer is signalled\<close>
  | Pub string bytes bool         \<comment> \<open>\<open>PublishConfirmed(routingKey, body)\<close> and its confirmation\<close>

text \<open>
  The oracle answers each question the code puts to its environment. Answers are indexed by the
  number of questions already asked, so nothing is assumed about how they relate.
\<close>

record env_oracle =
  o_fault :: "nat \<Rightarrow> bool"     \<comment> \<open>does this database statement fail?\<close>
  o_clk :: "nat \<Rightarrow> int"        \<comment> \<open>\<open>time.Now()\<close>, in nanoseconds since the Unix epoch\<close>
  o_uuid :: "nat \<Rightarrow> string"    \<comment> \<open>the id generator\<close>
  o_done :: "nat \<Rightarrow> bool"      \<comment> \<open>is the context done?\<close>
  o_send :: "nat \<Rightarrow> bool"      \<comment> \<open>does this publish succeed?\<close>

record 'd world =
  db :: 'd
  tick :: nat
  trace :: "action list"

type_synonym ('d, 'a) io = "env_oracle \<Rightarrow> 'd world \<Rightarrow> (error + 'a) \<times> 'd world"

definition tock :: "'d world \<Rightarrow> 'd world" where
  "tock w = w\<lparr>tick := Suc (tick w)\<rparr>"

section \<open>The monad\<close>

definition retE :: "'a \<Rightarrow> ('d, 'a) io" where
  [io_defs]: "retE a = (\<lambda>ora w. (Inr a, w))"

definition failE :: "error \<Rightarrow> ('d, 'a) io" where
  [io_defs]: "failE e = (\<lambda>ora w. (Inl e, w))"

definition bindE :: "('d, 'a) io \<Rightarrow> ('a \<Rightarrow> ('d, 'b) io) \<Rightarrow> ('d, 'b) io" where
  [io_defs]: "bindE m f = (\<lambda>ora w. case m ora w of (Inl e, w') \<Rightarrow> (Inl e, w') | (Inr a, w') \<Rightarrow> f a ora w')"

text \<open>\<open>tryE m f\<close> hands \<open>f\<close> the result of \<open>m\<close>, an error included: Go's \<open>if err != nil\<close>.\<close>

definition tryE :: "('d, 'a) io \<Rightarrow> (error + 'a \<Rightarrow> ('d, 'b) io) \<Rightarrow> ('d, 'b) io" where
  [io_defs]: "tryE m f = (\<lambda>ora w. case m ora w of (r, w') \<Rightarrow> f r ora w')"

definition emitE :: "action \<Rightarrow> ('d, unit) io" where
  [io_defs]: "emitE a = (\<lambda>ora w. (Inr (), w\<lparr>trace := trace w @ [a]\<rparr>))"

definition nowE :: "('d, int) io" where
  [io_defs]: "nowE = (\<lambda>ora w. (Inr (o_clk ora (tick w)), tock w))"

definition newIdE :: "('d, string) io" where
  [io_defs]: "newIdE = (\<lambda>ora w. (Inr (o_uuid ora (tick w)), tock w))"

definition ctxErrE :: "('d, bool) io" where
  [io_defs]: "ctxErrE = (\<lambda>ora w. (Inr (o_done ora (tick w)), tock w))"

definition sendE :: "('d, bool) io" where
  [io_defs]: "sendE = (\<lambda>ora w. (Inr (o_send ora (tick w)), tock w))"

text \<open>
  A database statement: it fails when the oracle says so (the database is then unchanged), and
  otherwise runs its meaning on the tables, which may itself refuse (a constraint).
\<close>

definition queryE :: "('d \<Rightarrow> 'a) \<Rightarrow> ('d, 'a) io" where
  [io_defs]: "queryE q = (\<lambda>ora w.
     if o_fault ora (tick w) then (Inl SqlError, tock w) else (Inr (q (db w)), tock w))"

definition execE :: "('d \<Rightarrow> error + 'd \<times> 'a) \<Rightarrow> ('d, 'a) io" where
  [io_defs]: "execE f = (\<lambda>ora w.
     if o_fault ora (tick w) then (Inl SqlError, tock w)
     else (case f (db w) of
             Inl e \<Rightarrow> (Inl e, tock w)
           | Inr (d, a) \<Rightarrow> (Inr a, (tock w)\<lparr>db := d\<rparr>)))"

text \<open>A change of the process's own memory, kept beside the tables: it cannot fail.\<close>

definition memE :: "('d \<Rightarrow> 'd \<times> 'a) \<Rightarrow> ('d, 'a) io" where
  [io_defs]: "memE f = (\<lambda>ora w. case f (db w) of (d, a) \<Rightarrow> (Inr a, w\<lparr>db := d\<rparr>))"

definition whenE :: "bool \<Rightarrow> ('d, unit) io \<Rightarrow> ('d, unit) io" where
  [io_defs]: "whenE b m = (if b then m else retE ())"

text \<open>
  \<open>persistence.WithinTx\<close> (libs/go-pitwall/persistence/db.go): begin, run the body, roll back when
  it returns an error, commit otherwise. A begin or a commit can fail; a commit that reports an
  error has not committed (SQLite's documented behaviour), so the database is then the one before
  the transaction.
\<close>

definition WithinTx :: "('d, 'a) io \<Rightarrow> ('d, 'a) io" where
  [io_defs]: "WithinTx fn = (\<lambda>ora w.
     if o_fault ora (tick w) then (Inl SqlError, tock w)
     else (case fn ora (tock w) of
             (Inl e, w') \<Rightarrow> (Inl e, w'\<lparr>db := db w\<rparr>)
           | (Inr a, w') \<Rightarrow>
               if o_fault ora (tick w') then (Inl SqlError, (tock w')\<lparr>db := db w\<rparr>)
               else (Inr a, (tock w')\<lparr>trace := trace w' @ [Committed]\<rparr>)))"

lemma tock_simps [simp]: "db (tock w) = db w" "trace (tock w) = trace w" "tick (tock w) = Suc (tick w)"
  by (simp_all add: tock_def)

lemma bindE_retE [simp]: "bindE (retE a) f = f a"
  by (simp add: io_defs)

lemma bindE_failE [simp]: "bindE (failE e) f = failE e"
  by (simp add: io_defs)

lemma bindE_assoc: "bindE (bindE m f) g = bindE m (\<lambda>x. bindE (f x) g)"
  by (intro ext) (simp add: io_defs split: prod.splits sum.splits)

lemma bindE_eq_Inr:
  "bindE m f ora w = (Inr b, w') \<longleftrightarrow> (\<exists>a u. m ora w = (Inr a, u) \<and> f a ora u = (Inr b, w'))"
  by (auto simp: bindE_def split: prod.splits sum.splits)

lemma bindE_prims:
  "bindE newIdE f ora w = f (o_uuid ora (tick w)) ora (tock w)"
  "bindE nowE f' ora w = f' (o_clk ora (tick w)) ora (tock w)"
  "bindE (memE g) h ora w = h (snd (g (db w))) ora (w\<lparr>db := fst (g (db w))\<rparr>)"
  "bindE (emitE a) k ora w = k () ora (w\<lparr>trace := trace w @ [a]\<rparr>)"
  by (simp_all add: io_defs split: prod.splits)

lemma tryE_eq: "tryE m f ora w = (r, w') \<longleftrightarrow> (\<exists>a u. m ora w = (a, u) \<and> f a ora u = (r, w'))"
  by (auto simp: tryE_def split: prod.splits)

lemma Inr_result: "case fst p of Inl e \<Rightarrow> False | Inr r \<Rightarrow> P r \<Longrightarrow> \<exists>r. p = (Inr r, snd p) \<and> P r"
  by (cases p) (auto split: sum.splits)

section \<open>Atomicity of transactions\<close>

lemma WithinTx_Inl: "WithinTx fn ora w = (Inl e, w') \<Longrightarrow> db w' = db w"
  by (auto simp: WithinTx_def split: if_splits prod.splits sum.splits)

lemma WithinTx_Inr:
  "WithinTx fn ora w = (Inr a, w') \<Longrightarrow>
   \<exists>u. fn ora (tock w) = (Inr a, u) \<and> db w' = db u \<and> trace w' = trace u @ [Committed]"
  by (auto simp: WithinTx_def split: if_splits prod.splits sum.splits)

section \<open>Invariants of computations\<close>

text \<open>
  \<open>keeps P m\<close>: whatever the environment answers, and whether \<open>m\<close> returns a value or an error,
  a database that satisfies \<open>P\<close> still satisfies it afterwards.
\<close>

definition keeps :: "('d \<Rightarrow> bool) \<Rightarrow> ('d, 'a) io \<Rightarrow> bool" where
  "keeps P m \<longleftrightarrow> (\<forall>ora w. P (db w) \<longrightarrow> P (db (snd (m ora w))))"

lemma keepsI: "(\<And>ora w. P (db w) \<Longrightarrow> P (db (snd (m ora w)))) \<Longrightarrow> keeps P m"
  by (simp add: keeps_def)

lemma keepsD: "keeps P m \<Longrightarrow> m ora w = (r, w') \<Longrightarrow> P (db w) \<Longrightarrow> P (db w')"
  by (metis keeps_def snd_conv)

lemma keeps_retE [keeps_intros]: "keeps P (retE a)"
  by (simp add: keeps_def io_defs)

lemma keeps_failE [keeps_intros]: "keeps P (failE e)"
  by (simp add: keeps_def io_defs)

lemma keeps_emitE [keeps_intros]: "keeps P (emitE a)"
  by (simp add: keeps_def io_defs)

lemma keeps_nowE [keeps_intros]: "keeps P nowE"
  by (simp add: keeps_def io_defs)

lemma keeps_newIdE [keeps_intros]: "keeps P newIdE"
  by (simp add: keeps_def io_defs)

lemma keeps_ctxErrE [keeps_intros]: "keeps P ctxErrE"
  by (simp add: keeps_def io_defs)

lemma keeps_sendE [keeps_intros]: "keeps P sendE"
  by (simp add: keeps_def io_defs)

lemma keeps_queryE [keeps_intros]: "keeps P (queryE q)"
  by (simp add: keeps_def io_defs)

lemma keeps_execE [keeps_intros]:
  "(\<And>d d' a. P d \<Longrightarrow> f d = Inr (d', a) \<Longrightarrow> P d') \<Longrightarrow> keeps P (execE f)"
  by (auto simp: keeps_def io_defs split: sum.splits)

lemma keeps_memE [keeps_intros]: "(\<And>d. P d \<Longrightarrow> P (fst (f d))) \<Longrightarrow> keeps P (memE f)"
  by (auto simp: keeps_def io_defs split: prod.splits) (metis fst_conv)

lemma keeps_bindE [keeps_intros]:
  "keeps P m \<Longrightarrow> (\<And>a. keeps P (f a)) \<Longrightarrow> keeps P (bindE m f)"
  by (auto simp: keeps_def bindE_def split: prod.splits sum.splits) (metis snd_conv)+

lemma keeps_tryE [keeps_intros]:
  "keeps P m \<Longrightarrow> (\<And>a. keeps P (f a)) \<Longrightarrow> keeps P (tryE m f)"
  by (auto simp: keeps_def tryE_def split: prod.splits) (metis snd_conv)

lemma keeps_whenE [keeps_intros]: "(b \<Longrightarrow> keeps P m) \<Longrightarrow> keeps P (whenE b m)"
  by (simp add: whenE_def keeps_retE)

lemma keeps_WithinTx [keeps_intros]: "keeps P fn \<Longrightarrow> keeps P (WithinTx fn)"
  by (auto simp: keeps_def WithinTx_def split: prod.splits sum.splits) (metis snd_conv tock_simps(1))

lemma keeps_if [keeps_intros]: "(b \<Longrightarrow> keeps P m) \<Longrightarrow> (\<not> b \<Longrightarrow> keeps P n) \<Longrightarrow> keeps P (if b then m else n)"
  by simp

lemma keeps_case_option [keeps_intros]:
  "(x = None \<Longrightarrow> keeps P m) \<Longrightarrow> (\<And>a. x = Some a \<Longrightarrow> keeps P (f a)) \<Longrightarrow>
   keeps P (case x of None \<Rightarrow> m | Some a \<Rightarrow> f a)"
  by (cases x) auto

lemma keeps_case_sum [keeps_intros]:
  "(\<And>e. x = Inl e \<Longrightarrow> keeps P (f e)) \<Longrightarrow> (\<And>a. x = Inr a \<Longrightarrow> keeps P (g a)) \<Longrightarrow>
   keeps P (case x of Inl e \<Rightarrow> f e | Inr a \<Rightarrow> g a)"
  by (cases x) auto

lemma keeps_case_prod [keeps_intros]:
  "(\<And>a b. x = (a, b) \<Longrightarrow> keeps P (f a b)) \<Longrightarrow> keeps P (case x of (a, b) \<Rightarrow> f a b)"
  by (cases x) auto

text \<open>\<open>quiet m\<close>: the computation adds nothing to the trace (it only touches the database).\<close>

definition quiet :: "('d, 'a) io \<Rightarrow> bool" where
  "quiet m \<longleftrightarrow> (\<forall>ora w. trace (snd (m ora w)) = trace w)"

lemma quietD: "quiet m \<Longrightarrow> m ora w = (r, w') \<Longrightarrow> trace w' = trace w"
  by (metis quiet_def snd_conv)

lemma quiet_prims [quiet_intros]:
  "quiet (retE a)" "quiet (failE e)" "quiet nowE" "quiet newIdE" "quiet ctxErrE" "quiet sendE" "quiet (queryE q)"
  by (simp_all add: quiet_def io_defs)

lemma quiet_execE [quiet_intros]: "quiet (execE f)"
  by (auto simp: quiet_def io_defs split: sum.splits)

lemma quiet_memE [quiet_intros]: "quiet (memE f)"
  by (auto simp: quiet_def io_defs split: prod.splits)

lemma quiet_bindE [quiet_intros]: "quiet m \<Longrightarrow> (\<And>a. quiet (f a)) \<Longrightarrow> quiet (bindE m f)"
  by (auto simp: quiet_def bindE_def split: prod.splits sum.splits) (metis snd_conv)+

lemma quiet_if [quiet_intros]: "(b \<Longrightarrow> quiet m) \<Longrightarrow> (\<not> b \<Longrightarrow> quiet n) \<Longrightarrow> quiet (if b then m else n)"
  by simp

lemma quiet_case_option [quiet_intros]:
  "(x = None \<Longrightarrow> quiet m) \<Longrightarrow> (\<And>a. x = Some a \<Longrightarrow> quiet (f a)) \<Longrightarrow>
   quiet (case x of None \<Rightarrow> m | Some a \<Rightarrow> f a)"
  by (cases x) auto

lemma quiet_case_prod [quiet_intros]:
  "(\<And>a b. x = (a, b) \<Longrightarrow> quiet (f a b)) \<Longrightarrow> quiet (case x of (a, b) \<Rightarrow> f a b)"
  by (cases x) auto

lemma quiet_case_sum [quiet_intros]:
  "(\<And>e. x = Inl e \<Longrightarrow> quiet (f e)) \<Longrightarrow> (\<And>a. x = Inr a \<Longrightarrow> quiet (g a)) \<Longrightarrow>
   quiet (case x of Inl e \<Rightarrow> f e | Inr a \<Rightarrow> g a)"
  by (cases x) auto

text \<open>
  The transaction law the services rest on: an error leaves the database as it was, and a value
  means that the body's database is committed, right before everything the caller does next.
\<close>

lemma WithinTx_quiet:
  assumes "quiet fn" and "WithinTx fn ora w = (r, w')"
  shows "case r of Inl e \<Rightarrow> db w' = db w \<and> trace w' = trace w
       | Inr a \<Rightarrow> trace w' = trace w @ [Committed] \<and> (\<exists>u. fn ora (tock w) = (Inr a, u) \<and> db w' = db u)"
  using assms
  by (auto simp: WithinTx_def split: if_splits prod.splits sum.splits dest: quietD)

text \<open>\<open>goes ora m\<close>: in this environment the computation returns a value from every world.\<close>

definition goes :: "env_oracle \<Rightarrow> ('d, 'a) io \<Rightarrow> bool" where
  "goes ora m \<longleftrightarrow> (\<forall>w. \<exists>a w'. m ora w = (Inr a, w'))"

definition no_fault :: "env_oracle \<Rightarrow> bool" where
  "no_fault ora \<longleftrightarrow> (\<forall>n. \<not> o_fault ora n)"

lemma goesE: "goes ora m \<Longrightarrow> (\<And>a w'. m ora w = (Inr a, w') \<Longrightarrow> thesis) \<Longrightarrow> thesis"
  by (auto simp: goes_def)

lemma goes_prims [goes_intros]: "goes ora (retE a)" "goes ora nowE" "goes ora newIdE" "goes ora ctxErrE" "goes ora sendE"
  "goes ora (emitE x)" "goes ora (memE f)"
  by (auto simp: goes_def io_defs split: prod.splits)

lemma goes_queryE [goes_intros]: "no_fault ora \<Longrightarrow> goes ora (queryE q)"
  by (simp add: goes_def io_defs no_fault_def)

lemma goes_execE [goes_intros]: "no_fault ora \<Longrightarrow> (\<And>d. \<exists>p. f d = Inr p) \<Longrightarrow> goes ora (execE f)"
  by (simp add: goes_def io_defs no_fault_def) (metis (no_types, lifting) old.sum.simps(6) surj_pair case_prod_conv)

lemma goes_bindE [goes_intros]: "goes ora m \<Longrightarrow> (\<And>a. goes ora (f a)) \<Longrightarrow> goes ora (bindE m f)"
  unfolding goes_def bindE_def by (auto split: prod.splits sum.splits) (metis Pair_inject Inl_Inr_False)+

lemma goes_tryE [goes_intros]: "(\<And>r. goes ora (f r)) \<Longrightarrow> goes ora (tryE m f)"
  by (auto simp: goes_def tryE_def split: prod.splits)

lemma goes_if [goes_intros]: "(b \<Longrightarrow> goes ora m) \<Longrightarrow> (\<not> b \<Longrightarrow> goes ora n) \<Longrightarrow> goes ora (if b then m else n)"
  by simp

lemma goes_WithinTx: "no_fault ora \<Longrightarrow> fn ora (tock w) = (Inr a, u) \<Longrightarrow> \<exists>w'. WithinTx fn ora w = (Inr a, w')"
  by (simp add: WithinTx_def no_fault_def)

section \<open>Strings\<close>

text \<open>
  \<open>strings.TrimSpace\<close>: strings are bytes in UTF-8; these are the encodings of the characters
  \<open>unicode.IsSpace\<close> accepts.
\<close>

definition space_runes :: "string list" where
  "space_runes = map (map char_of)
     ([[9], [10], [11], [12], [13], [32], [0xC2, 0x85], [0xC2, 0xA0], [0xE1, 0x9A, 0x80],
       [0xE2, 0x80, 0xA8], [0xE2, 0x80, 0xA9], [0xE2, 0x80, 0xAF], [0xE2, 0x81, 0x9F], [0xE3, 0x80, 0x80 :: nat]]
      @ map (\<lambda>k. [0xE2, 0x80, k]) [0x80..<0x8B])"

fun trim_with :: "string list \<Rightarrow> nat \<Rightarrow> string \<Rightarrow> string" where
  "trim_with ps 0 s = s"
| "trim_with ps (Suc n) s =
     (case filter (\<lambda>p. take (length p) s = p) ps of [] \<Rightarrow> s | p # _ \<Rightarrow> trim_with ps n (drop (length p) s))"

definition TrimSpace :: "string \<Rightarrow> string" where
  "TrimSpace s =
     (let l = trim_with space_runes (length s) s
      in rev (trim_with (map rev space_runes) (length l) (rev l)))"

section \<open>Lists and tables\<close>

text \<open>Row updates of a table held as a list of rows: \<open>UPDATE \<dots> WHERE p\<close>.\<close>

definition upd_where :: "('a \<Rightarrow> bool) \<Rightarrow> ('a \<Rightarrow> 'a) \<Rightarrow> 'a list \<Rightarrow> 'a list" where
  "upd_where p f = map (\<lambda>r. if p r then f r else r)"

lemma upd_where_simps [simp]:
  "upd_where p f [] = []"
  "upd_where p f (r # rs) = (if p r then f r else r) # upd_where p f rs"
  by (simp_all add: upd_where_def)

lemma length_upd_where [simp]: "length (upd_where p f rs) = length rs"
  by (simp add: upd_where_def)

lemma map_upd_where: "(\<And>r. k (f r) = k r) \<Longrightarrow> map k (upd_where p f rs) = map k rs"
  by (simp add: upd_where_def comp_def)

lemma set_upd_where: "set (upd_where p f rs) = (\<lambda>r. if p r then f r else r) ` set rs"
  by (simp add: upd_where_def)

lemma upd_where_id: "(\<And>r. r \<in> set rs \<Longrightarrow> p r \<Longrightarrow> f r = r) \<Longrightarrow> upd_where p f rs = rs"
  by (induction rs) auto

lemma find_SomeD: "find p xs = Some x \<Longrightarrow> x \<in> set xs \<and> p x"
  by (induction xs) (auto split: if_splits)

section \<open>Decimal numerals\<close>

text \<open>
  \<open>strconv.Itoa\<close> and the \<open>%d\<close>, \<open>%02d\<close>, \<open>%03d\<close> verbs. Strings are compared by Go byte by byte,
  which is the lexicographic order of \<^theory_text>\<open>HOL-Library.List_Lexorder\<close> over \<^theory_text>\<open>HOL-Library.Char_ord\<close>.
\<close>

definition digit :: "nat \<Rightarrow> char" where
  "digit n = char_of (48 + n)"

fun nat_str :: "nat \<Rightarrow> string" where
  "nat_str n = (if n < 10 then [digit n] else nat_str (n div 10) @ [digit (n mod 10)])"

declare nat_str.simps [simp del]

definition itoa :: "int \<Rightarrow> string" where
  "itoa i = (if i < 0 then CHR ''-'' # nat_str (nat (- i)) else nat_str (nat i))"

text \<open>\<open>pad w n\<close> is the decimal numeral of \<open>n\<close>, zero-padded to at least \<open>w\<close> digits.\<close>

definition pad :: "nat \<Rightarrow> nat \<Rightarrow> string" where
  "pad w n = replicate (w - length (nat_str n)) CHR ''0'' @ nat_str n"

lemma list_all2_in_right: "list_all2 P xs ys \<Longrightarrow> y \<in> set ys \<Longrightarrow> \<exists>x\<in>set xs. P x y"
  by (induction rule: list_all2_induct) auto

lemma list_all2_in_left: "list_all2 P xs ys \<Longrightarrow> x \<in> set xs \<Longrightarrow> \<exists>y\<in>set ys. P x y"
  by (induction rule: list_all2_induct) auto

end
