(* ===== verification/Dlq_Policy.thy ===== *)
theory Dlq_Policy
  imports Pitwall_Prelude
begin

text \<open>
  The retry-then-park policy of the consumers (libs/go-pitwall/dlq/dlq.go) and its two verbatim
  copies (services/identity/internal/domain/dlq.go, services/leaderboard/internal/domain/dlq.go).
  The locale \<open>retry_policy\<close> is what a consumer relies on: below the cap a failure is retried with
  the next count and a delay within bounds, at the cap it is parked. All three copies are
  interpretations of it.
\<close>

section \<open>libs/go-pitwall/dlq\<close>

record Policy =
  MaxAttempts :: int
  BaseMs :: int
  Multiplier :: int
  MaxMs :: int

record Decision =
  Park :: bool
  DelayMs :: int
  NextRetries :: int

text \<open>The loop of \<open>backoffMs\<close>: the first argument counts the iterations that are left.\<close>

fun backoff_loop :: "nat \<Rightarrow> Policy \<Rightarrow> int \<Rightarrow> int" where
  "backoff_loop 0 p delay = (if delay > MaxMs p then MaxMs p else delay)"
| "backoff_loop (Suc n) p delay =
     (let delay' = wrap64 (delay * Multiplier p)
      in if delay' \<ge> MaxMs p then MaxMs p else backoff_loop n p delay')"

definition backoffMs :: "int \<Rightarrow> Policy \<Rightarrow> int" where
  "backoffMs hop p = backoff_loop (nat hop) p (BaseMs p)"

definition NextRetry :: "int \<Rightarrow> Policy \<Rightarrow> Decision" where
  "NextRetry priorRetries p =
     (let attemptsMade = wrap64 (priorRetries + 1)
      in if attemptsMade \<ge> MaxAttempts p then \<lparr>Park = True, DelayMs = 0, NextRetries = 0\<rparr>
         else \<lparr>Park = False, DelayMs = backoffMs priorRetries p, NextRetries = wrap64 (priorRetries + 1)\<rparr>)"

section \<open>The copy in services/identity/internal/domain\<close>

fun identity_backoff_loop :: "nat \<Rightarrow> Policy \<Rightarrow> int \<Rightarrow> int" where
  "identity_backoff_loop 0 p delay = (if delay > MaxMs p then MaxMs p else delay)"
| "identity_backoff_loop (Suc n) p delay =
     (let delay' = wrap64 (delay * Multiplier p)
      in if delay' \<ge> MaxMs p then MaxMs p else identity_backoff_loop n p delay')"

definition identity_backoffMs :: "int \<Rightarrow> Policy \<Rightarrow> int" where
  "identity_backoffMs hop p = identity_backoff_loop (nat hop) p (BaseMs p)"

definition identity_NextRetry :: "int \<Rightarrow> Policy \<Rightarrow> Decision" where
  "identity_NextRetry priorRetries p =
     (let attemptsMade = wrap64 (priorRetries + 1)
      in if attemptsMade \<ge> MaxAttempts p then \<lparr>Park = True, DelayMs = 0, NextRetries = 0\<rparr>
         else \<lparr>Park = False, DelayMs = identity_backoffMs priorRetries p,
               NextRetries = wrap64 (priorRetries + 1)\<rparr>)"

section \<open>The copy in services/leaderboard/internal/domain\<close>

fun leaderboard_backoff_loop :: "nat \<Rightarrow> Policy \<Rightarrow> int \<Rightarrow> int" where
  "leaderboard_backoff_loop 0 p delay = (if delay > MaxMs p then MaxMs p else delay)"
| "leaderboard_backoff_loop (Suc n) p delay =
     (let delay' = wrap64 (delay * Multiplier p)
      in if delay' \<ge> MaxMs p then MaxMs p else leaderboard_backoff_loop n p delay')"

definition leaderboard_backoffMs :: "int \<Rightarrow> Policy \<Rightarrow> int" where
  "leaderboard_backoffMs hop p = leaderboard_backoff_loop (nat hop) p (BaseMs p)"

definition leaderboard_NextRetry :: "int \<Rightarrow> Policy \<Rightarrow> Decision" where
  "leaderboard_NextRetry priorRetries p =
     (let attemptsMade = wrap64 (priorRetries + 1)
      in if attemptsMade \<ge> MaxAttempts p then \<lparr>Park = True, DelayMs = 0, NextRetries = 0\<rparr>
         else \<lparr>Park = False, DelayMs = leaderboard_backoffMs priorRetries p,
               NextRetries = wrap64 (priorRetries + 1)\<rparr>)"

section \<open>What the configuration guarantees\<close>

text \<open>
  The bounds every service's \<open>config.Load\<close> checks on the four knobs, and the one it does not
  check: that a delay below the ceiling times the multiplier still fits in 64 bits.
\<close>

definition policy_ok :: "Policy \<Rightarrow> bool" where
  "policy_ok p \<longleftrightarrow> 1 \<le> MaxAttempts p \<and> 0 < BaseMs p \<and> 1 \<le> Multiplier p \<and> BaseMs p \<le> MaxMs p
     \<and> in64 (MaxAttempts p) \<and> in64 (Multiplier p) \<and> in64 (MaxMs p)"

definition no_overflow :: "Policy \<Rightarrow> bool" where
  "no_overflow p \<longleftrightarrow> MaxMs p * Multiplier p < 2 ^ 63"

section \<open>The delay\<close>

lemma backoff_step_in64:
  assumes "policy_ok p" "no_overflow p" "0 < d" "d \<le> MaxMs p"
  shows "wrap64 (d * Multiplier p) = d * Multiplier p"
proof (rule wrap64_id)
  have "d * Multiplier p \<le> MaxMs p * Multiplier p"
    using assms by (intro mult_right_mono) (auto simp: policy_ok_def)
  moreover have "0 < d * Multiplier p"
    using assms by (auto simp: policy_ok_def)
  ultimately show "in64 (d * Multiplier p)"
    using assms by (auto simp: in64_def no_overflow_def)
qed

lemma backoff_loop_min:
  assumes "policy_ok p" "no_overflow p" "0 < d" "d \<le> MaxMs p"
  shows "backoff_loop n p d = min (d * Multiplier p ^ n) (MaxMs p)"
  using assms(3,4)
proof (induction n arbitrary: d)
  case 0
  then show ?case by simp
next
  case (Suc n)
  have m: "1 \<le> Multiplier p" using assms by (simp add: policy_ok_def)
  have w: "wrap64 (d * Multiplier p) = d * Multiplier p"
    using backoff_step_in64 [OF assms(1,2) Suc.prems] .
  show ?case
  proof (cases "d * Multiplier p \<ge> MaxMs p")
    case True
    have "1 \<le> Multiplier p ^ n" using m by simp
    then have "d * Multiplier p * 1 \<le> d * Multiplier p * Multiplier p ^ n"
      using Suc.prems m by (intro mult_left_mono) auto
    with True have "MaxMs p \<le> d * Multiplier p ^ Suc n" by (simp add: ac_simps)
    with True w show ?thesis by simp
  next
    case False
    then have "backoff_loop (Suc n) p d = backoff_loop n p (d * Multiplier p)"
      by (simp add: w Let_def)
    also have "\<dots> = min (d * Multiplier p * Multiplier p ^ n) (MaxMs p)"
      using False Suc.prems m by (intro Suc.IH) auto
    finally show ?thesis by (simp add: ac_simps)
  qed
qed

lemma backoffMs_min:
  assumes "policy_ok p" "no_overflow p"
  shows "backoffMs n p = min (BaseMs p * Multiplier p ^ nat n) (MaxMs p)"
  unfolding backoffMs_def using assms by (intro backoff_loop_min) (auto simp: policy_ok_def)

text \<open>C1: within the configured bounds, and when ceiling times multiplier fits in 64 bits, the
  iterated and clamped product of \<open>backoffMs\<close> is the documented closed form
  \<open>min(BaseMs * Multiplier^hop, MaxMs)\<close>, for every hop count.\<close>

theorem backoffMs_closed_form:
  assumes "policy_ok p" and "no_overflow p"
  shows "backoffMs hop p = min (BaseMs p * Multiplier p ^ nat hop) (MaxMs p)"
  using assms by (rule backoffMs_min)

theorem backoffMs_closed_form_witness:
  "backoffMs 3 \<lparr>MaxAttempts = 5, BaseMs = 1000, Multiplier = 2, MaxMs = 60000\<rparr> = 8000"
  using backoffMs_closed_form [of "\<lparr>MaxAttempts = 5, BaseMs = 1000, Multiplier = 2, MaxMs = 60000\<rparr>" 3]
  by (simp add: policy_ok_def no_overflow_def in64_def)

text \<open>The comment on \<open>backoffMs\<close> says that clamping as it goes means a large hop count can
  never overflow. A policy that every check of \<open>config.Load\<close> accepts makes the product wrap to
  zero before it is compared with the ceiling, and a publishing with delay zero gets no expiration.\<close>

definition wrapping_policy :: Policy where
  "wrapping_policy = \<lparr>MaxAttempts = 5, BaseMs = 2 ^ 32, Multiplier = 2 ^ 32, MaxMs = 2 ^ 40\<rparr>"

lemma wrapping_policy_ok: "policy_ok wrapping_policy"
  by (simp add: wrapping_policy_def policy_ok_def in64_def)

lemma wrapping_policy_backoff: "backoffMs (int (Suc n)) wrapping_policy = 0"
proof -
  have zero: "backoff_loop k wrapping_policy 0 = 0" for k
    by (induction k) (auto simp: wrap64_def wrapping_policy_def)
  have "wrap64 (2 ^ 32 * 2 ^ 32) = 0" by (simp add: wrap64_def)
  then show ?thesis
    using zero [of n] by (simp add: backoffMs_def wrapping_policy_def del: of_nat_Suc)
qed

theorem backoffMs_can_overflow:
  "\<exists>p. policy_ok p \<and> (\<forall>n. backoffMs (int (Suc n)) p = 0)"
  using wrapping_policy_ok wrapping_policy_backoff by blast

section \<open>The interface a consumer relies on\<close>

locale retry_policy =
  fixes next_retry :: "int \<Rightarrow> Policy \<Rightarrow> Decision"
  assumes parks: "policy_ok p \<Longrightarrow> 0 \<le> n \<Longrightarrow> in64 (n + 1) \<Longrightarrow> MaxAttempts p \<le> n + 1 \<Longrightarrow> Park (next_retry n p)"
    and hops: "policy_ok p \<Longrightarrow> 0 \<le> n \<Longrightarrow> n + 1 < MaxAttempts p \<Longrightarrow>
      \<not> Park (next_retry n p) \<and> NextRetries (next_retry n p) = n + 1 \<and> DelayMs (next_retry n p) = backoffMs n p"
begin

lemma retries:
  assumes "policy_ok p" "no_overflow p" "0 \<le> n" "n + 1 < MaxAttempts p"
  shows "\<not> Park (next_retry n p) \<and> NextRetries (next_retry n p) = n + 1
      \<and> DelayMs (next_retry n p) = min (BaseMs p * Multiplier p ^ nat n) (MaxMs p)"
  using hops [OF assms(1,3,4)] backoffMs_min [OF assms(1,2)] by simp

lemma delay_bounds:
  assumes "policy_ok p" "no_overflow p" "0 \<le> n" "n + 1 < MaxAttempts p"
  shows "0 < DelayMs (next_retry n p) \<and> DelayMs (next_retry n p) \<le> MaxMs p"
  using retries [OF assms] assms(1) by (auto simp: policy_ok_def min_def)

lemma delay_mono:
  assumes "policy_ok p" "no_overflow p" "0 \<le> n" "n + 2 < MaxAttempts p"
  shows "DelayMs (next_retry n p) \<le> DelayMs (next_retry (n + 1) p)"
proof -
  have m: "1 \<le> Multiplier p" "0 < BaseMs p" using assms by (auto simp: policy_ok_def)
  have "Multiplier p ^ nat n \<le> Multiplier p ^ nat (n + 1)"
    using m by (intro power_increasing) auto
  then have "BaseMs p * Multiplier p ^ nat n \<le> BaseMs p * Multiplier p ^ nat (n + 1)"
    using m by (intro mult_left_mono) auto
  moreover have "DelayMs (next_retry n p) = min (BaseMs p * Multiplier p ^ nat n) (MaxMs p)"
    using retries [of p n] assms by simp
  moreover have "DelayMs (next_retry (n + 1) p) = min (BaseMs p * Multiplier p ^ nat (n + 1)) (MaxMs p)"
    using retries [of p "n + 1"] assms by simp
  ultimately show ?thesis by simp
qed

end

lemma in64_attempt: "policy_ok p \<Longrightarrow> 0 \<le> n \<Longrightarrow> n + 1 < MaxAttempts p \<Longrightarrow> in64 (n + 1)"
  by (auto simp: policy_ok_def in64_def)

lemma backoff_copies:
  "identity_backoff_loop n p d = backoff_loop n p d"
  "leaderboard_backoff_loop n p d = backoff_loop n p d"
  by (induction n arbitrary: d) (auto simp: Let_def)

lemma NextRetry_copies:
  "identity_NextRetry = NextRetry" "leaderboard_NextRetry = NextRetry"
  by (intro ext, simp add: identity_NextRetry_def leaderboard_NextRetry_def NextRetry_def
      identity_backoffMs_def leaderboard_backoffMs_def backoffMs_def backoff_copies)+

interpretation lib_policy: retry_policy NextRetry
proof
  fix p :: Policy and n :: int
  assume ok: "policy_ok p" "0 \<le> n"
  show "Park (NextRetry n p)" if "in64 (n + 1)" "MaxAttempts p \<le> n + 1"
    using that by (simp add: NextRetry_def)
  assume a: "n + 1 < MaxAttempts p"
  then have "wrap64 (n + 1) = n + 1" using ok in64_attempt by simp
  then show "\<not> Park (NextRetry n p) \<and> NextRetries (NextRetry n p) = n + 1 \<and> DelayMs (NextRetry n p) = backoffMs n p"
    using a by (simp add: NextRetry_def)
qed

interpretation identity_policy: retry_policy identity_NextRetry
  unfolding NextRetry_copies by (rule lib_policy.retry_policy_axioms)

interpretation leaderboard_policy: retry_policy leaderboard_NextRetry
  unfolding NextRetry_copies by (rule lib_policy.retry_policy_axioms)

end
