(* ===== verification/Dlq_Topology.thy ===== *)
theory Dlq_Topology
  imports Dlq_Policy
begin

text \<open>
  The consumer-side dead-letter topology (libs/go-pitwall/messaging/dlq.go, and the publish side
  of consumer.go): the header that carries the retry count, the messages a retry or a park
  publishes, and the declarations \<open>DeclareDLQTopology\<close> makes. The broker is not part of the
  repository: it is a parameter that answers each call, and where a property speaks of routing the
  documented rule of direct exchanges is a hypothesis.
\<close>

section \<open>Headers and publishings\<close>

text \<open>The value of an AMQP header as amqp091 hands it back.\<close>

datatype header_value = HInt32 int | HInt64 int | HInt int | HString string | HOther

type_synonym Table = "(string \<times> header_value) list option"

definition retryCountHeader :: string where
  "retryCountHeader = ''x-pitwall-retry-count''"

definition ParkReasonHeader :: string where
  "ParkReasonHeader = ''x-pitwall-park-reason''"

definition dlqRetryRoutingKey :: string where
  "dlqRetryRoutingKey = ''retry''"

definition dlqRedeliverRoutingKey :: string where
  "dlqRedeliverRoutingKey = ''redeliver''"

definition dlqParkRoutingKey :: string where
  "dlqParkRoutingKey = ''park''"

definition RetryQueueName :: "string \<Rightarrow> string" where
  "RetryQueueName workQueue = workQueue @ ''.retry''"

definition ParkingQueueName :: "string \<Rightarrow> string" where
  "ParkingQueueName workQueue = workQueue @ ''.parking''"

definition parseRetryCount :: "Table \<Rightarrow> int" where
  "parseRetryCount headers =
     (case headers of
        None \<Rightarrow> 0
      | Some h \<Rightarrow>
          (case map_of h retryCountHeader of
             Some (HInt32 v) \<Rightarrow> v
           | Some (HInt64 v) \<Rightarrow> v
           | Some (HInt v) \<Rightarrow> v
           | _ \<Rightarrow> 0))"

record Publishing =
  ContentType :: string
  DeliveryMode :: nat           \<comment> \<open>\<open>amqp.Persistent\<close> is 2\<close>
  Body :: bytes
  Headers :: Table
  Expiration :: string

definition buildDLXPublishing :: "bytes \<Rightarrow> int \<Rightarrow> int \<Rightarrow> string \<Rightarrow> Publishing" where
  "buildDLXPublishing body expirationMs retryCount parkReason =
     \<lparr>ContentType = ''application/json'', DeliveryMode = 2, Body = body,
      Headers = Some ((retryCountHeader, HInt32 (wrap32 retryCount))
                      # (if parkReason \<noteq> '''' then [(ParkReasonHeader, HString parkReason)] else [])),
      Expiration = (if expirationMs > 0 then itoa expirationMs else '''')\<rparr>"

section \<open>The declarations\<close>

record ConsumerOptions =
  SourceExchange :: string
  QueueName :: string
  RoutingKeys :: "string list"
  Prefetch :: int
  DLXExchange :: string

text \<open>The calls on an AMQP channel, with the arguments that vary in the code.\<close>

datatype amqp_call =
    ExchangeDeclare string string              \<comment> \<open>name, kind; always durable\<close>
  | QueueDeclare string "(string \<times> string) list"  \<comment> \<open>name, arguments; always durable\<close>
  | QueueBind string string string             \<comment> \<open>queue, routing key, exchange\<close>
  | QueueDelete string bool                    \<comment> \<open>name, ifEmpty\<close>
  | Qos int
  | OpenChannel
  | CloseChannel
  | Dial string                                \<comment> \<open>the connection itself\<close>
  | CloseConn
  | Confirm                                    \<comment> \<open>confirm mode\<close>
  | Consume string                             \<comment> \<open>queue; manual acknowledgement\<close>

datatype reply = Accept | PreconditionFailed | Refuse

text \<open>
  The broker answers a call knowing the calls it accepted so far, from every connection. \<open>Link\<close> is what the
  structs \<open>Bus\<close> and \<open>Publisher\<close> have in common: its names, whether there is a connection and a channel, and the signal that closes when the
  connection dies (the number of the connection). The last field is the broker's log of accepted calls.
\<close>

type_synonym broker = "amqp_call list \<Rightarrow> amqp_call \<Rightarrow> reply"

record Link =
  link_uri :: string
  link_exchange :: string
  link_conn :: bool
  link_ch :: bool
  link_closed :: "nat option"
  link_calls :: "amqp_call list"

record Bus = Link +
  bus_dlx :: string

definition call :: "broker \<Rightarrow> amqp_call \<Rightarrow> 'a Link_scheme \<Rightarrow> reply \<times> 'a Link_scheme" where
  "call br c b =
     (case br (link_calls b) c of
        Accept \<Rightarrow> (Accept, b\<lparr>link_calls := link_calls b @ [c]\<rparr>)
      | r \<Rightarrow> (r, b))"

text \<open>
  \<open>issue\<close> is a call whose error is returned at once, \<open>issue_all\<close> a loop of them, \<open>hush\<close> a call
  whose error is dropped.
\<close>

definition hush :: "broker \<Rightarrow> amqp_call \<Rightarrow> 'a Link_scheme \<Rightarrow> 'a Link_scheme" where
  "hush br c b = snd (call br c b)"

definition issue :: "broker \<Rightarrow> amqp_call \<Rightarrow> 'a Link_scheme \<Rightarrow> (error + unit) \<times> 'a Link_scheme" where
  "issue br c b = (case call br c b of (Accept, b') \<Rightarrow> (Inr (), b') | (_, b') \<Rightarrow> (Inl BrokerError, b'))"

fun issue_all :: "broker \<Rightarrow> amqp_call list \<Rightarrow> 'a Link_scheme \<Rightarrow> (error + unit) \<times> 'a Link_scheme" where
  "issue_all br [] b = (Inr (), b)"
| "issue_all br (c # cs) b =
     (case issue br c b of (Inl e, b') \<Rightarrow> (Inl e, b') | (Inr _, b') \<Rightarrow> issue_all br cs b')"

definition declareWorkQueueResilient ::
  "broker \<Rightarrow> string \<Rightarrow> (string \<times> string) list \<Rightarrow> Bus \<Rightarrow> (error + unit) \<times> Bus" where
  "declareWorkQueueResilient br name args b =
     (if \<not> link_conn b then (Inl ChannelGone, b)
      else case issue br OpenChannel b of
        (Inl e, b1) \<Rightarrow> (Inl e, b1)
      | (Inr _, b1) \<Rightarrow>
          (case call br (QueueDeclare name args) b1 of
             (Accept, b2) \<Rightarrow> issue br CloseChannel b2
           | (Refuse, b2) \<Rightarrow> (Inl BrokerError, hush br CloseChannel b2)
           | (PreconditionFailed, b2) \<Rightarrow>
               (case issue br OpenChannel b2 of
                  (Inl e, b3) \<Rightarrow> (Inl e, b3)
                | (Inr _, b3) \<Rightarrow>
                    (case issue_all br [QueueDelete name True, QueueDeclare name args] b3 of
                       (r, b4) \<Rightarrow> (r, hush br CloseChannel b4)))))"

definition DeclareDLQTopology :: "broker \<Rightarrow> ConsumerOptions \<Rightarrow> Bus \<Rightarrow> (error + unit) \<times> Bus" where
  "DeclareDLQTopology br opts b =
     (if DLXExchange opts = '''' then (Inl MissingDLX, b)
      else if \<not> link_ch b then (Inl ChannelGone, b)
      else
        let retryQueue = RetryQueueName (QueueName opts);
            parkingQueue = ParkingQueueName (QueueName opts)
        in case issue_all br
             [ExchangeDeclare (SourceExchange opts) ''topic'',
              ExchangeDeclare (DLXExchange opts) ''direct'',
              QueueDeclare retryQueue
                [(''x-dead-letter-exchange'', DLXExchange opts),
                 (''x-dead-letter-routing-key'', dlqRedeliverRoutingKey)],
              QueueDeclare parkingQueue []] b of
          (Inl e, b1) \<Rightarrow> (Inl e, b1)
        | (Inr _, b1) \<Rightarrow>
            (case declareWorkQueueResilient br (QueueName opts)
                    [(''x-dead-letter-exchange'', DLXExchange opts),
                     (''x-dead-letter-routing-key'', dlqParkRoutingKey)] b1 of
               (Inl e, b2) \<Rightarrow> (Inl e, b2)
             | (Inr _, b2) \<Rightarrow>
                 (case issue_all br
                         ([QueueBind retryQueue dlqRetryRoutingKey (DLXExchange opts),
                           QueueBind (QueueName opts) dlqRedeliverRoutingKey (DLXExchange opts),
                           QueueBind parkingQueue dlqParkRoutingKey (DLXExchange opts)]
                          @ map (\<lambda>key. QueueBind (QueueName opts) key (SourceExchange opts)) (RoutingKeys opts)) b2 of
                    (Inl e, b3) \<Rightarrow> (Inl e, b3)
                  | (Inr _, b3) \<Rightarrow>
                      issue br (Qos (Prefetch opts)) (b3\<lparr>bus_dlx := DLXExchange opts\<rparr>))))"

definition DeclareConsumerQueue :: "broker \<Rightarrow> ConsumerOptions \<Rightarrow> Bus \<Rightarrow> (error + unit) \<times> Bus" where
  "DeclareConsumerQueue br opts b =
     (if \<not> link_ch b then (Inl ChannelGone, b)
      else issue_all br
        ([ExchangeDeclare (SourceExchange opts) ''topic'', QueueDeclare (QueueName opts) []]
         @ map (\<lambda>key. QueueBind (QueueName opts) key (SourceExchange opts)) (RoutingKeys opts)
         @ [Qos (Prefetch opts)]) b)"

section \<open>Publishing to the DLX\<close>

text \<open>A publish: exchange, routing key and message, and the oracle's answer on its success.\<close>

definition PublishToDLX :: "Bus \<Rightarrow> bool \<Rightarrow> string \<Rightarrow> bytes \<Rightarrow> int \<Rightarrow> int \<Rightarrow> string
    \<Rightarrow> error + string \<times> string \<times> Publishing" where
  "PublishToDLX b sent routingKey body expirationMs retryCount parkReason =
     (if \<not> link_ch b then Inl ChannelGone
      else if \<not> sent then Inl PublishError
      else Inr (bus_dlx b, routingKey, buildDLXPublishing body expirationMs retryCount parkReason))"

definition RetryToDLX :: "Bus \<Rightarrow> bool \<Rightarrow> bytes \<Rightarrow> int \<Rightarrow> int \<Rightarrow> error + string \<times> string \<times> Publishing" where
  "RetryToDLX b sent body delayMs nextRetries =
     PublishToDLX b sent dlqRetryRoutingKey body delayMs nextRetries ''''"

definition ParkToDLX :: "Bus \<Rightarrow> bool \<Rightarrow> bytes \<Rightarrow> string \<Rightarrow> error + string \<times> string \<times> Publishing" where
  "ParkToDLX b sent body reason = PublishToDLX b sent dlqParkRoutingKey body 0 0 reason"

section \<open>The life of a poison message\<close>

text \<open>
  A message whose processing always fails: the consumer reads the retry count off the headers,
  asks the policy, and either parks the message or publishes it to the retry queue. The retry queue
  has no TTL of its own and no consumer, so the message leaves it, with the headers it was published
  with, only when it carries an expiration; without one it is stranded there. The fate lists the
  delays of the hops that came back; \<open>None\<close> when the fuel ends first.
\<close>

datatype fate = Parked "int list" | Stranded "int list"

fun waited_hop :: "int \<Rightarrow> fate \<Rightarrow> fate" where
  "waited_hop d (Parked ds) = Parked (d # ds)"
| "waited_hop d (Stranded ds) = Stranded (d # ds)"

fun poison_run :: "(int \<Rightarrow> Policy \<Rightarrow> Decision) \<Rightarrow> Policy \<Rightarrow> bytes \<Rightarrow> nat \<Rightarrow> Table \<Rightarrow> fate option" where
  "poison_run next_retry p body 0 headers = None"
| "poison_run next_retry p body (Suc fuel) headers =
     (let dec = next_retry (parseRetryCount headers) p;
          msg = buildDLXPublishing body (DelayMs dec) (NextRetries dec) ''''
      in if Park dec then Some (Parked [])
         else if Expiration msg = '''' then Some (Stranded [])
         else map_option (waited_hop (DelayMs dec)) (poison_run next_retry p body fuel (Headers msg)))"

text \<open>The fate a list of delays leads to.\<close>

definition fate_of :: "int list \<Rightarrow> fate" where
  "fate_of ds = (if \<forall>d\<in>set ds. 0 < d then Parked ds else Stranded (takeWhile (\<lambda>d. 0 < d) ds))"

lemma fate_of_simps [simp]:
  "fate_of [] = Parked []" "fate_of (d # ds) = (if 0 < d then waited_hop d (fate_of ds) else Stranded [])"
  by (auto simp: fate_of_def)

lemma itoa_not_empty: "itoa n \<noteq> ''''"
proof -
  have "nat_str k \<noteq> ''''" for k by (subst nat_str.simps) simp
  then show ?thesis by (simp add: itoa_def)
qed

lemma Expiration_build [simp]: "Expiration (buildDLXPublishing body d n reason) = '''' \<longleftrightarrow> d \<le> 0"
  using itoa_not_empty by (auto simp: buildDLXPublishing_def)

lemma parseRetryCount_build [simp]:
  "parseRetryCount (Headers (buildDLXPublishing body d n reason)) = wrap32 n"
  by (simp add: parseRetryCount_def buildDLXPublishing_def)

lemma parseRetryCount_None [simp]: "parseRetryCount None = 0"
  by (simp add: parseRetryCount_def)

definition hop_delay :: "Policy \<Rightarrow> nat \<Rightarrow> int" where
  "hop_delay p i = min (BaseMs p * Multiplier p ^ i) (MaxMs p)"

lemma hop_delay_pos: "policy_ok p \<Longrightarrow> 0 < hop_delay p i"
  by (simp add: hop_delay_def policy_ok_def)

context retry_policy
begin

lemma poison_run_from:
  assumes "policy_ok p" "MaxAttempts p \<le> 2 ^ 31"
    and "parseRetryCount h = int n" "int n < MaxAttempts p" "nat (MaxAttempts p) - n \<le> fuel"
  shows "poison_run next_retry p body fuel h = Some (fate_of (map (\<lambda>i. backoffMs (int i) p) [n..<nat (MaxAttempts p) - 1]))"
  using assms(3-5)
proof (induction fuel arbitrary: n h)
  case 0
  then show ?case by simp
next
  case (Suc fuel)
  show ?case
  proof (cases "int n + 1 < MaxAttempts p")
    case False
    then have "Park (next_retry (int n) p)"
      using Suc.prems assms(1,2) by (intro parks) (auto simp: in64_def)
    with False Suc.prems show ?thesis by (simp add: Let_def)
  next
    case True
    have r: "\<not> Park (next_retry (int n) p)" "NextRetries (next_retry (int n) p) = int (Suc n)"
      "DelayMs (next_retry (int n) p) = backoffMs (int n) p"
      using hops [OF assms(1) _ True] by auto
    have "wrap32 (int (Suc n)) = int (Suc n)"
      using True assms(2) by (intro wrap32_id) (auto simp: in32_def)
    moreover have "nat (MaxAttempts p) - Suc n \<le> fuel" using Suc.prems by linarith
    ultimately have "poison_run next_retry p body fuel
        (Headers (buildDLXPublishing body (backoffMs (int n) p) (int (Suc n)) ''''))
        = Some (fate_of (map (\<lambda>i. backoffMs (int i) p) [Suc n..<nat (MaxAttempts p) - 1]))"
      using True by (intro Suc.IH) (simp_all only: parseRetryCount_build of_nat_Suc add.commute)
    moreover have "[n..<nat (MaxAttempts p) - 1] = n # [Suc n..<nat (MaxAttempts p) - 1]"
      using True by (intro upt_conv_Cons) auto
    ultimately show ?thesis using r Suc.prems by (simp add: Let_def)
  qed
qed

lemma poison_run_fate:
  assumes "policy_ok p" "MaxAttempts p \<le> 2 ^ 31"
  shows "poison_run next_retry p body (nat (MaxAttempts p)) None
         = Some (fate_of (map (\<lambda>i. backoffMs (int i) p) [0..<nat (MaxAttempts p) - 1]))"
  using poison_run_from [OF assms, of None 0] assms(1) by (simp add: policy_ok_def)

lemma poison_run_fresh:
  assumes "policy_ok p" "no_overflow p" "MaxAttempts p \<le> 2 ^ 31"
  shows "poison_run next_retry p body (nat (MaxAttempts p)) None
         = Some (Parked (map (hop_delay p) [0..<nat (MaxAttempts p) - 1]))"
proof -
  have "backoffMs (int i) p = hop_delay p i" for i using backoffMs_min [OF assms(1,2), of "int i"] by (simp add: hop_delay_def)
  then show ?thesis using poison_run_fate [OF assms(1,3)] hop_delay_pos [OF assms(1)] by (simp add: fate_of_def)
qed

end

text \<open>C3: what becomes of a message whose processing fails at every delivery, for each of the three copies of
  the policy and every policy that the checks of \<open>Load\<close> admit, up to \<open>2^31\<close> attempts (the count travels as
  an \<open>int32\<close>; \<open>Load\<close> does not check this). The count in the header drives \<open>MaxAttempts - 1\<close> hops, and the
  message is parked at delivery \<open>MaxAttempts\<close> if the delay of every hop is positive; otherwise
  it is stranded in the retry queue at the first hop whose delay is not. When ceiling times multiplier
  fits in 64 bits, which \<open>Load\<close> does not check either, it is parked, hop number i having waited
  \<open>min(BaseMs * Multiplier^i, MaxMs)\<close>.\<close>

theorem poison_message_is_parked:
  assumes "policy_ok p" and "MaxAttempts p \<le> 2 ^ 31"
    and "policy \<in> {NextRetry, identity_NextRetry, leaderboard_NextRetry}"
  shows "let ds = map (\<lambda>i. backoffMs (int i) p) [0..<nat (MaxAttempts p) - 1] in
     poison_run policy p body (nat (MaxAttempts p)) None
       = Some (if \<forall>d\<in>set ds. 0 < d then Parked ds else Stranded (takeWhile (\<lambda>d. 0 < d) ds))
     \<and> (no_overflow p \<longrightarrow> poison_run policy p body (nat (MaxAttempts p)) None
         = Some (Parked (map (\<lambda>i. min (BaseMs p * Multiplier p ^ i) (MaxMs p)) [0..<nat (MaxAttempts p) - 1])))"
  using assms(3) lib_policy.poison_run_fate [OF assms(1,2)] identity_policy.poison_run_fate [OF assms(1,2)]
    leaderboard_policy.poison_run_fate [OF assms(1,2)] lib_policy.poison_run_fresh [OF assms(1) _ assms(2)]
    identity_policy.poison_run_fresh [OF assms(1) _ assms(2)] leaderboard_policy.poison_run_fresh [OF assms(1) _ assms(2)]
  by (elim insertE) (simp_all add: Let_def fate_of_def hop_delay_def [abs_def])

text \<open>The second policy is the one of \<open>backoffMs_can_overflow\<close>: its second hop has no expiration.\<close>

theorem poison_message_is_parked_witness:
  "poison_run identity_NextRetry \<lparr>MaxAttempts = 5, BaseMs = 1000, Multiplier = 2, MaxMs = 60000\<rparr> ''x'' 5 None
     = Some (Parked [1000, 2000, 4000, 8000])
   \<and> poison_run NextRetry \<lparr>MaxAttempts = 3, BaseMs = 2 ^ 32, Multiplier = 2 ^ 32, MaxMs = 2 ^ 40\<rparr> ''x'' 3 None
     = Some (Stranded [2 ^ 32])"
proof
  let ?p = "\<lparr>MaxAttempts = 5, BaseMs = 1000, Multiplier = 2, MaxMs = 60000\<rparr>"
  have "policy_ok ?p" "MaxAttempts ?p \<le> 2 ^ 31" "identity_NextRetry \<in> {NextRetry, identity_NextRetry, leaderboard_NextRetry}" "no_overflow ?p"
    by (simp_all add: policy_ok_def no_overflow_def in64_def)
  from poison_message_is_parked [OF this(1-3), of "''x''", unfolded Let_def, THEN conjunct2, THEN mp, OF this(4)]
  show "poison_run identity_NextRetry ?p ''x'' 5 None = Some (Parked [1000, 2000, 4000, 8000])"
    by (simp add: upt_rec)
  have "backoffMs 0 \<lparr>MaxAttempts = 3, BaseMs = 2 ^ 32, Multiplier = 2 ^ 32, MaxMs = 2 ^ 40\<rparr> = 2 ^ 32"
    "backoffMs 1 \<lparr>MaxAttempts = 3, BaseMs = 2 ^ 32, Multiplier = 2 ^ 32, MaxMs = 2 ^ 40\<rparr> = 0"
    by (simp_all add: backoffMs_def wrap64_def)
  then show "poison_run NextRetry \<lparr>MaxAttempts = 3, BaseMs = 2 ^ 32, Multiplier = 2 ^ 32, MaxMs = 2 ^ 40\<rparr> ''x'' 3 None
     = Some (Stranded [2 ^ 32])"
    using poison_message_is_parked
      [of "\<lparr>MaxAttempts = 3, BaseMs = 2 ^ 32, Multiplier = 2 ^ 32, MaxMs = 2 ^ 40\<rparr>" NextRetry "''x''"]
    by (simp add: policy_ok_def in64_def upt_rec Let_def)
qed

section \<open>What a declared topology routes\<close>

text \<open>
  The bindings (queue, routing key, exchange) that a log of accepted calls leaves; deleting a queue
  removes its bindings. \<open>direct_routing\<close> is the documented rule of a direct exchange, a hypothesis
  on the broker: a message goes to every queue bound with exactly its routing key.
\<close>

fun bind_step :: "(string \<times> string \<times> string) set \<Rightarrow> amqp_call \<Rightarrow> (string \<times> string \<times> string) set" where
  "bind_step bs (QueueBind q k e) = insert (q, k, e) bs"
| "bind_step bs (QueueDelete q ifEmpty) = {b \<in> bs. fst b \<noteq> q}"
| "bind_step bs _ = bs"

definition bound :: "amqp_call list \<Rightarrow> (string \<times> string \<times> string) set" where
  "bound calls = foldl bind_step {} calls"

type_synonym router = "amqp_call list \<Rightarrow> string \<Rightarrow> string \<Rightarrow> string set"

definition direct_routing :: "router \<Rightarrow> bool" where
  "direct_routing route \<longleftrightarrow> (\<forall>calls e k. ExchangeDeclare e ''direct'' \<in> set calls \<longrightarrow>
     route calls e k = {q. (q, k, e) \<in> bound calls})"

definition dlq_bindings :: "ConsumerOptions \<Rightarrow> (string \<times> string \<times> string) set" where
  "dlq_bindings opts =
     {(RetryQueueName (QueueName opts), dlqRetryRoutingKey, DLXExchange opts),
      (QueueName opts, dlqRedeliverRoutingKey, DLXExchange opts),
      (ParkingQueueName (QueueName opts), dlqParkRoutingKey, DLXExchange opts)}"

text \<open>How many copies of a message sent with the retry key come back to queue \<open>q\<close>: one for each
  retry queue it reaches that dead-letters to the redeliver key.\<close>

definition copies_back :: "router \<Rightarrow> amqp_call list \<Rightarrow> string \<Rightarrow> string \<Rightarrow> nat" where
  "copies_back route calls dlx q =
     card {r \<in> route calls dlx dlqRetryRoutingKey.
             QueueDeclare r [(''x-dead-letter-exchange'', dlx),
               (''x-dead-letter-routing-key'', dlqRedeliverRoutingKey)] \<in> set calls
             \<and> q \<in> route calls dlx dlqRedeliverRoutingKey}"

lemma bound_append: "bound (xs @ ys) = foldl bind_step (bound xs) ys"
  by (simp add: bound_def)

lemma bound_binds:
  "foldl bind_step bs (map (\<lambda>k. QueueBind q k e) ks) = bs \<union> {(q, k, e) |k. k \<in> set ks}"
  by (induction ks arbitrary: bs) auto

lemma issue_Inr:
  "issue br c b = (Inr u, b') \<Longrightarrow> b' = b\<lparr>link_calls := link_calls b @ [c]\<rparr>"
  by (auto simp: issue_def call_def split: prod.splits reply.splits)

lemma issue_all_Inr:
  "issue_all br cs b = (Inr u, b') \<Longrightarrow> b' = b\<lparr>link_calls := link_calls b @ cs\<rparr>"
proof (induction cs arbitrary: b)
  case (Cons c cs)
  then have "issue_all br cs (b\<lparr>link_calls := link_calls b @ [c]\<rparr>) = (Inr u, b')"
    by (auto split: prod.splits sum.splits dest!: issue_Inr)
  from Cons.IH [OF this] show ?case by simp
qed simp

lemma hush_cases:
  obtains "hush br c b = b" | "hush br c b = b\<lparr>link_calls := link_calls b @ [c]\<rparr>"
  by (cases "br (link_calls b) c") (simp_all add: hush_def call_def)

text \<open>The work queue is declared in one of two ways; only the migration deletes, and only when
  the queue is empty.\<close>

lemma resilient_Inr:
  assumes "declareWorkQueueResilient br name args b = (Inr u, b')"
  obtains (fresh) "b' = b\<lparr>link_calls := link_calls b @ [OpenChannel, QueueDeclare name args, CloseChannel]\<rparr>"
  | (migrated) closes where "b' = b\<lparr>link_calls := link_calls b @
      [OpenChannel, OpenChannel, QueueDelete name True, QueueDeclare name args] @ closes\<rparr>" "closes = [] \<or> closes = [CloseChannel]"
proof -
  from assms obtain b1 where b1: "issue br OpenChannel b = (Inr (), b1)"
    by (auto simp: declareWorkQueueResilient_def split: if_splits prod.splits sum.splits)
  obtain r b2 where b2: "call br (QueueDeclare name args) b1 = (r, b2)" by fastforce
  have e1: "b1 = b\<lparr>link_calls := link_calls b @ [OpenChannel]\<rparr>" using issue_Inr [OF b1] .
  show ?thesis
  proof (cases r)
    case Accept
    then have "issue br CloseChannel b2 = (Inr u, b')" "b2 = b1\<lparr>link_calls := link_calls b1 @ [QueueDeclare name args]\<rparr>"
      using assms b1 b2 by (auto simp: declareWorkQueueResilient_def call_def split: if_splits reply.splits)
    with e1 fresh show ?thesis by (auto dest!: issue_Inr)
  next
    case PreconditionFailed
    have "b2 = b1" using b2 PreconditionFailed by (simp add: call_def split: reply.splits)
    have run: "(case issue br OpenChannel b2 of (Inl e, b3) \<Rightarrow> (Inl e, b3)
        | (Inr _, b3) \<Rightarrow> (case issue_all br [QueueDelete name True, QueueDeclare name args] b3 of
             (r, b4) \<Rightarrow> (r, hush br CloseChannel b4))) = (Inr u, b')"
      using assms b1 b2 PreconditionFailed by (simp add: declareWorkQueueResilient_def del: issue_all.simps split: if_splits)
    obtain q b3 where b3: "issue br OpenChannel b2 = (q, b3)" by fastforce
    obtain q' b4 where b4: "issue_all br [QueueDelete name True, QueueDeclare name args] b3 = (q', b4)" by fastforce
    from run have "q = Inr ()" "q' = Inr u" and "b' = hush br CloseChannel b4"
      unfolding b3 b4 prod.case by (simp_all add: b4 del: issue_all.simps split: sum.splits)
    note b3 = b3 [unfolded \<open>q = _\<close>] and b4 = b4 [unfolded \<open>q' = _\<close>]
    have "b4 = b\<lparr>link_calls := link_calls b @ [OpenChannel, OpenChannel, QueueDelete name True, QueueDeclare name args]\<rparr>"
      using e1 \<open>b2 = b1\<close> issue_Inr [OF b3] issue_all_Inr [OF b4] by simp
    then show ?thesis using \<open>b' = _\<close> migrated [of "[]"] migrated [of "[CloseChannel]"]
      by (cases rule: hush_cases [of br CloseChannel b4]) simp_all
  next
    case Refuse
    then show ?thesis using assms b1 b2 by (auto simp: declareWorkQueueResilient_def split: if_splits)
  qed
qed

text \<open>Calls that at most remove the bindings of queue \<open>q\<close>.\<close>

definition only_unbinds :: "string \<Rightarrow> amqp_call list \<Rightarrow> bool" where
  "only_unbinds q cs \<longleftrightarrow> (\<forall>bs. foldl bind_step bs cs = bs \<or> foldl bind_step bs cs = {x \<in> bs. fst x \<noteq> q})"

lemma declare_Inr:
  assumes "DeclareDLQTopology br opts b = (Inr u, b')"
  obtains work where
    "link_calls b' = link_calls b
       @ [ExchangeDeclare (SourceExchange opts) ''topic'', ExchangeDeclare (DLXExchange opts) ''direct'',
          QueueDeclare (RetryQueueName (QueueName opts))
            [(''x-dead-letter-exchange'', DLXExchange opts), (''x-dead-letter-routing-key'', dlqRedeliverRoutingKey)],
          QueueDeclare (ParkingQueueName (QueueName opts)) []]
       @ work
       @ [QueueBind (RetryQueueName (QueueName opts)) dlqRetryRoutingKey (DLXExchange opts),
          QueueBind (QueueName opts) dlqRedeliverRoutingKey (DLXExchange opts),
          QueueBind (ParkingQueueName (QueueName opts)) dlqParkRoutingKey (DLXExchange opts)]
       @ map (\<lambda>key. QueueBind (QueueName opts) key (SourceExchange opts)) (RoutingKeys opts)
       @ [Qos (Prefetch opts)]"
    and "only_unbinds (QueueName opts) work"
    and "bus_dlx b' = DLXExchange opts" and "DLXExchange opts \<noteq> ''''"
    and "b' = b\<lparr>link_calls := link_calls b', bus_dlx := DLXExchange opts\<rparr>" and "\<And>uri. Dial uri \<notin> set work"
proof -
  from assms obtain b1 b2 where b: "b1 = b\<lparr>link_calls := link_calls b @
         [ExchangeDeclare (SourceExchange opts) ''topic'', ExchangeDeclare (DLXExchange opts) ''direct'',
          QueueDeclare (RetryQueueName (QueueName opts))
            [(''x-dead-letter-exchange'', DLXExchange opts), (''x-dead-letter-routing-key'', dlqRedeliverRoutingKey)],
          QueueDeclare (ParkingQueueName (QueueName opts)) []]\<rparr>"
      "declareWorkQueueResilient br (QueueName opts) [(''x-dead-letter-exchange'', DLXExchange opts),
          (''x-dead-letter-routing-key'', dlqParkRoutingKey)] b1 = (Inr (), b2)"
      "link_calls b' = link_calls b2 @
         [QueueBind (RetryQueueName (QueueName opts)) dlqRetryRoutingKey (DLXExchange opts),
          QueueBind (QueueName opts) dlqRedeliverRoutingKey (DLXExchange opts),
          QueueBind (ParkingQueueName (QueueName opts)) dlqParkRoutingKey (DLXExchange opts)]
       @ map (\<lambda>key. QueueBind (QueueName opts) key (SourceExchange opts)) (RoutingKeys opts)
       @ [Qos (Prefetch opts)]"
      "bus_dlx b' = DLXExchange opts" "DLXExchange opts \<noteq> ''''" "b' = b2\<lparr>link_calls := link_calls b', bus_dlx := DLXExchange opts\<rparr>"
    unfolding DeclareDLQTopology_def Let_def
    by (auto split: if_splits prod.splits sum.splits dest!: issue_all_Inr issue_Inr simp del: issue_all.simps)
  show ?thesis
    using b(2)
  proof (cases rule: resilient_Inr)
    case fresh
    then show ?thesis
      using b that [of "[OpenChannel, QueueDeclare (QueueName opts) [(''x-dead-letter-exchange'', DLXExchange opts),
          (''x-dead-letter-routing-key'', dlqParkRoutingKey)], CloseChannel]"] by (simp add: only_unbinds_def)
  next
    case (migrated closes)
    then show ?thesis
      using b that [of "[OpenChannel, OpenChannel, QueueDelete (QueueName opts) True,
          QueueDeclare (QueueName opts) [(''x-dead-letter-exchange'', DLXExchange opts),
          (''x-dead-letter-routing-key'', dlqParkRoutingKey)]] @ closes"] by (auto simp: only_unbinds_def)
  qed
qed

text \<open>Every binding of the topology is there afterwards, and every other one was there before.\<close>

lemma declare_bound:
  assumes "DeclareDLQTopology br opts b = (Inr u, b')"
  shows "dlq_bindings opts \<union> {(QueueName opts, k, SourceExchange opts) |k. k \<in> set (RoutingKeys opts)} \<subseteq> bound (link_calls b')"
    and "bound (link_calls b') \<subseteq> bound (link_calls b) \<union> dlq_bindings opts
       \<union> {(QueueName opts, k, SourceExchange opts) |k. k \<in> set (RoutingKeys opts)}"
    and "{x \<in> bound (link_calls b). fst x \<noteq> QueueName opts} \<subseteq> bound (link_calls b')"
proof -
  obtain work where w: "bound (link_calls b') = foldl bind_step (bound (link_calls b)) work \<union> dlq_bindings opts
      \<union> {(QueueName opts, k, SourceExchange opts) |k. k \<in> set (RoutingKeys opts)}"
    and u: "only_unbinds (QueueName opts) work"
    by (rule declare_Inr [OF assms]) (simp add: bound_append bound_binds dlq_bindings_def insert_commute)
  from spec [OF u [unfolded only_unbinds_def], of "bound (link_calls b)"] w
  show "dlq_bindings opts \<union> {(QueueName opts, k, SourceExchange opts) |k. k \<in> set (RoutingKeys opts)} \<subseteq> bound (link_calls b')"
    and "bound (link_calls b') \<subseteq> bound (link_calls b) \<union> dlq_bindings opts
       \<union> {(QueueName opts, k, SourceExchange opts) |k. k \<in> set (RoutingKeys opts)}"
    and "{x \<in> bound (link_calls b). fst x \<noteq> QueueName opts} \<subseteq> bound (link_calls b')"
    by auto
qed

lemma dlq_keys_distinct [simp]:
  "dlqRetryRoutingKey \<noteq> dlqRedeliverRoutingKey" "dlqRetryRoutingKey \<noteq> dlqParkRoutingKey"
  "dlqRedeliverRoutingKey \<noteq> dlqParkRoutingKey" "dlqRedeliverRoutingKey \<noteq> dlqRetryRoutingKey"
  "dlqParkRoutingKey \<noteq> dlqRetryRoutingKey" "dlqParkRoutingKey \<noteq> dlqRedeliverRoutingKey"
  by (simp_all add: dlqRetryRoutingKey_def dlqRedeliverRoutingKey_def dlqParkRoutingKey_def)

lemma queue_names_inj [simp]:
  "RetryQueueName q = RetryQueueName q' \<longleftrightarrow> q = q'" "ParkingQueueName q = ParkingQueueName q' \<longleftrightarrow> q = q'"
  "RetryQueueName q \<noteq> q" "ParkingQueueName q \<noteq> q"
  by (simp_all add: RetryQueueName_def ParkingQueueName_def)

lemma declare_declares:
  assumes "DeclareDLQTopology br opts b = (Inr u, b')"
  shows "ExchangeDeclare (DLXExchange opts) ''direct'' \<in> set (link_calls b')"
    and "QueueDeclare (RetryQueueName (QueueName opts)) [(''x-dead-letter-exchange'', DLXExchange opts),
           (''x-dead-letter-routing-key'', dlqRedeliverRoutingKey)] \<in> set (link_calls b')"
    and "set (link_calls b) \<subseteq> set (link_calls b')"
    and "bus_dlx b' = DLXExchange opts"
  by (rule declare_Inr [OF assms], auto; fail)+

text \<open>The bindings on the DLX of a consumer that has the exchange to itself.\<close>

lemma declare_bound_own:
  assumes "DeclareDLQTopology br opts b = (Inr u, b')" and "DLXExchange opts \<noteq> SourceExchange opts"
    and "\<forall>x \<in> bound (link_calls b). snd (snd x) = DLXExchange opts \<longrightarrow> x \<in> dlq_bindings opts"
  shows "(q, k, DLXExchange opts) \<in> bound (link_calls b') \<longleftrightarrow> (q, k, DLXExchange opts) \<in> dlq_bindings opts"
proof
  assume "(q, k, DLXExchange opts) \<in> bound (link_calls b')"
  then have "(q, k, DLXExchange opts) \<in> bound (link_calls b) \<union> dlq_bindings opts"
    using declare_bound(2) [OF assms(1)] assms(2) by blast
  then show "(q, k, DLXExchange opts) \<in> dlq_bindings opts"
    using bspec [OF assms(3), of "(q, k, DLXExchange opts)"] by auto
next
  assume "(q, k, DLXExchange opts) \<in> dlq_bindings opts"
  then show "(q, k, DLXExchange opts) \<in> bound (link_calls b')"
    using declare_bound(1) [OF assms(1)] by blast
qed

text \<open>C4: a consumer whose DLX carries no other consumer's bindings gets the topology the
  comments promise. After a successful \<open>DeclareDLQTopology\<close>, over any direct exchange, the retry key
  reaches the retry queue only, the redeliver key the work queue only, the park key the parking
  queue only; a message sent to the retry queue comes back to the work queue exactly once; every
  configured routing key of the source exchange is bound; and later publishes go to this DLX.\<close>

theorem DeclareDLQTopology_routes:
  assumes "DeclareDLQTopology br opts b = (Inr (), b')" and "direct_routing route"
    and "DLXExchange opts \<noteq> SourceExchange opts"
    and "\<forall>x \<in> bound (link_calls b). snd (snd x) = DLXExchange opts \<longrightarrow> x \<in> dlq_bindings opts"
  shows "route (link_calls b') (DLXExchange opts) dlqRetryRoutingKey = {RetryQueueName (QueueName opts)}
    \<and> route (link_calls b') (DLXExchange opts) dlqRedeliverRoutingKey = {QueueName opts}
    \<and> route (link_calls b') (DLXExchange opts) dlqParkRoutingKey = {ParkingQueueName (QueueName opts)}
    \<and> copies_back route (link_calls b') (DLXExchange opts) (QueueName opts) = 1
    \<and> (\<forall>k \<in> set (RoutingKeys opts). (QueueName opts, k, SourceExchange opts) \<in> bound (link_calls b'))
    \<and> bus_dlx b' = DLXExchange opts"
proof -
  have r: "route (link_calls b') (DLXExchange opts) k = {q. (q, k, DLXExchange opts) \<in> dlq_bindings opts}" for k
    using assms(2) declare_declares(1) [OF assms(1)] declare_bound_own [OF assms(1,3,4)]
    by (simp add: direct_routing_def)
  have keys: "route (link_calls b') (DLXExchange opts) dlqRetryRoutingKey = {RetryQueueName (QueueName opts)}"
    "route (link_calls b') (DLXExchange opts) dlqRedeliverRoutingKey = {QueueName opts}"
    "route (link_calls b') (DLXExchange opts) dlqParkRoutingKey = {ParkingQueueName (QueueName opts)}"
    by (auto simp: r dlq_bindings_def)
  then have "copies_back route (link_calls b') (DLXExchange opts) (QueueName opts)
      = card {RetryQueueName (QueueName opts)}"
    unfolding copies_back_def using declare_declares(2) [OF assms(1)]
    by (intro arg_cong [where f = card]) auto
  then show ?thesis
    using keys declare_bound(1) [OF assms(1)] declare_declares(4) [OF assms(1)] by auto
qed

definition demo_bus :: Bus where
  "demo_bus = \<lparr>link_uri = ''amqp://bus'', link_exchange = ''demo.events'', link_conn = True, link_ch = True,
     link_closed = Some 0, link_calls = [], bus_dlx = ''''\<rparr>"

theorem DeclareDLQTopology_routes_witness:
  "copies_back (\<lambda>calls e k. {q. (q, k, e) \<in> bound calls})
     (link_calls (snd (DeclareDLQTopology (\<lambda>calls c. Accept)
        \<lparr>SourceExchange = ''timing.events'', QueueName = ''leaderboard.lap-recorded'', RoutingKeys = [''lap.recorded''],
         Prefetch = 10, DLXExchange = ''leaderboard.dlx''\<rparr>
        demo_bus)))
     ''leaderboard.dlx'' ''leaderboard.lap-recorded'' = 1"
  (is "copies_back ?route (link_calls (snd ?run)) _ _ = 1")
proof -
  have "?run = (Inr (), snd ?run)"
    by (simp add: DeclareDLQTopology_def declareWorkQueueResilient_def Let_def issue_def call_def demo_bus_def)
  from DeclareDLQTopology_routes [OF this, of ?route] show ?thesis
    by (simp add: direct_routing_def bound_def demo_bus_def)
qed

text \<open>Two consumers that share a DLX get each other's messages.\<close>

lemma shared_dlx_crosstalk:
  assumes "DeclareDLQTopology br o1 b = (Inr u, b1)" and "DeclareDLQTopology br o2 b2 = (Inr v, b')"
    and "link_calls b2 = link_calls b1" and "DLXExchange o2 = DLXExchange o1" and "direct_routing route"
    and "QueueName o1 \<noteq> QueueName o2" "RetryQueueName (QueueName o1) \<noteq> QueueName o2"
    and "ParkingQueueName (QueueName o1) \<noteq> QueueName o2"
    and "DLXExchange o1 \<noteq> SourceExchange o1" "DLXExchange o1 \<noteq> SourceExchange o2"
    and "bound (link_calls b) = {}"
  shows "route (link_calls b') (DLXExchange o1) dlqRedeliverRoutingKey = {QueueName o1, QueueName o2}"
    and "route (link_calls b') (DLXExchange o1) dlqParkRoutingKey
           = {ParkingQueueName (QueueName o1), ParkingQueueName (QueueName o2)}"
    and "copies_back route (link_calls b') (DLXExchange o1) (QueueName o1) = 2"
proof -
  have own: "(q, k, DLXExchange o1) \<in> bound (link_calls b1) \<longleftrightarrow> (q, k, DLXExchange o1) \<in> dlq_bindings o1" for q k
    using declare_bound_own [OF assms(1)] assms(9,11) by simp
  have both: "(q, k, DLXExchange o1) \<in> bound (link_calls b') \<longleftrightarrow>
      (q, k, DLXExchange o1) \<in> dlq_bindings o1 \<union> dlq_bindings o2" for q k
  proof
    assume "(q, k, DLXExchange o1) \<in> bound (link_calls b')"
    then show "(q, k, DLXExchange o1) \<in> dlq_bindings o1 \<union> dlq_bindings o2"
      using declare_bound(2) [OF assms(2)] assms(3,4,10) own by auto
  next
    assume "(q, k, DLXExchange o1) \<in> dlq_bindings o1 \<union> dlq_bindings o2"
    moreover have "(q, k, DLXExchange o1) \<in> bound (link_calls b')" if "(q, k, DLXExchange o1) \<in> dlq_bindings o1"
      using that own declare_bound(3) [OF assms(2)] assms(3,6,7,8) by (auto simp: dlq_bindings_def)
    ultimately show "(q, k, DLXExchange o1) \<in> bound (link_calls b')"
      using declare_bound(1) [OF assms(2)] by auto
  qed
  have r: "route (link_calls b') (DLXExchange o1) k = {q. (q, k, DLXExchange o1) \<in> dlq_bindings o1 \<union> dlq_bindings o2}" for k
    using assms(4,5) declare_declares(1) [OF assms(2)] both by (simp add: direct_routing_def)
  show rd: "route (link_calls b') (DLXExchange o1) dlqRedeliverRoutingKey = {QueueName o1, QueueName o2}"
    and "route (link_calls b') (DLXExchange o1) dlqParkRoutingKey
           = {ParkingQueueName (QueueName o1), ParkingQueueName (QueueName o2)}"
    using assms(4) by (auto simp: r dlq_bindings_def)
  have "copies_back route (link_calls b') (DLXExchange o1) (QueueName o1)
      = card {RetryQueueName (QueueName o1), RetryQueueName (QueueName o2)}"
    unfolding copies_back_def
    using declare_declares(2,3) [OF assms(1)] declare_declares(2,3) [OF assms(2)] assms(3,4)
    by (intro arg_cong [where f = card]) (auto simp: rd r dlq_bindings_def)
  then show "copies_back route (link_calls b') (DLXExchange o1) (QueueName o1) = 2"
    using assms(6) by simp
qed

end
