(* ===== verification/Wire_Time.thy ===== *)
theory Wire_Time
  imports Pitwall_Prelude "HOL-Library.Monad_Syntax"
begin

text \<open>
  The wire timestamps (\<open>FormatWireTime\<close>, \<open>ParseWireTime\<close> of libs/go-pitwall/messaging/envelope.go):
  Go's \<open>time.Time\<close> as nanoseconds since the Unix epoch, the proleptic Gregorian calendar, the layout
  \<open>2006-01-02T15:04:05.000Z07:00\<close> as \<open>Format\<close> and \<open>Parse\<close> of the standard library read it, and
  the operations on times and durations the services use (\<open>Sub\<close>, \<open>Milliseconds\<close>, the zero time).
\<close>

section \<open>Times and durations\<close>

definition nsPerSec :: int where "nsPerSec = 1000000000"

definition nsPerMs :: int where "nsPerMs = 1000000"

definition nsPerDay :: int where "nsPerDay = 86400000000000"

text \<open>\<open>time.Time{}\<close>, the first of January of year 1.\<close>

definition zeroTime :: int where "zeroTime = - 62135596800 * nsPerSec"

text \<open>\<open>t.Sub(u)\<close> saturates at the ends of \<open>time.Duration\<close>.\<close>

definition timeSub :: "int \<Rightarrow> int \<Rightarrow> int" where
  "timeSub t u = max (- (2 ^ 63)) (min (2 ^ 63 - 1) (t - u))"

text \<open>\<open>d.Milliseconds()\<close> truncates towards zero.\<close>

definition milliseconds :: "int \<Rightarrow> int" where
  "milliseconds d = quot d nsPerMs"

section \<open>The calendar\<close>

text \<open>
  Days are counted from the first of March of year 0, so that a leap day is the last of its
  year. \<open>yearStart y\<close> is the number of the day year \<open>y\<close> begins.
\<close>

definition yearStart :: "int \<Rightarrow> int" where
  "yearStart y = 365 * y + y div 4 - y div 100 + y div 400"

definition yearOfDay :: "int \<Rightarrow> int" where
  "yearOfDay z =
     (let g = (400 * z) div 146097
      in if z < yearStart g then g - 1 else if yearStart (g + 1) \<le> z then g + 1 else g)"

definition epochDay :: int where "epochDay = 719468"

text \<open>\<open>t.Date()\<close> of the day number since the epoch.\<close>

definition civilOfDay :: "int \<Rightarrow> int \<times> int \<times> int" where
  "civilOfDay days =
     (let z = days + epochDay; y = yearOfDay z; doy = z - yearStart y;
          mp = (5 * doy + 2) div 153; d = doy - (153 * mp + 2) div 5 + 1
      in if mp < 10 then (y, mp + 3, d) else (y + 1, mp - 9, d))"

text \<open>The day number of a date, as \<open>time.Date\<close> computes it.\<close>

definition dayOfCivil :: "int \<Rightarrow> int \<Rightarrow> int \<Rightarrow> int" where
  "dayOfCivil y m d =
     (let y' = (if m \<le> 2 then y - 1 else y); mp = (if m \<le> 2 then m + 9 else m - 3)
      in yearStart y' + (153 * mp + 2) div 5 + d - 1 - epochDay)"

definition isLeap :: "int \<Rightarrow> bool" where
  "isLeap y \<longleftrightarrow> y mod 4 = 0 \<and> (y mod 100 \<noteq> 0 \<or> y mod 400 = 0)"

definition daysIn :: "int \<Rightarrow> int \<Rightarrow> int" where
  "daysIn m y = (if m = 2 then (if isLeap y then 29 else 28) else if m \<in> {4, 6, 9, 11} then 30 else 31)"

section \<open>FormatWireTime\<close>

text \<open>
  The fields of a time in UTC. The layout writes a year below 0 with a sign and one above 9999
  with more digits.
\<close>

definition padInt :: "nat \<Rightarrow> int \<Rightarrow> string" where
  "padInt w i = (if i < 0 then CHR ''-'' # pad w (nat (- i)) else pad w (nat i))"

definition FormatWireTime :: "int \<Rightarrow> string" where
  "FormatWireTime t =
     (case civilOfDay (t div nsPerDay) of (y, m, d) \<Rightarrow>
        let s = (t mod nsPerDay) div nsPerSec; ms = (t mod nsPerSec) div nsPerMs
        in padInt 4 y @ ''-'' @ padInt 2 m @ ''-'' @ padInt 2 d @ ''T''
           @ padInt 2 (s div 3600) @ '':'' @ padInt 2 ((s div 60) mod 60) @ '':'' @ padInt 2 (s mod 60)
           @ ''.'' @ padInt 3 ms @ ''Z'')"

section \<open>ParseWireTime\<close>

text \<open>
  \<open>time.Parse\<close> on the layout, field by field. The year, the month, the day, the minute and the
  second have a fixed number of digits, the hour (layout \<open>15\<close>) one or two; the fraction starts with
  a period or a comma and its three characters may start with a sign; the zone is \<open>Z\<close> or a numeric
  offset.
\<close>

definition isDigit :: "char \<Rightarrow> bool" where
  "isDigit c \<longleftrightarrow> 48 \<le> (of_char c :: nat) \<and> (of_char c :: nat) \<le> 57"

definition digitVal :: "char \<Rightarrow> int" where
  "digitVal c = of_char c - 48"

definition numOf :: "string \<Rightarrow> int" where
  "numOf s = foldl (\<lambda>n c. 10 * n + digitVal c) 0 s"

text \<open>\<open>getfixed\<close>: exactly \<open>n\<close> digits.\<close>

definition fixedDigits :: "nat \<Rightarrow> string \<Rightarrow> (int \<times> string) option" where
  "fixedDigits n s =
     (if n \<le> length s \<and> list_all isDigit (take n s) then Some (numOf (take n s), drop n s) else None)"

text \<open>\<open>getnum(value, false)\<close>: one digit, or two when the second character is a digit.\<close>

definition hourDigits :: "string \<Rightarrow> (int \<times> string) option" where
  "hourDigits s =
     (case s of
        [] \<Rightarrow> None
      | c # r \<Rightarrow>
          if \<not> isDigit c then None
          else if r \<noteq> [] \<and> isDigit (hd r) then Some (10 * digitVal c + digitVal (hd r), tl r)
          else Some (digitVal c, r))"

definition literal :: "char \<Rightarrow> string \<Rightarrow> string option" where
  "literal c s = (case s of [] \<Rightarrow> None | x # r \<Rightarrow> if x = c then Some r else None)"

text \<open>\<open>parseNanoseconds\<close> on four characters, through \<open>atoi\<close>, which accepts a sign.\<close>

definition fraction :: "string \<Rightarrow> (int \<times> string) option" where
  "fraction s =
     (if length s < 4 \<or> hd s \<notin> {CHR ''.'', CHR '',''} then None
      else let f = take 3 (tl s);
               neg = (hd f = CHR ''-'');
               ds = (if hd f \<in> {CHR ''-'', CHR ''+''} then tl f else f)
           in if ds = [] \<or> \<not> list_all isDigit ds then None
              else if neg \<and> numOf ds \<noteq> 0 then None
              else Some (numOf ds * nsPerMs, drop 4 s))"

text \<open>The zone: the offset in seconds east of UTC.\<close>

definition zone :: "string \<Rightarrow> (int \<times> string) option" where
  "zone s =
     (case s of
        [] \<Rightarrow> None
      | c # r \<Rightarrow>
          if c = CHR ''Z'' then Some (0, r)
          else if length s < 6 \<or> s ! 3 \<noteq> CHR '':'' \<or> c \<notin> {CHR ''+'', CHR ''-''}
            \<or> \<not> list_all isDigit [s ! 1, s ! 2, s ! 4, s ! 5] then None
          else let hr = numOf [s ! 1, s ! 2]; mm = numOf [s ! 4, s ! 5]
               in if hr > 24 \<or> mm > 60 then None
                  else Some ((if c = CHR ''-'' then -1 else 1) * (hr * 3600 + mm * 60), drop 6 s))"

definition parseFields :: "string \<Rightarrow> int option" where
  "parseFields v = do {
     (y, v) \<leftarrow> fixedDigits 4 v;
     v \<leftarrow> literal CHR ''-'' v;
     (mo, v) \<leftarrow> fixedDigits 2 v;
     v \<leftarrow> literal CHR ''-'' v;
     (d, v) \<leftarrow> fixedDigits 2 v;
     v \<leftarrow> literal CHR ''T'' v;
     (h, v) \<leftarrow> hourDigits v;
     v \<leftarrow> literal CHR '':'' v;
     (mi, v) \<leftarrow> fixedDigits 2 v;
     v \<leftarrow> literal CHR '':'' v;
     (s, v) \<leftarrow> fixedDigits 2 v;
     (ns, v) \<leftarrow> fraction v;
     (off, v) \<leftarrow> zone v;
     (if v \<noteq> [] \<or> mo < 1 \<or> 12 < mo \<or> 24 \<le> h \<or> 60 \<le> mi \<or> 60 \<le> s \<or> d < 1 \<or> daysIn mo y < d then None
      else Some (dayOfCivil y mo d * nsPerDay + (h * 3600 + mi * 60 + s - off) * nsPerSec + ns))
   }"

definition ParseWireTime :: "string \<Rightarrow> error + int" where
  "ParseWireTime v = (case parseFields v of None \<Rightarrow> Inl ParseTimeError | Some t \<Rightarrow> Inr t)"

section \<open>The calendar is a bijection\<close>

lemma div_bounds: "(0::int) < k \<Longrightarrow> k * (y div k) \<le> y \<and> y < k * (y div k) + k"
  using pos_mod_bound [of k y] pos_mod_sign [of k y] mult_div_mod_eq [of k y] by linarith

lemma yearStart_bounds:
  "400 * yearStart y \<le> 146097 * y + 396" "146097 * y - 699 \<le> 400 * yearStart y"
  using div_bounds [of 4 y] div_bounds [of 100 y] div_bounds [of 400 y]
  by (simp_all add: yearStart_def)

lemma yearOfDay_spec:
  "yearStart (yearOfDay z) \<le> z" "z < yearStart (yearOfDay z + 1)"
proof -
  define g where "g = (400 * z) div 146097"
  have g: "146097 * g \<le> 400 * z" "400 * z < 146097 * g + 146097"
    using div_bounds [of 146097 "400 * z"] by (auto simp: g_def)
  have "yearStart (g - 1) \<le> z" using g yearStart_bounds(1) [of "g - 1"] by simp
  moreover have "z < yearStart (g + 1 + 1)" using g yearStart_bounds(2) [of "g + 1 + 1"] by simp
  ultimately show "yearStart (yearOfDay z) \<le> z" "z < yearStart (yearOfDay z + 1)"
    by (auto simp: yearOfDay_def Let_def simp flip: g_def)
qed

lemma div_Suc: 
  assumes "(0::int) < k"
  shows "(y + 1) div k = y div k + (if (y + 1) mod k = 0 then 1 else 0)"
proof -
  define q r where "q = (y + 1) div k" and "r = (y + 1) mod k"
  have *: "y + 1 = k * q + r" "0 \<le> r" "r < k"
    using assms by (simp_all add: q_def r_def)
  have "y div k = (if r = 0 then q - 1 else q)"
  proof (cases "r = 0")
    case True
    have "y = k * (q - 1) + (k - 1)" using * True by (simp add: algebra_simps)
    then show ?thesis using True assms by (intro int_div_pos_eq [of _ _ _ "k - 1", THEN trans]) auto
  next
    case False
    then show ?thesis using * by (intro int_div_pos_eq [of _ _ _ "r - 1", THEN trans]) auto
  qed
  then show ?thesis by (simp add: q_def r_def)
qed

lemma yearLength: "yearStart (y + 1) = yearStart y + (if isLeap (y + 1) then 366 else 365)"
proof -
  define p4 p100 p400 where "p4 = ((y + 1) mod 4 = 0)" and "p100 = ((y + 1) mod 100 = 0)"
    and "p400 = ((y + 1) mod 400 = 0)"
  have i1: "p100 \<Longrightarrow> p4"
    using dvd_trans [of "4::int" 100 "y + 1"] by (simp only: mod_eq_0_iff_dvd p4_def p100_def) simp
  have i2: "p400 \<Longrightarrow> p100"
    using dvd_trans [of "100::int" 400 "y + 1"] by (simp only: mod_eq_0_iff_dvd p400_def p100_def) simp
  obtain a b c where d: "y div 4 = a" "y div 100 = b" "y div 400 = c" by blast
  have s: "(y + 1) div 4 = a + of_bool p4" "(y + 1) div 100 = b + of_bool p100" "(y + 1) div 400 = c + of_bool p400"
    using div_Suc [of 4 y] div_Suc [of 100 y] div_Suc [of 400 y] unfolding d p4_def p100_def p400_def
    by (simp_all only: of_bool_def)
  have "isLeap (y + 1) \<longleftrightarrow> p4 \<and> (\<not> p100 \<or> p400)"
    by (simp only: isLeap_def p4_def p100_def p400_def)
  then show ?thesis
    unfolding yearStart_def s d using i1 i2 by (cases p4; cases p100; cases p400; simp)
qed

lemma yearStart_mono: "y < y' \<Longrightarrow> yearStart (y + 1) \<le> yearStart y'"
proof (induction "nat (y' - y)" arbitrary: y')
  case (Suc n)
  show ?case
  proof (cases "y' = y + 1")
    case False
    with Suc have "yearStart (y + 1) \<le> yearStart (y' - 1)" by (intro Suc(1)) auto
    with yearLength [of "y' - 1"] show ?thesis by (auto split: if_splits)
  qed simp
qed simp

lemma yearOfDay_unique: "yearStart y \<le> z \<Longrightarrow> z < yearStart (y + 1) \<Longrightarrow> yearOfDay z = y"
  using yearOfDay_spec [of z] yearStart_mono [of y "yearOfDay z"] yearStart_mono [of "yearOfDay z" y]
  by linarith

text \<open>The day of the year in March-based months: month \<open>mp\<close> begins with day \<open>(153 mp + 2) / 5\<close>.\<close>

lemma month_cases:
  fixes doy :: int
  assumes "0 \<le> doy" "doy < 366"
  obtains mp where "(5 * doy + 2) div 153 = mp" "0 \<le> mp" "mp \<le> 11"
    "(153 * mp + 2) div 5 \<le> doy" "doy < (153 * (mp + 1) + 2) div 5"
proof -
  define mp where "mp = (5 * doy + 2) div 153"
  have b: "153 * mp \<le> 5 * doy + 2" "5 * doy + 2 < 153 * mp + 153"
    using div_bounds [of 153 "5 * doy + 2"] by (auto simp: mp_def)
  have "0 \<le> mp" "mp \<le> 11" using assms b by linarith+
  moreover have "(153 * mp + 2) div 5 \<le> doy" "doy < (153 * (mp + 1) + 2) div 5"
    using b div_bounds [of 5 "153 * mp + 2"] div_bounds [of 5 "153 * (mp + 1) + 2"] by simp_all
  ultimately show ?thesis using that mp_def by blast
qed

lemma civilOfDay_cases:
  obtains yy mp doy where "z + epochDay = yearStart yy + doy" "0 \<le> mp" "mp \<le> 11" "0 \<le> doy"
    "doy < (if isLeap (yy + 1) then 366 else 365)"
    "(153 * mp + 2) div 5 \<le> doy" "doy < (153 * (mp + 1) + 2) div 5"
    "civilOfDay z = (if mp < 10 then (yy, mp + 3, doy - (153 * mp + 2) div 5 + 1)
                     else (yy + 1, mp - 9, doy - (153 * mp + 2) div 5 + 1))"
proof -
  let ?y = "yearOfDay (z + epochDay)"
  define doy where "doy = z + epochDay - yearStart ?y"
  have b: "0 \<le> doy" "doy < (if isLeap (?y + 1) then 366 else 365)"
    using yearOfDay_spec [of "z + epochDay"] yearLength [of ?y] by (auto simp: doy_def)
  then have "doy < 366" by (auto split: if_splits)
  with b(1) obtain mp where "(5 * doy + 2) div 153 = mp" "0 \<le> mp" "mp \<le> 11"
    "(153 * mp + 2) div 5 \<le> doy" "doy < (153 * (mp + 1) + 2) div 5" by (rule month_cases)
  then show ?thesis using that [of ?y doy mp] b by (simp add: civilOfDay_def Let_def flip: doy_def) (simp add: doy_def)
qed

lemma dayOfCivil_civilOfDay: "civilOfDay z = (y, m, d) \<Longrightarrow> dayOfCivil y m d = z"
  by (rule civilOfDay_cases [of z]) (auto simp: dayOfCivil_def Let_def split: if_splits)

lemma month_enum: "0 \<le> mp \<Longrightarrow> mp \<le> 11 \<Longrightarrow> mp \<in> {0, 1, 2, 3, 4, 5, 6, 7, 8, 9, 10, 11::int}"
  unfolding insert_iff empty_iff by presburger

lemma civilOfDay_ranges:
  assumes "civilOfDay z = (y, m, d)"
  shows "1 \<le> m \<and> m \<le> 12 \<and> 1 \<le> d \<and> d \<le> daysIn m y"
proof (rule civilOfDay_cases [of z])
  fix yy mp doy
  assume a: "0 \<le> mp" "mp \<le> 11" "0 \<le> doy" "doy < (if isLeap (yy + 1) then 366 else 365)"
    "(153 * mp + 2) div 5 \<le> doy" "doy < (153 * (mp + 1) + 2) div 5"
    "civilOfDay z = (if mp < 10 then (yy, mp + 3, doy - (153 * mp + 2) div 5 + 1)
                     else (yy + 1, mp - 9, doy - (153 * mp + 2) div 5 + 1))"
  show ?thesis
    using month_enum [OF a(1,2)] a(3-7) assms
    by (elim insertE; simp add: daysIn_def split: if_splits)
qed

section \<open>Numerals\<close>

lemma of_char_digit: "n < 10 \<Longrightarrow> (of_char (digit n) :: nat) = 48 + n"
  by (simp add: digit_def)

lemma isDigit_digit [simp]: "n < 10 \<Longrightarrow> isDigit (digit n)"
  by (simp add: isDigit_def of_char_digit)

lemma digitVal_nat: "digitVal c = int (of_char c) - 48"
  by (simp add: digitVal_def del: of_nat_of_char) (metis of_nat_of_char)

lemma digitVal_digit [simp]: "n < 10 \<Longrightarrow> digitVal (digit n) = int n"
  by (simp add: digitVal_nat of_char_digit del: of_nat_of_char)

lemma digitVal_range: "isDigit c \<Longrightarrow> 0 \<le> digitVal c \<and> digitVal c \<le> 9"
  by (auto simp: isDigit_def digitVal_nat simp del: of_nat_of_char)

lemma numOf_snoc: "numOf (s @ [c]) = 10 * numOf s + digitVal c"
  by (simp add: numOf_def)

lemma numOf_Cons: "numOf (c # s) = digitVal c * 10 ^ length s + numOf s"
proof (induction s rule: rev_induct)
  case (snoc d s)
  have "numOf (c # s @ [d]) = 10 * numOf (c # s) + digitVal d" using numOf_snoc [of "c # s" d] by simp
  with snoc show ?case by (simp add: numOf_snoc)
qed (simp add: numOf_def)

lemma numOf_bounds: "list_all isDigit s \<Longrightarrow> 0 \<le> numOf s \<and> numOf s < 10 ^ length s"
proof (induction s)
  case (Cons c s)
  then have "digitVal c * 10 ^ length s \<le> 9 * 10 ^ length s"
    using digitVal_range [of c] by (intro mult_right_mono) auto
  moreover have "0 \<le> digitVal c * 10 ^ length s" using Cons digitVal_range [of c] by simp
  moreover have "0 \<le> numOf s" "numOf s < 10 ^ length s" using Cons by auto
  moreover have "(10::int) ^ length (c # s) = 9 * 10 ^ length s + 10 ^ length s" by simp
  ultimately show ?case unfolding numOf_Cons by linarith
qed (simp add: numOf_def)

lemma nat_str_ok:
  "n < 10 ^ w \<Longrightarrow> 0 < w \<Longrightarrow>
   list_all isDigit (nat_str n) \<and> length (nat_str n) \<le> w \<and> numOf (nat_str n) = int n"
proof (induction n arbitrary: w rule: nat_str.induct)
  case (1 n)
  show ?case
  proof (cases "n < 10")
    case True
    then show ?thesis using 1(3) by (simp add: nat_str.simps [of n] numOf_def)
  next
    case False
    then obtain v where v: "w = Suc v" "0 < v" using 1(2,3) by (cases w; cases "w - 1") auto
    then have "n div 10 < 10 ^ v" using 1(2) by (simp add: less_mult_imp_div_less mult.commute)
    from 1(1) [OF False this v(2)] False v show ?thesis
      by (simp add: nat_str.simps [of n] numOf_snoc) (simp add: zdiv_int zmod_int)
  qed
qed

lemma numOf_zeros: "numOf (replicate k CHR ''0'' @ s) = numOf s"
  by (induction k) (auto simp: numOf_def digitVal_def)

lemma padInt_ok:
  assumes "0 \<le> n" "n < 10 ^ w" "0 < w"
  shows "length (padInt w n) = w" "list_all isDigit (padInt w n)" "numOf (padInt w n) = n"
proof -
  have "nat n < 10 ^ w" using assms by (simp add: nat_less_iff)
  note nat_str_ok [OF this assms(3)]
  moreover have "list_all isDigit (replicate k CHR ''0'')" for k by (induction k) (auto simp: isDigit_def)
  ultimately show "length (padInt w n) = w" "list_all isDigit (padInt w n)" "numOf (padInt w n) = n"
    using assms by (simp_all add: padInt_def pad_def numOf_zeros)
qed

lemma fixedDigits_append:
  "length a = n \<Longrightarrow> list_all isDigit a \<Longrightarrow> fixedDigits n (a @ b) = Some (numOf a, b)"
  by (simp add: fixedDigits_def)

lemma fixedDigits_padInt [simp]:
  "0 \<le> n \<Longrightarrow> n < 10 ^ w \<Longrightarrow> 0 < w \<Longrightarrow> fixedDigits w (padInt w n @ b) = Some (n, b)"
  using padInt_ok [of n w] fixedDigits_append [of "padInt w n" w b] by simp

lemma hourDigits_padInt [simp]:
  assumes "0 \<le> n" "n < 100"
  shows "hourDigits (padInt 2 n @ b) = Some (n, b)"
proof -
  note ok = padInt_ok [of n 2, simplified, OF assms]
  then obtain c d where cd: "padInt 2 n = [c, d]" by (auto simp: length_Suc_conv numeral_2_eq_2)
  with ok have "isDigit c" "isDigit d" "n = 10 * digitVal c + digitVal d"
    by (auto simp: numOf_def)
  then show ?thesis unfolding cd by (simp add: hourDigits_def)
qed

lemma fraction_padInt [simp]:
  assumes "0 \<le> n" "n < 1000"
  shows "fraction (CHR ''.'' # padInt 3 n @ b) = Some (n * nsPerMs, b)"
proof -
  note ok = padInt_ok [of n 3, simplified, OF assms]
  then obtain c d e where cd: "padInt 3 n = [c, d, e]" by (auto simp: length_Suc_conv numeral_3_eq_3)
  with ok have "isDigit c" by simp
  then have "c \<noteq> CHR ''-''" "c \<noteq> CHR ''+''" by (auto simp: isDigit_def)
  with ok cd show ?thesis by (simp add: fraction_def)
qed

lemma literal_Cons [simp]: "literal c (c # s) = Some s"
  by (simp add: literal_def)

lemma zone_Z [simp]: "zone ''Z'' = Some (0, [])"
  by (simp add: zone_def)

section \<open>The round trip\<close>

definition wire_year :: "int \<Rightarrow> bool" where
  "wire_year t \<longleftrightarrow> 0 \<le> fst (civilOfDay (t div nsPerDay)) \<and> fst (civilOfDay (t div nsPerDay)) \<le> 9999"

lemma daysIn_le: "daysIn m y \<le> 31"
  by (simp add: daysIn_def)

text \<open>\<open>split_range\<close>: a remainder of the larger unit, divided by the smaller unit.\<close>

lemma split_range:
  assumes "0 < (b::int)" "0 < k" "a = b * k"
  shows "0 \<le> (t mod a) div b" "(t mod a) div b < k" "(t mod a) div b * b + t mod b = t mod a"
proof -
  have m: "0 \<le> t mod a" "t mod a < a" using assms by simp_all
  show "0 \<le> (t mod a) div b" using assms m pos_imp_zdiv_nonneg_iff [of b "t mod a"] by simp
  show "(t mod a) div b < k"
  proof -
    have "b * ((t mod a) div b) < b * k" using div_bounds [OF assms(1), of "t mod a"] m(2) assms(3) by linarith
    then show ?thesis using assms(1) by (simp only: mult_less_cancel_left_pos)
  qed
  show "(t mod a) div b * b + t mod b = t mod a"
    using div_mult_mod_eq [of "t mod a" b] assms by (simp add: mod_mod_cancel)
qed

lemma clock_fields:
  fixes s :: int
  assumes "0 \<le> s" "s < 86400"
  shows "0 \<le> s div 3600" "s div 3600 < 24" "0 \<le> s div 60 mod 60" "s div 60 mod 60 < 60"
    "0 \<le> s mod 60" "s mod 60 < 60" "s div 3600 * 3600 + s div 60 mod 60 * 60 + s mod 60 = s"
proof -
  have "s div 3600 = s div 60 div 60" by (simp add: zdiv_zmult2_eq [symmetric])
  then show "s div 3600 * 3600 + s div 60 mod 60 * 60 + s mod 60 = s"
    using div_mult_mod_eq [of "s div 60" 60] div_mult_mod_eq [of s 60] by linarith
qed (use assms in auto)

text \<open>The fields \<open>FormatWireTime\<close> prints, with their ranges and the time they add up to.\<close>

lemma wire_fields:
  assumes "wire_year t"
  obtains y m d h mi s ms where
    "FormatWireTime t = padInt 4 y @ ''-'' @ padInt 2 m @ ''-'' @ padInt 2 d @ ''T''
       @ padInt 2 h @ '':'' @ padInt 2 mi @ '':'' @ padInt 2 s @ ''.'' @ padInt 3 ms @ ''Z''"
    "civilOfDay (t div nsPerDay) = (y, m, d)"
    "0 \<le> y" "y < 10000" "1 \<le> m" "m \<le> 12" "1 \<le> d" "d \<le> daysIn m y"
    "0 \<le> h" "h < 24" "0 \<le> mi" "mi < 60" "0 \<le> s" "s < 60" "0 \<le> ms" "ms < 1000"
    "(h * 3600 + mi * 60 + s) * nsPerSec + ms * nsPerMs = t mod nsPerDay - t mod nsPerMs"
proof -
  obtain y m d where c: "civilOfDay (t div nsPerDay) = (y, m, d)" by (metis prod_cases3)
  define sd where "sd = (t mod nsPerDay) div nsPerSec"
  define ms where "ms = (t mod nsPerSec) div nsPerMs"
  have sd: "0 \<le> sd" "sd < 86400" "sd * nsPerSec + t mod nsPerSec = t mod nsPerDay"
    unfolding sd_def by (rule split_range; simp add: nsPerDay_def nsPerSec_def)+
  have ms: "0 \<le> ms" "ms < 1000" "ms * nsPerMs + t mod nsPerMs = t mod nsPerSec"
    unfolding ms_def by (rule split_range; simp add: nsPerMs_def nsPerSec_def)+
  note cl = clock_fields [OF sd(1,2)]
  have sum: "(sd div 3600 * 3600 + sd div 60 mod 60 * 60 + sd mod 60) * nsPerSec + ms * nsPerMs
      = t mod nsPerDay - t mod nsPerMs"
    unfolding cl(7) using sd(3) ms(3) by linarith
  have fmt: "FormatWireTime t = padInt 4 y @ ''-'' @ padInt 2 m @ ''-'' @ padInt 2 d @ ''T''
       @ padInt 2 (sd div 3600) @ '':'' @ padInt 2 (sd div 60 mod 60) @ '':'' @ padInt 2 (sd mod 60)
       @ ''.'' @ padInt 3 ms @ ''Z''"
    by (simp add: FormatWireTime_def c Let_def flip: sd_def ms_def)
  have y: "0 \<le> y" "y < 10000" using assms by (simp_all add: wire_year_def c)
  have rng: "1 \<le> m" "m \<le> 12" "1 \<le> d" "d \<le> daysIn m y" using civilOfDay_ranges [OF c] by auto
  show ?thesis by (rule that [OF fmt c y rng cl(1-6) ms(1,2) sum])
qed

text \<open>C27: a wire timestamp read back is the time it was printed from, to the millisecond below:
  \<open>ParseWireTime\<close> inverts \<open>FormatWireTime\<close> on every time whose UTC year has at most four digits,
  before and after the epoch, leap days included.\<close>

theorem ParseWireTime_FormatWireTime:
  assumes "wire_year t"
  shows "ParseWireTime (FormatWireTime t) = Inr (t - t mod nsPerMs)"
proof (rule wire_fields [OF assms])
  fix y m d h mi s ms
  assume f: "FormatWireTime t = padInt 4 y @ ''-'' @ padInt 2 m @ ''-'' @ padInt 2 d @ ''T''
       @ padInt 2 h @ '':'' @ padInt 2 mi @ '':'' @ padInt 2 s @ ''.'' @ padInt 3 ms @ ''Z''"
    and c: "civilOfDay (t div nsPerDay) = (y, m, d)"
    and r: "0 \<le> y" "y < 10000" "1 \<le> m" "m \<le> 12" "1 \<le> d" "d \<le> daysIn m y"
      "0 \<le> h" "h < 24" "0 \<le> mi" "mi < 60" "0 \<le> s" "s < 60" "0 \<le> ms" "ms < 1000"
    and sum: "(h * 3600 + mi * 60 + s) * nsPerSec + ms * nsPerMs = t mod nsPerDay - t mod nsPerMs"
  have "d < 100" using r daysIn_le [of m y] by linarith
  then have e: "fixedDigits 4 (padInt 4 y @ b) = Some (y, b)" "fixedDigits 2 (padInt 2 m @ b) = Some (m, b)"
    "fixedDigits 2 (padInt 2 d @ b) = Some (d, b)" "fixedDigits 2 (padInt 2 mi @ b) = Some (mi, b)"
    "fixedDigits 2 (padInt 2 s @ b) = Some (s, b)" for b
    using r by simp_all
  have e': "hourDigits (padInt 2 h @ b) = Some (h, b)" "fraction (CHR ''.'' # padInt 3 ms @ b) = Some (ms * nsPerMs, b)" for b
    using r by simp_all
  have valid: "(m < 1 \<or> 12 < m \<or> 24 \<le> h \<or> 60 \<le> mi \<or> 60 \<le> s \<or> d < 1 \<or> daysIn m y < d) = False"
    using r by (simp add: not_less not_le)
  have "parseFields (FormatWireTime t)
      = Some (dayOfCivil y m d * nsPerDay + (h * 3600 + mi * 60 + s) * nsPerSec + ms * nsPerMs)"
    by (simp only: f parseFields_def e e' literal_Cons zone_Z append_Cons append_Nil Option.bind.bind_lunit prod.case
        valid simp_thms if_False diff_0_right)
  also have "dayOfCivil y m d = t div nsPerDay" by (rule dayOfCivil_civilOfDay [OF c])
  also have "t div nsPerDay * nsPerDay + (h * 3600 + mi * 60 + s) * nsPerSec + ms * nsPerMs = t - t mod nsPerMs"
    using sum div_mult_mod_eq [of t nsPerDay] by linarith
  finally show ?thesis by (simp add: ParseWireTime_def)
qed

theorem ParseWireTime_FormatWireTime_witness:
  "ParseWireTime (FormatWireTime 1709210096789123456) = Inr 1709210096789000000"
proof -
  have "wire_year 1709210096789123456" by code_simp
  from ParseWireTime_FormatWireTime [OF this] show ?thesis by (simp add: nsPerMs_def)
qed

text \<open>The comment on \<open>ParseWireTime\<close> says a numeric offset is an error. The layout ends in
  \<open>Z07:00\<close>, which accepts one: the same instant written with an offset parses, and so do a comma
  for the point and a one-digit hour, while a missing fraction is refused.\<close>

theorem ParseWireTime_accepts_offsets:
  "ParseWireTime ''2024-06-10T08:13:20.123+02:00'' = Inr 1718000000123000000
   \<and> ParseWireTime ''2024-06-10T6:13:20,123Z'' = Inr 1718000000123000000
   \<and> ParseWireTime ''2024-06-10T06:13:20Z'' = Inl ParseTimeError"
  by code_simp

section \<open>The order of timestamps\<close>

lemma lex_append:
  fixes a a' b b' :: string
  shows "length a = length a' \<Longrightarrow> a @ b < a' @ b' \<longleftrightarrow> a < a' \<or> (a = a' \<and> b < b')"
  by (induction a a' rule: list_induct2) auto

lemma digit_less: "isDigit c \<Longrightarrow> isDigit d \<Longrightarrow> c < d \<longleftrightarrow> digitVal c < digitVal d"
  by (simp add: less_char_def digitVal_nat del: of_nat_of_char)

lemma numOf_less:
  "length a = length b \<Longrightarrow> list_all isDigit a \<Longrightarrow> list_all isDigit b \<Longrightarrow> a < b \<longleftrightarrow> numOf a < numOf b"
proof (induction a b rule: list_induct2)
  case (Cons c a d b)
  define k where "k = (10::int) ^ length a"
  have b: "0 \<le> numOf a" "numOf a < k" "0 \<le> numOf b" "numOf b < k"
    using numOf_bounds [of a] numOf_bounds [of b] Cons by (auto simp: k_def)
  have k: "length b = length a" "0 < k" using Cons by (auto simp: k_def)
  consider "digitVal c < digitVal d" | "digitVal c = digitVal d" | "digitVal d < digitVal c" by linarith
  then show ?case
  proof cases
    case 1
    then have "(digitVal c + 1) * k \<le> digitVal d * k" using k by (intro mult_right_mono) auto
    then show ?thesis using 1 Cons b k by (auto simp: numOf_Cons digit_less algebra_simps simp flip: k_def)
  next
    case 2
    then have "c = d" using Cons digit_less [of c d] digit_less [of d c] by auto
    then show ?thesis using Cons k by (auto simp: numOf_Cons)
  next
    case 3
    then have "(digitVal d + 1) * k \<le> digitVal c * k" using k by (intro mult_right_mono) auto
    moreover have "\<not> c < d" "c \<noteq> d" using 3 Cons digit_less [of c d] by auto
    ultimately show ?thesis using Cons b k by (auto simp: numOf_Cons algebra_simps simp flip: k_def)
  qed
qed simp

lemma padInt_less:
  assumes "0 \<le> n" "n < 10 ^ w" "0 \<le> m" "m < 10 ^ w" "0 < w"
  shows "padInt w n @ b < padInt w m @ b' \<longleftrightarrow> n < m \<or> (n = m \<and> b < b')"
proof -
  note n = padInt_ok [OF assms(1,2,5)] and m = padInt_ok [OF assms(3,4,5)]
  have "padInt w n = padInt w m \<longleftrightarrow> n = m" using n(3) m(3) by metis
  moreover have "padInt w n < padInt w m \<longleftrightarrow> n < m"
    using numOf_less [of "padInt w n" "padInt w m"] n m by simp
  ultimately show ?thesis using lex_append [of "padInt w n" "padInt w m" b b'] n(1) m(1) by simp
qed

text \<open>Dates grow with the day number.\<close>

lemma civilOfDay_mono:
  assumes "z < z'" "civilOfDay z = (y, m, d)" "civilOfDay z' = (y', m', d')"
  shows "y < y' \<or> (y = y' \<and> (m < m' \<or> (m = m' \<and> d < d')))"
proof (rule civilOfDay_cases [of z], rule civilOfDay_cases [of z'])
  fix yy mp doy yy' mp' doy'
  assume a: "z + epochDay = yearStart yy + doy" "0 \<le> mp" "mp \<le> 11" "0 \<le> doy"
    "doy < (if isLeap (yy + 1) then 366 else 365)"
    "(153 * mp + 2) div 5 \<le> doy" "doy < (153 * (mp + 1) + 2) div 5"
    "civilOfDay z = (if mp < 10 then (yy, mp + 3, doy - (153 * mp + 2) div 5 + 1)
                     else (yy + 1, mp - 9, doy - (153 * mp + 2) div 5 + 1))"
  assume b: "z' + epochDay = yearStart yy' + doy'" "0 \<le> mp'" "mp' \<le> 11" "0 \<le> doy'"
    "doy' < (if isLeap (yy' + 1) then 366 else 365)"
    "(153 * mp' + 2) div 5 \<le> doy'" "doy' < (153 * (mp' + 1) + 2) div 5"
    "civilOfDay z' = (if mp' < 10 then (yy', mp' + 3, doy' - (153 * mp' + 2) div 5 + 1)
                     else (yy' + 1, mp' - 9, doy' - (153 * mp' + 2) div 5 + 1))"
  have "yy \<le> yy'"
    using yearStart_mono [of yy' yy] yearLength [of yy'] a(1,4) b(1,5) assms(1)
    by (auto simp: not_le [symmetric])
  moreover have "mp \<le> mp' \<and> (mp = mp' \<longrightarrow> doy < doy')" if "yy = yy'"
  proof -
    have lt: "doy < doy'" using a(1) b(1) assms(1) that by simp
    have "\<not> mp' < mp"
    proof
      assume "mp' < mp"
      then have "(153 * (mp' + 1) + 2) div 5 \<le> (153 * mp + 2) div 5" by (intro zdiv_mono1) auto
      then show False using lt a(6) b(7) by linarith
    qed
    then show ?thesis using lt by auto
  qed
  moreover have e: "y = (if mp < 10 then yy else yy + 1)" "m = (if mp < 10 then mp + 3 else mp - 9)"
      "d = doy - (153 * mp + 2) div 5 + 1"
    using a(8) assms(2) by (simp_all split: if_splits)
  moreover have e': "y' = (if mp' < 10 then yy' else yy' + 1)" "m' = (if mp' < 10 then mp' + 3 else mp' - 9)"
      "d' = doy' - (153 * mp' + 2) div 5 + 1"
    using b(8) assms(3) by (simp_all split: if_splits)
  ultimately have "yy \<le> yy'" "yy = yy' \<longrightarrow> mp \<le> mp'" "yy = yy' \<and> mp = mp' \<longrightarrow> d < d'" by auto
  then show ?thesis using e(1,2) e'(1,2) a(2,3) b(2,3)
    by (cases "mp < 10"; cases "mp' < 10"; cases "yy = yy'"; cases "mp = mp'"; simp; linarith?)
qed

lemma mixed_radix:
  fixes a b k :: int
  assumes "0 \<le> b" "b < k" "0 \<le> b'" "b' < k"
  shows "a * k + b < a' * k + b' \<longleftrightarrow> a < a' \<or> (a = a' \<and> b < b')"
proof (cases a a' rule: linorder_cases)
  case less
  then have "(a + 1) * k \<le> a' * k" using assms by (intro mult_right_mono) auto
  then show ?thesis using less assms by (simp add: algebra_simps)
next
  case greater
  then have "(a' + 1) * k \<le> a * k" using assms by (intro mult_right_mono) auto
  then show ?thesis using greater assms by (simp add: algebra_simps)
qed simp

lemma mixed_radix_eq:
  fixes a b k :: int
  assumes "0 \<le> b" "b < k" "0 \<le> b'" "b' < k"
  shows "a * k + b = a' * k + b' \<longleftrightarrow> a = a' \<and> b = b'"
  using mixed_radix [OF assms, of a a'] mixed_radix [OF assms(3,4,1,2), of a' a] by auto

lemma clock_lex:
  fixes h mi s ms h' mi' s' ms' :: int
  assumes "0 \<le> h" "0 \<le> mi" "mi < 60" "0 \<le> s" "s < 60" "0 \<le> ms" "ms < 1000"
    and "0 \<le> h'" "0 \<le> mi'" "mi' < 60" "0 \<le> s'" "s' < 60" "0 \<le> ms'" "ms' < 1000"
  shows "(h * 3600 + mi * 60 + s) * nsPerSec + ms * nsPerMs < (h' * 3600 + mi' * 60 + s') * nsPerSec + ms' * nsPerMs
    \<longleftrightarrow> h < h' \<or> (h = h' \<and> (mi < mi' \<or> (mi = mi' \<and> (s < s' \<or> (s = s' \<and> ms < ms')))))"
proof -
  have e: "(h * 3600 + mi * 60 + s) * nsPerSec + ms * nsPerMs = (((h * 60 + mi) * 60 + s) * 1000 + ms) * nsPerMs"
    for h mi s ms by (simp add: nsPerSec_def nsPerMs_def)
  have p: "0 < nsPerMs" by (simp add: nsPerMs_def)
  show ?thesis
    unfolding e mult_less_cancel_right_pos [OF p] mixed_radix [OF assms(6,7,13,14)] mixed_radix [OF assms(4,5,11,12)]
      mixed_radix [OF assms(2,3,9,10)] mixed_radix_eq [OF assms(4,5,11,12)] mixed_radix_eq [OF assms(2,3,9,10)]
    by blast
qed

lemma FormatWireTime_less:
  assumes "wire_year t" "wire_year u" "t div nsPerMs < u div nsPerMs"
  shows "FormatWireTime t < FormatWireTime u"
proof (rule wire_fields [OF assms(1)], rule wire_fields [OF assms(2)])
  fix y m d h mi s ms y' m' d' h' mi' s' ms'
  assume f: "FormatWireTime t = padInt 4 y @ ''-'' @ padInt 2 m @ ''-'' @ padInt 2 d @ ''T''
       @ padInt 2 h @ '':'' @ padInt 2 mi @ '':'' @ padInt 2 s @ ''.'' @ padInt 3 ms @ ''Z''"
    and c: "civilOfDay (t div nsPerDay) = (y, m, d)"
    and r: "0 \<le> y" "y < 10000" "1 \<le> m" "m \<le> 12" "1 \<le> d" "d \<le> daysIn m y"
      "0 \<le> h" "h < 24" "0 \<le> mi" "mi < 60" "0 \<le> s" "s < 60" "0 \<le> ms" "ms < 1000"
    and sum: "(h * 3600 + mi * 60 + s) * nsPerSec + ms * nsPerMs = t mod nsPerDay - t mod nsPerMs"
  assume f': "FormatWireTime u = padInt 4 y' @ ''-'' @ padInt 2 m' @ ''-'' @ padInt 2 d' @ ''T''
       @ padInt 2 h' @ '':'' @ padInt 2 mi' @ '':'' @ padInt 2 s' @ ''.'' @ padInt 3 ms' @ ''Z''"
    and c': "civilOfDay (u div nsPerDay) = (y', m', d')"
    and r': "0 \<le> y'" "y' < 10000" "1 \<le> m'" "m' \<le> 12" "1 \<le> d'" "d' \<le> daysIn m' y'"
      "0 \<le> h'" "h' < 24" "0 \<le> mi'" "mi' < 60" "0 \<le> s'" "s' < 60" "0 \<le> ms'" "ms' < 1000"
    and sum': "(h' * 3600 + mi' * 60 + s') * nsPerSec + ms' * nsPerMs = u mod nsPerDay - u mod nsPerMs"
  have lt: "t - t mod nsPerMs < u - u mod nsPerMs"
    using assms(3) by (simp add: minus_mod_eq_mult_div nsPerMs_def)
  have "t div nsPerDay \<le> u div nsPerDay"
    using lt assms(3) pos_mod_bound [of nsPerMs t] div_bounds [of nsPerMs t] div_bounds [of nsPerMs u]
    by (intro zdiv_mono1) (auto simp: nsPerMs_def nsPerDay_def)
  moreover have "h < h' \<or> (h = h' \<and> (mi < mi' \<or> (mi = mi' \<and> (s < s' \<or> (s = s' \<and> ms < ms')))))"
    if "t div nsPerDay = u div nsPerDay"
  proof -
    have "t mod nsPerDay - t mod nsPerMs < u mod nsPerDay - u mod nsPerMs"
      using lt div_mult_mod_eq [of t nsPerDay] div_mult_mod_eq [of u nsPerDay] unfolding that by linarith
    then show ?thesis using clock_lex [OF r(7,9-14) r'(7,9-14)] sum sum' by simp
  qed
  moreover have "d < 100" "d' < 100" using r r' daysIn_le [of m y] daysIn_le [of m' y'] by linarith+
  ultimately show ?thesis
    using civilOfDay_mono [OF _ c c'] c c' r r'
    by (cases "t div nsPerDay = u div nsPerDay") (auto simp: f f' padInt_less)
qed

lemma mod_mult_div: "0 < b \<Longrightarrow> 0 < c \<Longrightarrow> (t::int) mod (b * c) div b = t div b mod c"
  by (simp add: zmod_zmult2_eq)

lemma FormatWireTime_same_ms:
  assumes "t div nsPerMs = u div nsPerMs"
  shows "FormatWireTime t = FormatWireTime u"
proof -
  have "t div nsPerDay = t div nsPerMs div 86400000" "t div nsPerSec = t div nsPerMs div 1000" for t
    using zdiv_zmult2_eq [of 86400000 t nsPerMs] zdiv_zmult2_eq [of 1000 t nsPerMs]
    by (simp_all add: nsPerDay_def nsPerMs_def nsPerSec_def)
  moreover have "(t mod (nsPerSec * 86400)) div nsPerSec = t div nsPerSec mod 86400"
    "(t mod (nsPerMs * 1000)) div nsPerMs = t div nsPerMs mod 1000" for t
    by (rule mod_mult_div; simp add: nsPerSec_def nsPerMs_def)+
  moreover have "nsPerSec * 86400 = nsPerDay" "nsPerMs * 1000 = nsPerSec"
    by (simp_all add: nsPerDay_def nsPerMs_def nsPerSec_def)
  ultimately show ?thesis using assms by (simp only: FormatWireTime_def)
qed

text \<open>C7: timestamps compare as strings the way the times compare. The stores order their rows by
  the TEXT column that \<open>FormatWireTime\<close> filled; for years of four digits the byte order of the
  strings is the order of the times in milliseconds, and equal strings mean the same millisecond.\<close>

theorem FormatWireTime_order:
  assumes "wire_year t" and "wire_year u"
  shows "FormatWireTime t \<le> FormatWireTime u \<longleftrightarrow> t div nsPerMs \<le> u div nsPerMs"
  using FormatWireTime_less [OF assms] FormatWireTime_less [OF assms(2,1)] FormatWireTime_same_ms [of t u]
  by (cases "t div nsPerMs" "u div nsPerMs" rule: linorder_cases) auto

theorem FormatWireTime_order_witness:
  "FormatWireTime (- 1) \<le> FormatWireTime 0 \<and> \<not> FormatWireTime 1718000000123456789 \<le> FormatWireTime 1718000000122999999"
proof -
  have y: "wire_year (- 1)" "wire_year 0" "wire_year 1718000000123456789" "wire_year 1718000000122999999"
    by code_simp+
  show ?thesis
    unfolding FormatWireTime_order [OF y(1,2)] FormatWireTime_order [OF y(3,4)] by (simp add: nsPerMs_def)
qed

end
