(* ===== verification/Envelopes.thy ===== *)
theory Envelopes
  imports Wire_Time
begin

text \<open>
  The wire envelope and its payloads: libs/go-pitwall/messaging/envelope.go, and the typed events
  of services/timing/internal/messaging and services/leaderboard/internal/messaging with their
  routing keys and exchanges. An identifier that \<open>uuid.NewV7\<close> returns is an argument of the
  constructors. The JSON codec is a parameter: a record with the encoder and one decoder per type.
\<close>

section \<open>The envelope\<close>

text \<open>\<open>Envelope\<close> and \<open>IncomingEnvelope\<close> differ in the type of \<open>Data\<close> only.\<close>

record 'a envelope_of =
  ID :: string
  Type :: string
  Source :: string
  SchemaVersion :: int
  EnvelopeVersion :: int
  OccurredAt :: string
  CorrelationID :: string
  CausationID :: "string option"
  Data :: 'a

type_synonym IncomingEnvelope = "bytes envelope_of"

section \<open>Payloads\<close>

record HeartbeatData =
  hb_Service :: string
  hb_At :: string
  hb_InstanceID :: string

record LapRecordedData =
  lap_MasterID :: string
  lap_SessionID :: string
  lap_LapNumber :: int
  lap_LapTimeMs :: int
  lap_At :: string
  lap_TransponderID :: "string option"

record SessionStartedData =
  st_SessionID :: string
  st_StartedAt :: string

record SessionSummaryRow =
  sum_MasterID :: string
  sum_BestLapMs :: int
  sum_LapCount :: int

record SessionEndedData =
  en_SessionID :: string
  en_EndedAt :: string
  en_Summary :: "SessionSummaryRow list"

record LookupRequestedData =
  lk_RequestID :: string
  lk_Email :: string

record CheckedInData =
  ci_MasterID :: string
  ci_At :: string
  ci_CheckInMethod :: string
  ci_TransponderID :: "string option"

record PersonalRecordBrokenData =
  pr_MasterID :: string
  pr_SessionID :: string
  pr_LapTimeMs :: int
  pr_PreviousMs :: "int option"

record ScannerOfflineData =
  off_ScannerID :: string
  off_Since :: string
  off_GapFrom :: string

record ScannerOnlineData =
  on_ScannerID :: string
  on_At :: string

record ResolvedData =
  rs_RequestID :: string
  rs_Email :: string
  rs_MasterID :: string

record requestData =
  rq_RequestID :: string
  rq_MasterID :: string

record erasedData =
  er_RequestID :: string
  er_MasterID :: string
  er_Service :: string
  er_Mode :: string
  er_At :: string

record PRUpdatedData =
  pu_MasterID :: string
  pu_LapTimeMs :: int
  pu_SetAt :: string

datatype payload =
    Heartbeat HeartbeatData
  | LapRecorded LapRecordedData
  | SessionStarted SessionStartedData
  | SessionEnded SessionEndedData
  | LookupRequested LookupRequestedData
  | CheckedIn CheckedInData
  | PersonalRecordBroken PersonalRecordBrokenData
  | ScannerOffline ScannerOfflineData
  | ScannerOnline ScannerOnlineData
  | Resolved ResolvedData
  | Erased erasedData

type_synonym Envelope = "payload envelope_of"

section \<open>Routing keys and exchanges\<close>

definition HeartbeatRoutingKey :: string where "HeartbeatRoutingKey = ''control.heartbeat''"
definition TimingExchange :: string where "TimingExchange = ''timing.events''"
definition LapRecordedRoutingKey :: string where "LapRecordedRoutingKey = ''lap.recorded''"
definition SessionStartedRoutingKey :: string where "SessionStartedRoutingKey = ''session.started''"
definition SessionEndedRoutingKey :: string where "SessionEndedRoutingKey = ''session.ended''"
definition DriverCheckedInRoutingKey :: string where "DriverCheckedInRoutingKey = ''driver.checked_in''"
definition PersonalRecordBrokenRoutingKey :: string where
  "PersonalRecordBrokenRoutingKey = ''personal_record.broken''"
definition ScannerOfflineRoutingKey :: string where "ScannerOfflineRoutingKey = ''scanner.offline''"
definition ScannerOnlineRoutingKey :: string where "ScannerOnlineRoutingKey = ''scanner.online''"
definition ScannerID :: string where "ScannerID = ''start-finish''"
definition CheckInMethodQR :: string where "CheckInMethodQR = ''qr''"
definition CheckInMethodTransponder :: string where "CheckInMethodTransponder = ''transponder''"
definition LookupRequestedRoutingKey :: string where
  "LookupRequestedRoutingKey = ''identity.lookup_requested''"
definition IdentityResolvedRoutingKey :: string where "IdentityResolvedRoutingKey = ''identity.resolved''"
definition DriverPRUpdatedRoutingKey :: string where "DriverPRUpdatedRoutingKey = ''driver.pr_updated''"
definition TimingDLXExchange :: string where "TimingDLXExchange = ''timing.dlx''"
definition IdentityEventsExchange :: string where "IdentityEventsExchange = ''identity.events''"
definition FrontendEventsExchange :: string where "FrontendEventsExchange = ''frontend.events''"
definition DriverEventsExchange :: string where "DriverEventsExchange = ''driver.events''"
definition IdentityResolvedQueue :: string where "IdentityResolvedQueue = ''timing.identity-resolved''"
definition DriverPRUpdatedQueue :: string where "DriverPRUpdatedQueue = ''timing.driver-pr-updated''"
definition ErasureRequestedType :: string where "ErasureRequestedType = ''privacy.erasure_requested''"
definition ErasedType :: string where "ErasedType = ''privacy.erased''"

section \<open>Constructors\<close>

definition NewDomainEnvelope :: "string \<Rightarrow> string \<Rightarrow> string \<Rightarrow> string \<Rightarrow> string \<Rightarrow> payload \<Rightarrow> Envelope" where
  "NewDomainEnvelope eid routingKey source correlationID occurredAt data =
     \<lparr>ID = eid, Type = routingKey, Source = source, SchemaVersion = 1, EnvelopeVersion = 1,
      OccurredAt = occurredAt, CorrelationID = correlationID, CausationID = None, Data = data\<rparr>"

definition NewCausedEnvelope :: "string \<Rightarrow> string \<Rightarrow> string \<Rightarrow> string \<Rightarrow> string \<Rightarrow> string \<Rightarrow> payload \<Rightarrow> Envelope" where
  "NewCausedEnvelope eid routingKey source correlationID causationID occurredAt data =
     \<lparr>ID = eid, Type = routingKey, Source = source, SchemaVersion = 1, EnvelopeVersion = 1,
      OccurredAt = occurredAt, CorrelationID = correlationID, CausationID = Some causationID, Data = data\<rparr>"

definition NewHeartbeatEnvelope :: "string \<Rightarrow> string \<Rightarrow> string \<Rightarrow> string \<Rightarrow> int \<Rightarrow> Envelope" where
  "NewHeartbeatEnvelope eid service instanceID correlationID now =
     (let ts = FormatWireTime now
      in \<lparr>ID = eid, Type = HeartbeatRoutingKey, Source = service, SchemaVersion = 1, EnvelopeVersion = 1,
          OccurredAt = ts, CorrelationID = correlationID, CausationID = None,
          Data = Heartbeat \<lparr>hb_Service = service, hb_At = ts, hb_InstanceID = instanceID\<rparr>\<rparr>)"

definition NewLookupRequestedEnvelope :: "string \<Rightarrow> string \<Rightarrow> string \<Rightarrow> string \<Rightarrow> string \<Rightarrow> int \<Rightarrow> Envelope" where
  "NewLookupRequestedEnvelope eid source correlationID requestID email at =
     NewDomainEnvelope eid LookupRequestedRoutingKey source correlationID (FormatWireTime at)
       (LookupRequested \<lparr>lk_RequestID = requestID, lk_Email = email\<rparr>)"

definition NewCheckedInEnvelope ::
  "string \<Rightarrow> string \<Rightarrow> string \<Rightarrow> string \<Rightarrow> string \<Rightarrow> string option \<Rightarrow> int \<Rightarrow> Envelope" where
  "NewCheckedInEnvelope eid source correlationID masterID checkInMethod transponderID at =
     (let ts = FormatWireTime at
      in NewDomainEnvelope eid DriverCheckedInRoutingKey source correlationID ts
           (CheckedIn \<lparr>ci_MasterID = masterID, ci_At = ts, ci_CheckInMethod = checkInMethod,
                       ci_TransponderID = transponderID\<rparr>))"

definition NewLapRecordedEnvelope ::
  "string \<Rightarrow> string \<Rightarrow> string \<Rightarrow> string \<Rightarrow> string \<Rightarrow> int \<Rightarrow> int \<Rightarrow> string option \<Rightarrow> int \<Rightarrow> Envelope" where
  "NewLapRecordedEnvelope eid source correlationID masterID sessionID lapNumber lapTimeMs transponderID at =
     (let ts = FormatWireTime at
      in NewDomainEnvelope eid LapRecordedRoutingKey source correlationID ts
           (LapRecorded \<lparr>lap_MasterID = masterID, lap_SessionID = sessionID, lap_LapNumber = lapNumber,
                         lap_LapTimeMs = lapTimeMs, lap_At = ts, lap_TransponderID = transponderID\<rparr>))"

definition NewSessionStartedEnvelope :: "string \<Rightarrow> string \<Rightarrow> string \<Rightarrow> string \<Rightarrow> int \<Rightarrow> Envelope" where
  "NewSessionStartedEnvelope eid source correlationID sessionID startedAt =
     (let ts = FormatWireTime startedAt
      in NewDomainEnvelope eid SessionStartedRoutingKey source correlationID ts
           (SessionStarted \<lparr>st_SessionID = sessionID, st_StartedAt = ts\<rparr>))"

definition NewPersonalRecordBrokenEnvelope ::
  "string \<Rightarrow> string \<Rightarrow> string \<Rightarrow> string \<Rightarrow> string \<Rightarrow> int \<Rightarrow> int option \<Rightarrow> int \<Rightarrow> Envelope" where
  "NewPersonalRecordBrokenEnvelope eid source correlationID masterID sessionID lapTimeMs previousMs at =
     NewDomainEnvelope eid PersonalRecordBrokenRoutingKey source correlationID (FormatWireTime at)
       (PersonalRecordBroken \<lparr>pr_MasterID = masterID, pr_SessionID = sessionID, pr_LapTimeMs = lapTimeMs,
                              pr_PreviousMs = previousMs\<rparr>)"

definition NewScannerOfflineEnvelope :: "string \<Rightarrow> string \<Rightarrow> string \<Rightarrow> string \<Rightarrow> string \<Rightarrow> int \<Rightarrow> Envelope" where
  "NewScannerOfflineEnvelope eid source correlationID scannerID gapFrom since =
     (let ts = FormatWireTime since
      in NewDomainEnvelope eid ScannerOfflineRoutingKey source correlationID ts
           (ScannerOffline \<lparr>off_ScannerID = scannerID, off_Since = ts, off_GapFrom = gapFrom\<rparr>))"

definition NewScannerOnlineEnvelope :: "string \<Rightarrow> string \<Rightarrow> string \<Rightarrow> string \<Rightarrow> int \<Rightarrow> Envelope" where
  "NewScannerOnlineEnvelope eid source correlationID scannerID at =
     (let ts = FormatWireTime at
      in NewDomainEnvelope eid ScannerOnlineRoutingKey source correlationID ts
           (ScannerOnline \<lparr>on_ScannerID = scannerID, on_At = ts\<rparr>))"

definition NewSessionEndedEnvelope ::
  "string \<Rightarrow> string \<Rightarrow> string \<Rightarrow> string \<Rightarrow> int \<Rightarrow> SessionSummaryRow list \<Rightarrow> Envelope" where
  "NewSessionEndedEnvelope eid source correlationID sessionID endedAt summary =
     (let ts = FormatWireTime endedAt
      in NewDomainEnvelope eid SessionEndedRoutingKey source correlationID ts
           (SessionEnded \<lparr>en_SessionID = sessionID, en_EndedAt = ts, en_Summary = summary\<rparr>))"

section \<open>The codec\<close>

text \<open>
  \<open>json.Marshal\<close> of an envelope and \<open>json.Unmarshal\<close> into each type the code decodes. \<open>None\<close> is an
  error of the decoder.
\<close>

record json_codec =
  Marshal :: "Envelope \<Rightarrow> bytes option"
  UnmarshalEnvelope :: "bytes \<Rightarrow> IncomingEnvelope option"
  UnmarshalLap :: "bytes \<Rightarrow> LapRecordedData option"
  UnmarshalStarted :: "bytes \<Rightarrow> SessionStartedData option"
  UnmarshalEnded :: "bytes \<Rightarrow> SessionEndedData option"
  UnmarshalLookup :: "bytes \<Rightarrow> LookupRequestedData option"
  UnmarshalResolved :: "bytes \<Rightarrow> ResolvedData option"
  UnmarshalRequest :: "bytes \<Rightarrow> requestData option"
  UnmarshalPRUpdated :: "bytes \<Rightarrow> PRUpdatedData option"

definition DecodeIncoming :: "json_codec \<Rightarrow> bytes \<Rightarrow> error + IncomingEnvelope" where
  "DecodeIncoming cd payload =
     (case UnmarshalEnvelope cd payload of None \<Rightarrow> Inl DecodeError | Some env \<Rightarrow> Inr env)"

definition DecodeLapRecorded :: "json_codec \<Rightarrow> IncomingEnvelope \<Rightarrow> error + LapRecordedData" where
  "DecodeLapRecorded cd env = (case UnmarshalLap cd (Data env) of None \<Rightarrow> Inl DecodeError | Some d \<Rightarrow> Inr d)"

definition DecodeSessionStarted :: "json_codec \<Rightarrow> IncomingEnvelope \<Rightarrow> error + SessionStartedData" where
  "DecodeSessionStarted cd env =
     (case UnmarshalStarted cd (Data env) of None \<Rightarrow> Inl DecodeError | Some d \<Rightarrow> Inr d)"

definition DecodeSessionEnded :: "json_codec \<Rightarrow> IncomingEnvelope \<Rightarrow> error + SessionEndedData" where
  "DecodeSessionEnded cd env =
     (case UnmarshalEnded cd (Data env) of None \<Rightarrow> Inl DecodeError | Some d \<Rightarrow> Inr d)"

section \<open>A codec for the witnesses\<close>

definition demo_codec :: json_codec where
  "demo_codec = \<lparr>Marshal = \<lambda>env. Some (ID env),
     UnmarshalEnvelope = \<lambda>b. Some \<lparr>ID = b, Type = b, Source = '''', SchemaVersion = 1, EnvelopeVersion = 1, OccurredAt = '''',
        CorrelationID = b, CausationID = None, Data = b\<rparr>,
     UnmarshalLap = \<lambda>_. None, UnmarshalStarted = \<lambda>_. None, UnmarshalEnded = \<lambda>_. None,
     UnmarshalLookup = \<lambda>b. Some \<lparr>lk_RequestID = b, lk_Email = b\<rparr>, UnmarshalResolved = \<lambda>_. None,
     UnmarshalRequest = \<lambda>b. Some \<lparr>rq_RequestID = b, rq_MasterID = b\<rparr>, UnmarshalPRUpdated = \<lambda>_. None\<rparr>"

definition demo_env :: "string \<Rightarrow> bytes \<Rightarrow> IncomingEnvelope" where
  "demo_env i b = \<lparr>ID = i, Type = ''t'', Source = '''', SchemaVersion = 1, EnvelopeVersion = 1, OccurredAt = '''',
     CorrelationID = i, CausationID = None, Data = b\<rparr>"

end
