(* ===== verification/Store_Core.thy ===== *)
theory Store_Core
  imports Envelopes
begin

text \<open>
  The tables every service has and their operations: the idempotent inbox
  (libs/go-pitwall/persistence/inbox.go) and the transactional outbox (outbox.go), with the
  constraints of the migrations (the id is the primary key of both). A service's database is an
  extension of these records.
\<close>

section \<open>Tables\<close>

record InboxRow =
  in_id :: string
  in_type :: string
  in_processed_at :: string

datatype row_status = Pending | Sent | Quarantined

text \<open>\<open>LastError\<close> holds the error whose text the column holds (\<open>None\<close>: the empty default).\<close>

record OutboxRow =
  Row_ID :: string
  RoutingKey :: string
  Payload :: bytes
  Status :: row_status
  Attempts :: int
  LastError :: "error option"
  CreatedAt :: string
  SentAt :: string

record inbox_db =
  inbox :: "InboxRow list"

record core_db = inbox_db +
  outbox :: "OutboxRow list"

section \<open>The inbox\<close>

definition seen :: "'d inbox_db_scheme \<Rightarrow> string \<Rightarrow> bool" where
  "seen d i \<longleftrightarrow> i \<in> in_id ` set (inbox d)"

definition InboxHasSeen :: "string \<Rightarrow> ('d inbox_db_scheme, bool) io" where
  "InboxHasSeen i = queryE (\<lambda>d. seen d i)"

definition InboxMarkSeen :: "string \<Rightarrow> string \<Rightarrow> string \<Rightarrow> ('d inbox_db_scheme, unit) io" where
  "InboxMarkSeen i eventType processedAt = execE (\<lambda>d.
     if seen d i then Inl Constraint
     else Inr (d\<lparr>inbox := inbox d @ [\<lparr>in_id = i, in_type = eventType, in_processed_at = processedAt\<rparr>]\<rparr>, ()))"

section \<open>The outbox\<close>

definition Enqueue :: "string \<Rightarrow> string \<Rightarrow> bytes \<Rightarrow> string \<Rightarrow> ('d core_db_scheme, unit) io" where
  "Enqueue i routingKey payload createdAt = execE (\<lambda>d.
     if i \<in> Row_ID ` set (outbox d) then Inl Constraint
     else Inr (d\<lparr>outbox := outbox d @ [\<lparr>Row_ID = i, RoutingKey = routingKey, Payload = payload, Status = Pending,
                 Attempts = 0, LastError = None, CreatedAt = createdAt, SentAt = ''''\<rparr>]\<rparr>, ()))"

definition pending :: "OutboxRow list \<Rightarrow> OutboxRow list" where
  "pending rows = sort_key (\<lambda>r. (CreatedAt r, Row_ID r)) (filter (\<lambda>r. Status r = Pending) rows)"

definition FetchPending :: "nat \<Rightarrow> ('d core_db_scheme, OutboxRow list) io" where
  "FetchPending limit = queryE (\<lambda>d. take limit (pending (outbox d)))"

definition upd_outbox :: "string \<Rightarrow> (OutboxRow \<Rightarrow> OutboxRow) \<Rightarrow> 'd core_db_scheme \<Rightarrow> 'd core_db_scheme" where
  "upd_outbox i f d = d\<lparr>outbox := upd_where (\<lambda>r. Row_ID r = i) f (outbox d)\<rparr>"

definition MarkSent :: "string \<Rightarrow> string \<Rightarrow> ('d core_db_scheme, unit) io" where
  "MarkSent i sentAt = execE (\<lambda>d. Inr (upd_outbox i (\<lambda>r. r\<lparr>Status := Sent, SentAt := sentAt\<rparr>) d, ()))"

definition MarkQuarantined :: "string \<Rightarrow> error \<Rightarrow> ('d core_db_scheme, unit) io" where
  "MarkQuarantined i lastErr = execE (\<lambda>d.
     Inr (upd_outbox i (\<lambda>r. r\<lparr>Status := Quarantined, Attempts := Attempts r + 1, LastError := Some lastErr\<rparr>) d, ()))"

definition RecordFailure :: "string \<Rightarrow> error \<Rightarrow> ('d core_db_scheme, unit) io" where
  "RecordFailure i lastErr = execE (\<lambda>d.
     Inr (upd_outbox i (\<lambda>r. r\<lparr>Attempts := Attempts r + 1, LastError := Some lastErr\<rparr>) d, ()))"

section \<open>Keys\<close>

text \<open>The primary keys of the two tables.\<close>

definition inbox_ok :: "'d inbox_db_scheme \<Rightarrow> bool" where
  "inbox_ok d \<longleftrightarrow> distinct (map in_id (inbox d))"

definition outbox_ok :: "'d core_db_scheme \<Rightarrow> bool" where
  "outbox_ok d \<longleftrightarrow> distinct (map Row_ID (outbox d))"

lemma inbox_ok_InboxMarkSeen [keeps_intros]: "keeps inbox_ok (InboxMarkSeen i t p)"
  unfolding InboxMarkSeen_def
  by (intro keeps_execE) (auto simp: inbox_ok_def seen_def split: if_splits)

lemma outbox_ok_InboxMarkSeen [keeps_intros]: "keeps outbox_ok (InboxMarkSeen i t p)"
  unfolding InboxMarkSeen_def
  by (intro keeps_execE) (auto simp: outbox_ok_def split: if_splits)

lemma keeps_InboxHasSeen [keeps_intros]: "keeps P (InboxHasSeen i)"
  unfolding InboxHasSeen_def by (intro keeps_intros)

lemma keeps_FetchPending [keeps_intros]: "keeps P (FetchPending n)"
  unfolding FetchPending_def by (intro keeps_intros)

lemma outbox_ok_upd [simp]: "(\<And>r. Row_ID (f r) = Row_ID r) \<Longrightarrow> outbox_ok (upd_outbox i f d) = outbox_ok d"
  by (simp add: outbox_ok_def upd_outbox_def map_upd_where)

lemma outbox_ok_ops [keeps_intros]:
  "keeps outbox_ok (Enqueue i k p c)" "keeps outbox_ok (MarkSent i s)"
  "keeps outbox_ok (MarkQuarantined i e)" "keeps outbox_ok (RecordFailure i e)"
  unfolding Enqueue_def MarkSent_def MarkQuarantined_def RecordFailure_def
  by (intro keeps_execE; auto simp: outbox_ok_def upd_outbox_def map_upd_where split: if_splits)+

lemma inbox_ok_ops [keeps_intros]:
  "keeps inbox_ok (Enqueue i k p c)" "keeps inbox_ok (MarkSent i s)"
  "keeps inbox_ok (MarkQuarantined i e)" "keeps inbox_ok (RecordFailure i e)"
  unfolding Enqueue_def MarkSent_def MarkQuarantined_def RecordFailure_def
  by (intro keeps_execE; auto simp: inbox_ok_def upd_outbox_def split: if_splits)+

lemma store_quiet [quiet_intros]:
  "quiet (InboxHasSeen i)" "quiet (InboxMarkSeen i t p)" "quiet (Enqueue i k pl c)" "quiet (FetchPending n)"
  "quiet (MarkSent i s)" "quiet (MarkQuarantined i e)" "quiet (RecordFailure i e)"
  unfolding InboxHasSeen_def InboxMarkSeen_def Enqueue_def FetchPending_def MarkSent_def MarkQuarantined_def
    RecordFailure_def
  by (intro quiet_intros)+

end
