(* ===== verification/Consumer_Spine.thy ===== *)
theory Consumer_Spine
  imports Dlq_Topology Store_Core
begin

text \<open>
  The failure spine the four consumers share: park, retry-or-park, ack and nack, and the run loop
  (services/timing/internal/consumer/consumer.go; the handlers of the other consumers repeat it), and
  the transaction shape they share: dedupe on the envelope id, do the work, mark the id. The locale
  \<open>delivery_spine\<close> states what a handler promises for one delivery, and shows what follows for a
  whole run; every handler of the services is an interpretation of it.
\<close>

section \<open>Deliveries and sinks\<close>

record Delivery =
  dv_Body :: bytes
  dv_Headers :: Table

definition RetryCount :: "Delivery \<Rightarrow> int" where
  "RetryCount d = parseRetryCount (dv_Headers d)"

text \<open>The wiring of a handler: its policy, and whether the two sinks are set.\<close>

record Sinks =
  sk_Policy :: Policy
  sk_Retry :: bool
  sk_Park :: bool

text \<open>An error of the ack or the nack itself is only logged.\<close>

definition ack :: "Delivery \<Rightarrow> ('d, unit) io" where
  "ack d = emitE (Acked (dv_Body d))"

definition nack :: "Delivery \<Rightarrow> bool \<Rightarrow> ('d, unit) io" where
  "nack d requeue = emitE (Nacked (dv_Body d) requeue)"

definition park :: "'s Sinks_scheme \<Rightarrow> Delivery \<Rightarrow> string \<Rightarrow> ('d, unit) io" where
  "park h d reason =
     (if \<not> sk_Park h then nack d False
      else bindE sendE (\<lambda>ok. bindE (emitE (ParkPub (dv_Body d) reason ok)) (\<lambda>_.
        if \<not> ok then nack d True
        else bindE (emitE (Alert ''message_parked'')) (\<lambda>_. ack d))))"

definition retryOrPark :: "(int \<Rightarrow> Policy \<Rightarrow> Decision) \<Rightarrow> 's Sinks_scheme \<Rightarrow> Delivery \<Rightarrow> ('d, unit) io" where
  "retryOrPark next_retry h d =
     (let dec = next_retry (RetryCount d) (sk_Policy h)
      in if Park dec then park h d ''retries-exhausted''
         else if \<not> sk_Retry h then nack d True
         else bindE sendE (\<lambda>ok. bindE (emitE (RetryPub (dv_Body d) (DelayMs dec) (NextRetries dec) ok)) (\<lambda>_.
           if \<not> ok then nack d True else ack d)))"

text \<open>What \<open>Run\<close> selects on.\<close>

datatype consumer_event = CtxCancelled | ChannelClosed | Delivered Delivery

fun consumer_run :: "(Delivery \<Rightarrow> ('d, unit) io) \<Rightarrow> consumer_event list \<Rightarrow> ('d, unit) io" where
  "consumer_run process [] = retE ()"
| "consumer_run process (CtxCancelled # evs) = retE ()"
| "consumer_run process (ChannelClosed # evs) = retE ()"
| "consumer_run process (Delivered d # evs) = bindE (process d) (\<lambda>_. consumer_run process evs)"

section \<open>What a handler promises\<close>

text \<open>
  A delivery is settled by a trace when exactly one verdict (ack or nack) is in it and it is
  about this message; an ack comes after a commit, after a confirmed retry or after a confirmed
  park of this message, unless the message is one the consumer ignores; a nack without requeue
  happens only when no park sink is wired (the queue's dead-letter arguments then park it).
\<close>

fun is_verdict :: "action \<Rightarrow> bool" where
  "is_verdict (Acked b) = True"
| "is_verdict (Nacked b q) = True"
| "is_verdict _ = False"

fun secures :: "bytes \<Rightarrow> action \<Rightarrow> bool" where
  "secures b Committed = True"
| "secures b (RetryPub b' delay n ok) = (b' = b \<and> ok)"
| "secures b (ParkPub b' reason ok) = (b' = b \<and> ok)"
| "secures b _ = False"

definition settled :: "bool \<Rightarrow> bool \<Rightarrow> bytes \<Rightarrow> action list \<Rightarrow> bool" where
  "settled ignored parks b tr \<longleftrightarrow>
     (case filter is_verdict tr of
        [Acked b'] \<Rightarrow> b' = b \<and> (ignored \<or> list_ex (secures b) (takeWhile (\<lambda>a. \<not> is_verdict a) tr))
      | [Nacked b' requeue] \<Rightarrow> b' = b \<and> (requeue \<or> \<not> parks)
      | _ \<Rightarrow> False)"

text \<open>The deliveries a run takes before it stops.\<close>

fun taken :: "consumer_event list \<Rightarrow> Delivery list" where
  "taken [] = []"
| "taken (CtxCancelled # evs) = []"
| "taken (ChannelClosed # evs) = []"
| "taken (Delivered d # evs) = d # taken evs"

locale delivery_spine =
  fixes process :: "Delivery \<Rightarrow> ('d, unit) io"
    and ignores :: "Delivery \<Rightarrow> bool"
    and parks :: bool
    and tables :: "'d \<Rightarrow> 'v"
  assumes settles: "process d ora w = (r, w') \<Longrightarrow> r = Inr () \<and>
      (\<exists>tr. trace w' = trace w @ tr \<and> settled (ignores d) parks (dv_Body d) tr \<and> (Committed \<notin> set tr \<longrightarrow> tables (db w') = tables (db w)))"
begin

lemma run_settles:
  "consumer_run process evs ora w = (r, w') \<Longrightarrow> r = Inr () \<and>
   (\<exists>trs. trace w' = trace w @ concat trs
      \<and> list_all2 (\<lambda>d tr. settled (ignores d) parks (dv_Body d) tr) (taken evs) trs)"
proof (induction evs arbitrary: w rule: taken.induct)
  case (4 d evs)
  obtain r1 w1 where p: "process d ora w = (r1, w1)" by fastforce
  from settles [OF this] obtain tr where tr: "r1 = Inr ()" "trace w1 = trace w @ tr"
    "settled (ignores d) parks (dv_Body d) tr" by blast
  then have "consumer_run process evs ora w1 = (r, w')" using 4(2) p by (simp add: bindE_def)
  from 4(1) [OF this] obtain trs where "r = Inr ()" "trace w' = trace w1 @ concat trs"
    "list_all2 (\<lambda>d tr. settled (ignores d) parks (dv_Body d) tr) (taken evs) trs" by blast
  then show ?case using tr by (auto intro!: exI [of _ "tr # trs"])
qed (auto simp: retE_def intro!: exI [of _ "[]"])

end

section \<open>The spine settles\<close>

lemma settled_Nil_pre: "filter is_verdict pre = [] \<Longrightarrow>
   settled ign pk b (pre @ Acked b # post) \<longleftrightarrow>
     filter is_verdict post = [] \<and> (ign \<or> list_ex (secures b) pre)"
  by (auto simp: settled_def filter_empty_conv takeWhile_append2 split: list.splits action.splits)

lemma park_settles:
  assumes "park h d reason ora w = (r, w')"
  shows "r = Inr () \<and> db w' = db w \<and> (\<exists>tr. trace w' = trace w @ tr \<and> Committed \<notin> set tr
    \<and> settled ign (sk_Park h) (dv_Body d) tr)"
  using assms
  by (auto simp: park_def nack_def ack_def io_defs settled_def split: if_splits)

lemma retryOrPark_settles:
  assumes "retryOrPark nr h d ora w = (r, w')"
  shows "r = Inr () \<and> db w' = db w \<and> (\<exists>tr. trace w' = trace w @ tr \<and> Committed \<notin> set tr
    \<and> settled ign (sk_Park h) (dv_Body d) tr)"
proof (cases "Park (nr (RetryCount d) (sk_Policy h))")
  case True
  then show ?thesis using assms park_settles [of h d _ ora w r w' ign] by (simp add: retryOrPark_def Let_def)
next
  case False
  then show ?thesis using assms
    by (auto simp: retryOrPark_def Let_def nack_def ack_def io_defs settled_def split: if_splits)
qed

text \<open>The success path: a commit, the ack, and whatever the handler signals afterwards.\<close>

lemma commit_settles:
  "filter is_verdict post = [] \<Longrightarrow> settled ign pk b (Committed # Acked b # post)"
  by (simp add: settled_def)

lemma ignore_settles: "settled True pk b [Acked b]"
  by (simp add: settled_def)

text \<open>
  What the contract of the spine asks of one step from \<open>w\<close> to \<open>w'\<close>; a handler is shown to do it
  branch by branch.
\<close>

definition step_done :: "bool \<Rightarrow> bool \<Rightarrow> ('d \<Rightarrow> 'v) \<Rightarrow> Delivery \<Rightarrow> 'd world \<Rightarrow> 'd world \<Rightarrow> bool" where
  "step_done ign parks tables d w w' \<longleftrightarrow> (\<exists>tr. trace w' = trace w @ tr \<and> settled ign parks (dv_Body d) tr
     \<and> (Committed \<notin> set tr \<longrightarrow> tables (db w') = tables (db w)))"

lemma park_done:
  "park h d reason ora w = (r, w') \<Longrightarrow> r = Inr () \<and> step_done ign (sk_Park h) tables d w w'"
  using park_settles [of h d reason ora w r w' ign] by (auto simp: step_done_def)

lemma retryOrPark_done:
  "retryOrPark nr h d ora w = (r, w') \<Longrightarrow> r = Inr () \<and> step_done ign (sk_Park h) tables d w w'"
  using retryOrPark_settles [of nr h d ora w r w' ign] by (auto simp: step_done_def)

lemma ack_done: "ack d ora w = (r, w') \<Longrightarrow> r = Inr () \<and> step_done True parks tables d w w'"
  by (auto simp: ack_def emitE_def step_done_def intro: ignore_settles)

text \<open>
  The main branch of every handler: run the operation; on an error retry or park; otherwise ack
  and signal. It is enough that the operation commits exactly when it succeeds.
\<close>

definition commits :: "('d \<Rightarrow> 'v) \<Rightarrow> ('d, 'a) io \<Rightarrow> bool" where
  "commits tables m \<longleftrightarrow> (\<forall>ora w x u. m ora w = (x, u) \<longrightarrow>
     trace u = trace w @ (case x of Inl e \<Rightarrow> [] | Inr a \<Rightarrow> [Committed])
     \<and> (\<forall>e. x = Inl e \<longrightarrow> tables (db u) = tables (db w)))"

definition chatter :: "('d, unit) io \<Rightarrow> bool" where
  "chatter m \<longleftrightarrow> (\<forall>ora w x u. m ora w = (x, u) \<longrightarrow>
     x = Inr () \<and> (\<exists>tr. trace u = trace w @ tr \<and> filter is_verdict tr = []))"

lemma chatter_simps [simp]:
  "chatter (retE ())" "chatter (emitE Kicked)" "chatter (emitE (Alert s))" "chatter m \<Longrightarrow> chatter (whenE b m)"
  by (auto simp: chatter_def io_defs)

lemma tryE_done:
  assumes run: "tryE op (\<lambda>x. case x of Inl e \<Rightarrow> retryOrPark nr h d | Inr a \<Rightarrow> bindE (ack d) (\<lambda>_. post a)) ora w = (r, w')"
    and op: "commits tables op" and post: "\<And>a. chatter (post a)"
  shows "r = Inr () \<and> step_done ign (sk_Park h) tables d w w'"
proof -
  obtain x u where x: "op ora w = (x, u)" by fastforce
  note c = op [unfolded commits_def, rule_format, OF x]
  show ?thesis
  proof (cases x)
    case (Inl e)
    then have "retryOrPark nr h d ora u = (r, w')" using run x by (simp add: tryE_def)
    from retryOrPark_done [OF this, of ign tables] c Inl show ?thesis by (simp add: step_done_def)
  next
    case (Inr a)
    define v where "v = u\<lparr>trace := trace u @ [Acked (dv_Body d)]\<rparr>"
    have "post a ora v = (r, w')" using run x Inr by (simp add: tryE_def bindE_def ack_def emitE_def v_def)
    with post [of a] obtain tr where "r = Inr ()" "trace w' = trace v @ tr" "filter is_verdict tr = []"
      unfolding chatter_def by blast
    then show ?thesis using c Inr
      by (auto simp: step_done_def v_def commit_settles intro!: exI [of _ "Committed # Acked (dv_Body d) # tr"])
  qed
qed

section \<open>Once per envelope\<close>

text \<open>
  The transaction the consumers run: look the envelope id up in the inbox, stop with \<open>dup\<close> when
  it is there, otherwise do the work and record the id, in one transaction.
\<close>

definition once :: "string \<Rightarrow> string \<Rightarrow> string \<Rightarrow> 'a \<Rightarrow> ('d inbox_db_scheme, 'a) io \<Rightarrow> ('d inbox_db_scheme, 'a) io" where
  "once i ty at dup body = WithinTx (bindE (InboxHasSeen i) (\<lambda>s.
     if s then retE dup
     else bindE body (\<lambda>r. bindE (InboxMarkSeen i ty at) (\<lambda>_. retE r))))"

lemma InboxHasSeen_Inr: "InboxHasSeen i ora w = (Inr s, w') \<Longrightarrow> s = seen (db w) i \<and> w' = tock w"
  by (auto simp: InboxHasSeen_def queryE_def split: if_splits)

lemma InboxMarkSeen_Inr: "InboxMarkSeen i ty at ora w = (Inr u, w') \<Longrightarrow>
   \<not> seen (db w) i \<and> w' = (tock w)\<lparr>db := (db w)\<lparr>inbox := inbox (db w)
     @ [\<lparr>in_id = i, in_type = ty, in_processed_at = at\<rparr>]\<rparr>\<rparr>"
  by (auto simp: InboxMarkSeen_def execE_def split: if_splits)

lemma seen_snoc [simp]: "seen (d\<lparr>inbox := inbox d @ [row]\<rparr>) i \<longleftrightarrow> seen d i \<or> i = in_id row"
  by (auto simp: seen_def)

lemma once_Inr:
  assumes "once i ty at dup body ora w = (Inr r, w')"
  shows "(seen (db w) i \<and> r = dup \<and> db w' = db w)
    \<or> (\<not> seen (db w) i \<and> (\<exists>u. body ora (tock (tock w)) = (Inr r, u)
         \<and> db w' = (db u)\<lparr>inbox := inbox (db u) @ [\<lparr>in_id = i, in_type = ty, in_processed_at = at\<rparr>]\<rparr>))"
proof -
  from WithinTx_Inr [OF assms [unfolded once_def]] obtain v where
    v: "bindE (InboxHasSeen i) (\<lambda>s. if s then retE dup
         else bindE body (\<lambda>r. bindE (InboxMarkSeen i ty at) (\<lambda>_. retE r))) ora (tock w) = (Inr r, v)" "db w' = db v"
    by blast
  then show ?thesis
    by (auto simp: bindE_eq_Inr retE_def dest!: InboxHasSeen_Inr InboxMarkSeen_Inr split: if_splits)
qed

lemma once_Inl: "once i ty at dup body ora w = (Inl e, w') \<Longrightarrow> db w' = db w"
  unfolding once_def by (rule WithinTx_Inl)

lemma quiet_once [quiet_intros]:
  "quiet body \<Longrightarrow> quiet (bindE (InboxHasSeen i) (\<lambda>s. if s then retE dup
     else bindE body (\<lambda>r. bindE (InboxMarkSeen i ty at) (\<lambda>_. retE r))))"
  by (intro quiet_intros)

lemma once_trace:
  assumes "quiet body" "once i ty at dup body ora w = (r, w')"
  shows "trace w' = trace w @ (case r of Inl e \<Rightarrow> [] | Inr a \<Rightarrow> [Committed])"
  using WithinTx_quiet [OF quiet_once [OF assms(1)] assms(2) [unfolded once_def]] by (auto split: sum.splits)

text \<open>A redelivery changes nothing, however the first delivery of the envelope came in.\<close>

lemma once_again: "seen (db w) i \<Longrightarrow> once i ty at dup body ora w = (r, w') \<Longrightarrow> db w' = db w"
  using once_Inr [of i ty at dup body ora w _ w'] once_Inl [of i ty at dup body ora w _ w'] by (cases r) auto

lemma keeps_once [keeps_intros]:
  assumes "keeps P body" "keeps P (InboxMarkSeen i ty at)"
  shows "keeps P (once i ty at dup body)"
  unfolding once_def using assms by (intro keeps_intros)

lemma once_commits: "quiet body \<Longrightarrow> commits tables (once i ty at dup body)"
  unfolding commits_def using once_trace once_Inl by metis

lemma commits_pre:
  assumes "\<And>ora w. \<exists>a u. pre ora w = (Inr a, u) \<and> trace u = trace w \<and> tables (db u) = tables (db w)"
    and "\<And>a. commits tables (f a)"
  shows "commits tables (bindE pre f)"
  unfolding commits_def
proof (intro allI impI)
  fix ora w x u
  assume run: "bindE pre f ora w = (x, u)"
  from assms(1) [of ora w] obtain a v where v: "pre ora w = (Inr a, v)" "trace v = trace w" "tables (db v) = tables (db w)" by blast
  with run have "f a ora v = (x, u)" by (simp add: bindE_def)
  with assms(2) [of a] v show "trace u = trace w @ (case x of Inl e \<Rightarrow> [] | Inr a \<Rightarrow> [Committed])
     \<and> (\<forall>e. x = Inl e \<longrightarrow> tables (db u) = tables (db w))" unfolding commits_def by metis
qed

end
