(* ===== verification/Outbox_Relay.thy ===== *)
theory Outbox_Relay
  imports Store_Core
begin

text \<open>
  The producer side of the outbox and the relay that publishes it (libs/go-pitwall/relay):
  \<open>EnqueueEnvelope\<close> and \<open>NewEnqueuer\<close>, the drain of one batch, the shutdown flush, the backoff, and the
  run loop as a function of the events it selects on. Validation is a parameter; a publish asks
  the oracle whether the broker confirms it and leaves a \<open>Pub\<close> in the trace either way.
\<close>

section \<open>The producer seam\<close>

type_synonym validator = "bytes \<Rightarrow> error option"

text \<open>The first argument is the optional validator (\<open>None\<close>: Go's nil).\<close>

definition EnqueueEnvelope :: "json_codec \<Rightarrow> validator option \<Rightarrow> Envelope \<Rightarrow> ('d core_db_scheme, unit) io" where
  "EnqueueEnvelope cd validate env =
     (case Marshal cd env of
        None \<Rightarrow> failE MarshalError
      | Some payload \<Rightarrow>
          (case (case validate of None \<Rightarrow> None | Some v \<Rightarrow> v payload) of
             Some verr \<Rightarrow> failE verr
           | None \<Rightarrow> Enqueue (ID env) (Type env) payload (OccurredAt env)))"

definition NewEnqueuer :: "json_codec \<Rightarrow> validator option \<Rightarrow> Envelope \<Rightarrow> ('d core_db_scheme, unit) io" where
  "NewEnqueuer cd validate env =
     bindE (WithinTx (EnqueueEnvelope cd validate env)) (\<lambda>_. emitE Kicked)"

section \<open>The relay\<close>

definition maxBackoff :: int where "maxBackoff = 5 * nsPerSec"

record RelayConfig =
  rc_Validate :: validator
  rc_Interval :: int
  rc_Batch :: int

text \<open>\<open>New\<close> replaces a batch that is not positive.\<close>

definition NewRelay :: "RelayConfig \<Rightarrow> RelayConfig" where
  "NewRelay cfg = (if rc_Batch cfg \<le> 0 then cfg\<lparr>rc_Batch := 100\<rparr> else cfg)"

text \<open>The loop over the fetched rows; the result is the number sent and the error, if any.\<close>

fun drain_rows :: "validator \<Rightarrow> OutboxRow list \<Rightarrow> int \<Rightarrow> ('d core_db_scheme, int \<times> error option) io" where
  "drain_rows v [] n = retE (n, None)"
| "drain_rows v (row # rows) n =
     (case v (Payload row) of
        Some verr \<Rightarrow>
          tryE (MarkQuarantined (Row_ID row) verr) (\<lambda>r. case r of
            Inl derr \<Rightarrow> retE (n, Some derr)
          | Inr _ \<Rightarrow> drain_rows v rows n)
      | None \<Rightarrow>
          bindE sendE (\<lambda>ok. bindE (emitE (Pub (RoutingKey row) (Payload row) ok)) (\<lambda>_.
            if \<not> ok then tryE (RecordFailure (Row_ID row) PublishError) (\<lambda>_. retE (n, Some PublishError))
            else bindE nowE (\<lambda>now. tryE (MarkSent (Row_ID row) (FormatWireTime now)) (\<lambda>r. case r of
                   Inl merr \<Rightarrow> retE (n, Some merr)
                 | Inr _ \<Rightarrow> drain_rows v rows (n + 1))))))"

definition DrainOnce :: "RelayConfig \<Rightarrow> ('d core_db_scheme, int \<times> error option) io" where
  "DrainOnce cfg = tryE (FetchPending (nat (rc_Batch cfg))) (\<lambda>r. case r of
     Inl err \<Rightarrow> retE (0, Some err)
   | Inr rows \<Rightarrow> drain_rows (rc_Validate cfg) rows 0)"

definition Flush :: "RelayConfig \<Rightarrow> ('d core_db_scheme, int \<times> int) io" where
  "Flush cfg = bindE (DrainOnce cfg) (\<lambda>(sent, _). tryE (FetchPending (nat (rc_Batch cfg))) (\<lambda>r. case r of
     Inl err \<Rightarrow> retE (sent, 0)
   | Inr rows \<Rightarrow> retE (sent, int (length rows))))"

definition nextBackoff :: "int \<Rightarrow> int \<Rightarrow> int" where
  "nextBackoff cur base =
     (let next = wrap64 (cur * 2);
          next = (if next > maxBackoff then maxBackoff else next)
      in if next < base then base else next)"

text \<open>What \<open>Run\<close> selects on: the context, the kick channel, the timer.\<close>

datatype relay_event = RelayDone | RelayKick | RelayTimer

text \<open>
  The run over the events in the order they are selected; the result is the list of delays the
  timer was reset to, one per drain.
\<close>

fun RelayRun :: "RelayConfig \<Rightarrow> int \<Rightarrow> relay_event list \<Rightarrow> ('d core_db_scheme, int list) io" where
  "RelayRun cfg backoff [] = retE []"
| "RelayRun cfg backoff (ev # evs) =
     (if ev = RelayDone then retE []
      else bindE (DrainOnce cfg) (\<lambda>(sent, err).
             let backoff' = (if err \<noteq> None then nextBackoff backoff (rc_Interval cfg) else rc_Interval cfg)
             in bindE (RelayRun cfg backoff' evs) (\<lambda>ds. retE (backoff' # ds))))"

section \<open>Enqueueing\<close>

lemma keeps_EnqueueEnvelope [keeps_intros]:
  "keeps outbox_ok (EnqueueEnvelope cd v env)" "keeps inbox_ok (EnqueueEnvelope cd v env)"
  unfolding EnqueueEnvelope_def by (intro keeps_intros)+

lemma quiet_EnqueueEnvelope [quiet_intros]: "quiet (EnqueueEnvelope cd v env)"
  unfolding EnqueueEnvelope_def by (intro quiet_intros)

lemma EnqueueEnvelope_Inr:
  "EnqueueEnvelope cd v env ora w = (Inr u, w') \<Longrightarrow>
   \<exists>payload. Marshal cd env = Some payload \<and> (\<forall>f. v = Some f \<longrightarrow> f payload = None)
     \<and> ID env \<notin> Row_ID ` set (outbox (db w))
     \<and> db w' = (db w)\<lparr>outbox := outbox (db w) @ [\<lparr>Row_ID = ID env, RoutingKey = Type env, Payload = payload,
          Status = Pending, Attempts = 0, LastError = None, CreatedAt = OccurredAt env, SentAt = ''''\<rparr>]\<rparr>"
  by (auto simp: EnqueueEnvelope_def Enqueue_def io_defs split: option.splits if_splits)

section \<open>One drain\<close>

text \<open>
  What may happen to a row during a drain whose trace is \<open>tr\<close>: the message never changes; it goes
  to sent only when it is valid and a confirmed publish of exactly its payload is in the trace;
  it goes to quarantined only when it is invalid.
\<close>

definition row_next :: "validator \<Rightarrow> action list \<Rightarrow> OutboxRow \<Rightarrow> OutboxRow \<Rightarrow> bool" where
  "row_next v tr r r' \<longleftrightarrow>
     Row_ID r' = Row_ID r \<and> RoutingKey r' = RoutingKey r \<and> Payload r' = Payload r \<and> CreatedAt r' = CreatedAt r
     \<and> (Status r' = Status r
        \<or> (Status r = Pending \<and> Status r' = Sent \<and> v (Payload r) = None
             \<and> Pub (RoutingKey r) (Payload r) True \<in> set tr)
        \<or> (Status r = Pending \<and> Status r' = Quarantined \<and> v (Payload r) \<noteq> None))"

lemma row_next_refl [simp]: "row_next v tr r r"
  by (simp add: row_next_def)

lemma row_next_mono: "row_next v tr r r' \<Longrightarrow> row_next v (tr @ tr') r r'"
  by (auto simp: row_next_def)

lemma rows_next_mono: "list_all2 (row_next v tr) rs rs' \<Longrightarrow> list_all2 (row_next v (tr @ tr')) rs rs'"
  by (erule list_all2_mono) (rule row_next_mono)

text \<open>Updating the row with the id of \<open>r\<close> touches the row that came from \<open>r\<close> only.\<close>

lemma rows_next_upd:
  assumes "list_all2 (row_next v tr) rs cur" "distinct (map Row_ID rs)" "r \<in> set rs"
    and "\<And>c. row_next v tr r c \<Longrightarrow> row_next v tr r (f c)"
  shows "list_all2 (row_next v tr) rs (upd_where (\<lambda>x. Row_ID x = Row_ID r) f cur)"
  using assms(1-3)
proof (induction rule: list_all2_induct)
  case (Cons x xs y ys)
  have y: "Row_ID y = Row_ID x" using Cons(1) by (simp add: row_next_def)
  show ?case
  proof (cases "r = x")
    case True
    have "upd_where (\<lambda>x. Row_ID x = Row_ID r) f ys = ys"
    proof (rule upd_where_id)
      fix z
      assume "z \<in> set ys" "Row_ID z = Row_ID r"
      moreover have "map Row_ID ys = map Row_ID xs"
        using Cons(2) by (induction rule: list_all2_induct) (auto simp: row_next_def)
      ultimately have "Row_ID r \<in> set (map Row_ID xs)" by (metis image_eqI list.set_map)
      then show "f z = z" using True Cons(4) by simp
    qed
    then show ?thesis using True Cons(1,2) y assms(4) by simp
  next
    case False
    then have "r \<in> set xs" "Row_ID x \<noteq> Row_ID r" using Cons(4,5) by auto
    then show ?thesis using Cons y by simp
  qed
qed simp

text \<open>The publishes of a drain: confirmed ones for the valid rows in order, and at most one that
  was not confirmed, which ends the drain.\<close>

definition pubOf :: "bool \<Rightarrow> OutboxRow \<Rightarrow> action" where
  "pubOf ok r = Pub (RoutingKey r) (Payload r) ok"

definition in_order :: "validator \<Rightarrow> OutboxRow list \<Rightarrow> action list \<Rightarrow> bool" where
  "in_order v rows tr \<longleftrightarrow> (\<exists>sent rest. filter (\<lambda>r. v (Payload r) = None) rows = sent @ rest
     \<and> (tr = map (pubOf True) sent \<or> (rest \<noteq> [] \<and> tr = map (pubOf True) sent @ [pubOf False (hd rest)])))"

lemma in_order_Nil [simp]: "in_order v rows []"
  by (auto simp: in_order_def)

lemma in_order_skip: "v (Payload r) \<noteq> None \<Longrightarrow> in_order v (r # rows) tr = in_order v rows tr"
  by (auto simp: in_order_def)

lemma in_order_one: "v (Payload r) = None \<Longrightarrow> in_order v (r # rows) [pubOf ok r]"
  unfolding in_order_def
  by (cases ok; rule exI [of _ "if ok then [r] else []"], rule exI [of _ "if ok then filter (\<lambda>r. v (Payload r) = None) rows
      else r # filter (\<lambda>r. v (Payload r) = None) rows"]) simp_all

lemma in_order_Cons:
  assumes "v (Payload r) = None" "in_order v rows tr"
  shows "in_order v (r # rows) (pubOf True r # tr)"
proof -
  from assms(2) obtain sent rest where "filter (\<lambda>r. v (Payload r) = None) rows = sent @ rest"
    "tr = map (pubOf True) sent \<or> (rest \<noteq> [] \<and> tr = map (pubOf True) sent @ [pubOf False (hd rest)])"
    unfolding in_order_def by blast
  then show ?thesis unfolding in_order_def using assms(1)
    by (intro exI [of _ "r # sent"] exI [of _ rest]) auto
qed

lemma drain_rows_safe:
  assumes "drain_rows v rows n ora w = (res, w')"
    and "list_all2 (row_next v tr) rs (outbox (db w))" "distinct (map Row_ID rs)"
    and "\<And>r. r \<in> set rows \<Longrightarrow> r \<in> set rs \<and> Status r = Pending"
  shows "\<exists>tr'. trace w' = trace w @ tr' \<and> list_all2 (row_next v (tr @ tr')) rs (outbox (db w')) \<and> in_order v rows tr'"
  using assms(1,2,4)
proof (induction rows arbitrary: n w tr)
  case Nil
  then show ?case by (auto simp: io_defs intro!: exI [of _ "[]"])
next
  case (Cons row rows)
  have row: "row \<in> set rs" "Status row = Pending" using Cons.prems by auto
  show ?case
  proof (cases "v (Payload row)")
    case (Some verr)
    show ?thesis
    proof (cases "o_fault ora (tick w)")
      case True
      then show ?thesis using Cons.prems Some
        by (auto simp: io_defs MarkQuarantined_def intro!: exI [of _ "[]"])
    next
      case False
      define w1 where "w1 = (tock w)\<lparr>db := upd_outbox (Row_ID row)
        (\<lambda>r. r\<lparr>Status := Quarantined, Attempts := Attempts r + 1, LastError := Some verr\<rparr>) (db w)\<rparr>"
      have run: "drain_rows v rows n ora w1 = (res, w')"
        using Cons.prems(1) Some False by (simp add: io_defs MarkQuarantined_def w1_def)
      have "list_all2 (row_next v tr) rs (outbox (db w1))"
        unfolding w1_def upd_outbox_def using row Some
        by (simp, intro rows_next_upd [OF Cons.prems(2) assms(3) row(1)]) (auto simp: row_next_def)
      from Cons.IH [OF run this] Cons.prems(3) show ?thesis
        by (auto simp: in_order_skip Some w1_def)
    qed
  next
    case None
    define w1 where "w1 = (tock w)\<lparr>trace := trace w @ [pubOf (o_send ora (tick w)) row]\<rparr>"
    have db1: "list_all2 (row_next v (tr @ [pubOf ok row])) rs (outbox (db w1))" for ok
      using rows_next_mono [OF Cons.prems(2)] by (simp add: w1_def)
    show ?thesis
    proof (cases "o_send ora (tick w)")
      case False
      define u where "u = snd (RecordFailure (Row_ID row) PublishError ora w1)"
      have "list_all2 (row_next v (tr @ [pubOf False row])) rs (outbox (db u))"
        using db1 [of False] assms(3) row
        by (auto simp: u_def RecordFailure_def execE_def upd_outbox_def row_next_def intro!: rows_next_upd)
      moreover have "w' = u" "trace u = trace w1"
        using Cons.prems(1) None False
        by (auto simp: u_def io_defs RecordFailure_def w1_def pubOf_def split: if_splits)
      ultimately show ?thesis using in_order_one [of v row rows False, OF None] False
        by (intro exI [of _ "[pubOf False row]"]) (simp add: w1_def)
    next
      case True
      show ?thesis
      proof (cases "o_fault ora (tick (tock w1))")
        case fault: True
        then have "db w' = db w1" "trace w' = trace w1"
          using Cons.prems(1) None True by (auto simp: io_defs MarkSent_def w1_def pubOf_def)
        then show ?thesis using in_order_one [of v row rows True, OF None] db1 [of True] True
          by (intro exI [of _ "[pubOf True row]"]) (simp add: w1_def)
      next
        case ok: False
        define w2 where "w2 = (tock (tock w1))\<lparr>db := upd_outbox (Row_ID row)
          (\<lambda>r. r\<lparr>Status := Sent, SentAt := FormatWireTime (o_clk ora (tick w1))\<rparr>) (db w1)\<rparr>"
        have run: "drain_rows v rows (n + 1) ora w2 = (res, w')"
          using Cons.prems(1) None True ok by (simp add: io_defs MarkSent_def w2_def w1_def pubOf_def)
        have "list_all2 (row_next v (tr @ [pubOf True row])) rs (outbox (db w2))"
          unfolding w2_def upd_outbox_def using db1 [of True] row assms(3) None
          by (auto intro!: rows_next_upd simp: row_next_def pubOf_def)
        from Cons.IH [OF run this] Cons.prems(3) obtain tr' where
          "trace w' = trace w2 @ tr'" "list_all2 (row_next v ((tr @ [pubOf True row]) @ tr')) rs (outbox (db w'))"
          "in_order v rows tr'" by auto
        then show ?thesis using in_order_Cons [of v row rows tr', OF None] True
          by (intro exI [of _ "pubOf True row # tr'"]) (simp add: w2_def w1_def)
      qed
    qed
  qed
qed

lemma FetchPending_run:
  "FetchPending n ora w = (if o_fault ora (tick w) then (Inl SqlError, tock w)
     else (Inr (take n (pending (outbox (db w)))), tock w))"
  by (simp add: FetchPending_def queryE_def)

lemma pending_rows: "r \<in> set (pending rows) \<longleftrightarrow> r \<in> set rows \<and> Status r = Pending"
  by (auto simp: pending_def)

lemma DrainOnce_rows:
  assumes "outbox_ok (db w)" and "DrainOnce cfg ora w = (res, w')"
  shows "\<exists>tr. trace w' = trace w @ tr
    \<and> list_all2 (row_next (rc_Validate cfg) tr) (outbox (db w)) (outbox (db w'))
    \<and> in_order (rc_Validate cfg) (take (nat (rc_Batch cfg)) (pending (outbox (db w)))) tr"
proof (cases "o_fault ora (tick w)")
  case True
  then show ?thesis using assms(2)
    by (auto simp: DrainOnce_def io_defs FetchPending_run list_all2_refl intro!: exI [of _ "[]"])
next
  case False
  then have run: "drain_rows (rc_Validate cfg) (take (nat (rc_Batch cfg)) (pending (outbox (db w)))) 0 ora (tock w) = (res, w')"
    using assms(2) by (simp add: DrainOnce_def tryE_def FetchPending_run)
  have "r \<in> set (outbox (db w)) \<and> Status r = Pending"
    if "r \<in> set (take (nat (rc_Batch cfg)) (pending (outbox (db w))))" for r
    using that by (auto dest!: in_set_takeD simp: pending_rows)
  with drain_rows_safe [OF run, of "[]" "outbox (db w)"] assms(1) show ?thesis
    by (simp add: list_all2_refl outbox_ok_def)
qed

text \<open>C8: one drain of the outbox, whatever the database, the broker and the clock answer. No row
  is lost and no message is altered. A row becomes sent only if its payload is valid and a
  confirmed publish of exactly this routing key and payload is in the trace; a row becomes
  quarantined only if it is invalid, and an invalid row is never published. The confirmed
  publishes are the valid rows in \<open>(created_at, id)\<close> order, without a gap, and at most one
  publish fails, which ends the drain.\<close>

theorem DrainOnce_safe:
  assumes "outbox_ok (db w)" and "DrainOnce cfg ora w = (res, w')"
  shows "\<exists>tr. trace w' = trace w @ tr
    \<and> list_all2 (row_next (rc_Validate cfg) tr) (outbox (db w)) (outbox (db w'))
    \<and> in_order (rc_Validate cfg) (take (nat (rc_Batch cfg)) (pending (outbox (db w)))) tr"
  by (rule DrainOnce_rows [OF assms])

definition demo_row :: "string \<Rightarrow> string \<Rightarrow> bytes \<Rightarrow> OutboxRow" where
  "demo_row i at payload = \<lparr>Row_ID = i, RoutingKey = ''lap.recorded'', Payload = payload, Status = Pending,
     Attempts = 0, LastError = None, CreatedAt = at, SentAt = ''''\<rparr>"

definition demo_world :: "core_db world" where
  "demo_world = \<lparr>db = \<lparr>inbox = [], outbox = [demo_row ''b'' ''2'' ''two'', demo_row ''a'' ''1'' ''one'']\<rparr>,
     tick = 0, trace = []\<rparr>"

definition demo_calm :: env_oracle where
  "demo_calm = \<lparr>o_fault = \<lambda>_. False, o_clk = \<lambda>_. 0, o_uuid = \<lambda>_. ''u'', o_done = \<lambda>_. False, o_send = \<lambda>_. True\<rparr>"

definition demo_cfg :: RelayConfig where
  "demo_cfg = \<lparr>rc_Validate = \<lambda>_. None, rc_Interval = 1000, rc_Batch = 1\<rparr>"

theorem DrainOnce_safe_witness:
  "outbox_ok (db demo_world) \<and>
   in_order (\<lambda>_. None) [demo_row ''a'' ''1'' ''one''] (trace (snd (DrainOnce demo_cfg demo_calm demo_world)))"
proof -
  have ok: "outbox_ok (db demo_world)" by (simp add: demo_world_def outbox_ok_def demo_row_def)
  have p: "take 1 (pending (outbox (db demo_world))) = [demo_row ''a'' ''1'' ''one'']"
    by (simp add: demo_world_def pending_def demo_row_def)
  from DrainOnce_safe [OF ok prod.collapse [symmetric], of demo_cfg demo_calm]
  obtain tr where "trace (snd (DrainOnce demo_cfg demo_calm demo_world)) = trace demo_world @ tr"
    "in_order (rc_Validate demo_cfg) (take (nat (rc_Batch demo_cfg)) (pending (outbox (db demo_world)))) tr"
    by blast
  moreover have "trace demo_world = []" "rc_Validate demo_cfg = (\<lambda>_. None)" "nat (rc_Batch demo_cfg) = 1"
    by (simp_all add: demo_world_def demo_cfg_def)
  ultimately show ?thesis using ok p by simp
qed

section \<open>Draining until nothing is left\<close>

text \<open>An environment in which nothing fails.\<close>

definition calm :: "env_oracle \<Rightarrow> bool" where
  "calm ora \<longleftrightarrow> (\<forall>n. \<not> o_fault ora n \<and> o_send ora n)"

lemma filter_upd_out:
  "(\<And>r. \<not> P (f r)) \<Longrightarrow> filter P (upd_where q f rs) = filter (\<lambda>r. P r \<and> \<not> q r) rs"
  by (induction rs) auto

lemma drain_rows_calm:
  assumes "calm ora"
  shows "\<exists>w'. drain_rows v rows n ora w = (Inr (n + int (length (filter (\<lambda>r. v (Payload r) = None) rows)), None), w')
    \<and> filter (\<lambda>r. Status r = Pending) (outbox (db w'))
        = filter (\<lambda>r. Status r = Pending \<and> Row_ID r \<notin> Row_ID ` set rows) (outbox (db w))"
proof (induction rows arbitrary: n w)
  case (Cons row rows)
  have calm: "\<not> o_fault ora k" "o_send ora k" for k using assms by (auto simp: calm_def)
  show ?case
  proof (cases "v (Payload row)")
    case (Some verr)
    let ?w = "(tock w)\<lparr>db := upd_outbox (Row_ID row)
        (\<lambda>r. r\<lparr>Status := Quarantined, Attempts := Attempts r + 1, LastError := Some verr\<rparr>) (db w)\<rparr>"
    have "drain_rows v (row # rows) n ora w = drain_rows v rows n ora ?w"
      using Some calm by (simp add: io_defs MarkQuarantined_def)
    moreover obtain w' where "drain_rows v rows n ora ?w = (Inr (n + int (length (filter (\<lambda>r. v (Payload r) = None) rows)), None), w')"
      "filter (\<lambda>r. Status r = Pending) (outbox (db w'))
        = filter (\<lambda>r. Status r = Pending \<and> Row_ID r \<notin> Row_ID ` set rows) (outbox (db ?w))"
      using Cons.IH by blast
    ultimately show ?thesis using Some
      by (auto simp: upd_outbox_def filter_upd_out intro!: filter_cong)
  next
    case None
    let ?u = "(tock w)\<lparr>trace := trace w @ [Pub (RoutingKey row) (Payload row) True]\<rparr>"
    let ?w = "(tock (tock ?u))\<lparr>db := upd_outbox (Row_ID row)
        (\<lambda>r. r\<lparr>Status := Sent, SentAt := FormatWireTime (o_clk ora (tick ?u))\<rparr>) (db w)\<rparr>"
    have "drain_rows v (row # rows) n ora w = drain_rows v rows (n + 1) ora ?w"
      using None calm by (simp add: io_defs MarkSent_def)
    moreover obtain w' where "drain_rows v rows (n + 1) ora ?w = (Inr (n + 1 + int (length (filter (\<lambda>r. v (Payload r) = None) rows)), None), w')"
      "filter (\<lambda>r. Status r = Pending) (outbox (db w'))
        = filter (\<lambda>r. Status r = Pending \<and> Row_ID r \<notin> Row_ID ` set rows) (outbox (db ?w))"
      using Cons.IH by blast
    ultimately show ?thesis using None
      by (auto simp: upd_outbox_def filter_upd_out intro!: filter_cong)
  qed
qed (simp add: io_defs)

lemma drop_by_key:
  "distinct (map k xs) \<Longrightarrow> filter (\<lambda>x. k x \<notin> k ` set (take n xs)) xs = drop n xs"
proof (induction xs arbitrary: n)
  case (Cons x xs)
  show ?case
  proof (cases n)
    case (Suc m)
    have "filter (\<lambda>y. k y \<noteq> k x \<and> k y \<notin> k ` set (take m xs)) xs = filter (\<lambda>y. k y \<notin> k ` set (take m xs)) xs"
      using Cons.prems by (intro filter_cong) (auto simp: image_iff)
    then show ?thesis using Suc Cons by simp
  qed simp
qed simp

lemma DrainOnce_calm:
  assumes "calm ora" "outbox_ok (db w)"
  shows "\<exists>w' n. DrainOnce cfg ora w = (Inr (n, None), w') \<and> outbox_ok (db w')
    \<and> pending (outbox (db w')) = drop (nat (rc_Batch cfg)) (pending (outbox (db w)))"
proof -
  let ?rows = "take (nat (rc_Batch cfg)) (pending (outbox (db w)))"
  obtain w' n where run: "drain_rows (rc_Validate cfg) ?rows 0 ora (tock w) = (Inr (n, None), w')"
    and f: "filter (\<lambda>r. Status r = Pending) (outbox (db w'))
        = filter (\<lambda>r. Status r = Pending \<and> Row_ID r \<notin> Row_ID ` set ?rows) (outbox (db w))"
    using drain_rows_calm [OF assms(1), of "rc_Validate cfg" ?rows 0 "tock w"] by auto
  have drain: "DrainOnce cfg ora w = (Inr (n, None), w')"
    using run assms(1) by (simp add: DrainOnce_def tryE_def FetchPending_run calm_def)
  have "pending (outbox (db w')) = filter (\<lambda>r. Row_ID r \<notin> Row_ID ` set ?rows) (pending (outbox (db w)))"
    unfolding pending_def [of "outbox (db w')"] f by (simp add: pending_def filter_sort conj_commute)
  also have "\<dots> = drop (nat (rc_Batch cfg)) (pending (outbox (db w)))"
  proof (rule drop_by_key)
    have "distinct (map Row_ID (filter (\<lambda>r. Status r = Pending) (outbox (db w))))"
      using assms(2) by (simp add: outbox_ok_def distinct_map_filter)
    then show "distinct (map Row_ID (pending (outbox (db w))))"
      by (simp add: pending_def distinct_map)
  qed
  moreover have "outbox_ok (db w')"
  proof -
    have "keeps outbox_ok (drain_rows v rows n)" for v rows and n :: int
      by (induction rows arbitrary: n) (auto intro!: keeps_intros split: option.splits)
    from keepsD [OF this run] assms(2) show ?thesis by simp
  qed
  ultimately show ?thesis using drain by auto
qed



section \<open>The backoff\<close>

lemma nextBackoff_bounds: "base \<le> nextBackoff cur base \<and> nextBackoff cur base \<le> max base maxBackoff"
  by (simp add: nextBackoff_def Let_def)

lemma DrainOnce_total: "\<exists>n err w'. DrainOnce cfg ora w = (Inr (n, err), w')"
proof -
  have "\<exists>n err w'. drain_rows v rows k ora u = (Inr (n, err), w')" for v rows k u
    by (induction rows arbitrary: k u)
      (auto simp: io_defs MarkQuarantined_def MarkSent_def RecordFailure_def split: option.splits)
  from this [of "rc_Validate cfg" "take (nat (rc_Batch cfg)) (pending (outbox (db w)))" 0 "tock w"]
  show ?thesis by (simp add: DrainOnce_def tryE_def FetchPending_run retE_def)
qed

text \<open>The relay never stops on an error and never waits less than its interval nor more than
  the larger of the interval and five seconds: whatever the environment answers, every sequence of
  kicks and timer ticks returns, one delay per drain up to the end of the context, and every delay
  is within these bounds, doubling (with wrap-around) included.\<close>

theorem RelayRun_backoff_bounds:
  "\<exists>ds w'. RelayRun cfg backoff evs ora w = (Inr ds, w')
     \<and> length ds = length (takeWhile (\<lambda>e. e \<noteq> RelayDone) evs)
     \<and> list_all (\<lambda>d. rc_Interval cfg \<le> d \<and> d \<le> max (rc_Interval cfg) maxBackoff) ds"
proof (induction evs arbitrary: backoff w)
  case (Cons e evs)
  obtain n err w1 where d: "DrainOnce cfg ora w = (Inr (n, err), w1)" using DrainOnce_total by blast
  define b where "b = (if err \<noteq> None then nextBackoff backoff (rc_Interval cfg) else rc_Interval cfg)"
  obtain ds w' where "RelayRun cfg b evs ora w1 = (Inr ds, w')"
    "length ds = length (takeWhile (\<lambda>e. e \<noteq> RelayDone) evs)"
    "list_all (\<lambda>d. rc_Interval cfg \<le> d \<and> d \<le> max (rc_Interval cfg) maxBackoff) ds"
    using Cons.IH by blast
  moreover have "rc_Interval cfg \<le> b \<and> b \<le> max (rc_Interval cfg) maxBackoff"
    using nextBackoff_bounds by (auto simp: b_def)
  moreover have "RelayRun cfg backoff (e # evs) ora w = bindE (RelayRun cfg b evs) (\<lambda>ds. retE (b # ds)) ora w1"
    if "e \<noteq> RelayDone"
    using that d unfolding b_def by (simp only: RelayRun.simps Let_def bindE_def if_False) simp
  ultimately show ?case by (cases "e = RelayDone") (auto simp: bindE_def retE_def)
qed (simp add: retE_def)

text \<open>C11: the producer seam is atomic. When \<open>NewEnqueuer\<close>'s function returns an error the database
  is untouched and the relay is not signalled; otherwise exactly one pending row was committed,
  before the relay was signalled, holding the marshalled envelope, which the validator accepted.\<close>

theorem NewEnqueuer_atomic:
  "case NewEnqueuer cd v env ora w of
     (Inl e, w') \<Rightarrow> db w' = db w \<and> trace w' = trace w
   | (Inr u, w') \<Rightarrow> trace w' = trace w @ [Committed, Kicked]
       \<and> (\<exists>payload. Marshal cd env = Some payload
            \<and> (case v of None \<Rightarrow> True | Some f \<Rightarrow> f payload = None)
            \<and> ID env \<notin> Row_ID ` set (outbox (db w))
            \<and> db w' = (db w)\<lparr>outbox := outbox (db w) @ [\<lparr>Row_ID = ID env, RoutingKey = Type env, Payload = payload,
                 Status = Pending, Attempts = 0, LastError = None, CreatedAt = OccurredAt env, SentAt = ''''\<rparr>]\<rparr>)"
proof -
  obtain r u where tx: "WithinTx (EnqueueEnvelope cd v env) ora w = (r, u)" by fastforce
  note q = WithinTx_quiet [OF quiet_EnqueueEnvelope tx]
  show ?thesis
  proof (cases r)
    case (Inl e)
    then show ?thesis using tx q by (simp add: NewEnqueuer_def bindE_def)
  next
    case (Inr x)
    then obtain u' where "EnqueueEnvelope cd v env ora (tock w) = (Inr x, u')" "db u = db u'"
      "trace u = trace w @ [Committed]" using q by auto
    then show ?thesis using tx Inr
      by (auto simp: NewEnqueuer_def bindE_def emitE_def dest!: EnqueueEnvelope_Inr split: option.splits)
  qed
qed

section \<open>What a relay publishes\<close>

text \<open>Whatever fails, a relay publishes only what the outbox holds, under its key.\<close>

definition published_of :: "OutboxRow list \<Rightarrow> action list \<Rightarrow> bool" where
  "published_of rows tr \<longleftrightarrow> (\<forall>rk p ok. Pub rk p ok \<in> set tr \<longrightarrow> (\<exists>r\<in>set rows. RoutingKey r = rk \<and> Payload r = p))"

lemma in_order_published: "in_order v rows tr \<Longrightarrow> set rows \<subseteq> set all \<Longrightarrow> published_of all tr"
proof -
  assume "in_order v rows tr" "set rows \<subseteq> set all"
  then obtain sent rest where o: "filter (\<lambda>r. v (Payload r) = None) rows = sent @ rest"
    "tr = map (pubOf True) sent \<or> (rest \<noteq> [] \<and> tr = map (pubOf True) sent @ [pubOf False (hd rest)])"
    unfolding in_order_def by blast
  have "set (sent @ rest) \<subseteq> set rows" unfolding o(1) [symmetric] by auto
  then show ?thesis using o(2) \<open>set rows \<subseteq> set all\<close> hd_in_set [of rest] unfolding published_of_def pubOf_def by fastforce
qed

lemma published_append: "published_of rows (a @ b) \<longleftrightarrow> published_of rows a \<and> published_of rows b"
  unfolding published_of_def set_append by blast

lemma same_messages:
  assumes "list_all2 (row_next v tr) rows rows'"
  shows "published_of rows' tr' \<Longrightarrow> published_of rows tr'" and "map Row_ID rows' = map Row_ID rows"
proof -
  have "\<exists>r\<in>set rows. RoutingKey r = RoutingKey r' \<and> Payload r = Payload r'" if "r' \<in> set rows'" for r'
    using assms that by (induction rule: list_all2_induct) (auto simp: row_next_def)
  then show "published_of rows' tr' \<Longrightarrow> published_of rows tr'" unfolding published_of_def by metis
  show "map Row_ID rows' = map Row_ID rows"
    using assms by (induction rule: list_all2_induct) (auto simp: row_next_def)
qed

lemma RelayRun_published:
  "outbox_ok (db w) \<Longrightarrow> RelayRun cfg b evs ora w = (x, w') \<Longrightarrow> \<exists>tr. trace w' = trace w @ tr \<and> published_of (outbox (db w)) tr"
proof (induction evs arbitrary: b w x)
  case Nil
  then show ?case by (auto simp: retE_def published_of_def)
next
  case (Cons ev evs)
  show ?case
  proof (cases "ev = RelayDone")
    case True
    then show ?thesis using Cons.prems by (auto simp: retE_def published_of_def)
  next
    case False
    obtain n err u where u: "DrainOnce cfg ora w = (Inr (n, err), u)" using DrainOnce_total by blast
    from DrainOnce_rows [OF Cons.prems(1) u] obtain tr1 where tr1: "trace u = trace w @ tr1"
      "list_all2 (row_next (rc_Validate cfg) tr1) (outbox (db w)) (outbox (db u))"
      "in_order (rc_Validate cfg) (take (nat (rc_Batch cfg)) (pending (outbox (db w)))) tr1" by blast
    have "set (take (nat (rc_Batch cfg)) (pending (outbox (db w)))) \<subseteq> set (outbox (db w))"
      by (auto dest!: in_set_takeD simp: pending_rows)
    with tr1(3) have p1: "published_of (outbox (db w)) tr1" by (rule in_order_published)
    have "outbox_ok (db u)" using same_messages(2) [OF tr1(2)] Cons.prems(1) by (simp add: outbox_ok_def)
    moreover obtain y where "RelayRun cfg (if err \<noteq> None then nextBackoff b (rc_Interval cfg) else rc_Interval cfg) evs ora u = (y, w')"
      using Cons.prems(2) u False by (auto simp: bindE_def Let_def retE_def split: prod.splits sum.splits)
    ultimately obtain tr2 where "trace w' = trace u @ tr2" "published_of (outbox (db u)) tr2" using Cons.IH by blast
    with p1 tr1(1) same_messages(1) [OF tr1(2)] show ?thesis
      by (intro exI [of _ "tr1 @ tr2"]) (simp add: published_append)
  qed
qed

lemma published_rows:
  assumes "outbox_ok (db w)" "RelayRun cfg b evs ora w = (x, w')" "Pub rk p ok \<in> set (drop (length (trace w)) (trace w'))"
  shows "\<exists>r\<in>set (outbox (db w)). Payload r = p"
  using RelayRun_published [OF assms(1,2)] assms(3) unfolding published_of_def by (metis append_eq_conv_conj)

lemma RelayKick_publishes:
  assumes "calm ora" "outbox_ok (db w)" "length (outbox (db w)) \<le> nat (rc_Batch cfg)" "rc_Validate cfg = (\<lambda>_. None)"
    and run: "RelayRun cfg b [RelayKick] ora w = (x, w')" and r: "r \<in> set (outbox (db w))" "Status r = Pending"
  shows "\<exists>ok. Pub (RoutingKey r) (Payload r) ok \<in> set (drop (length (trace w)) (trace w'))"
proof -
  from DrainOnce_calm [OF assms(1,2), of cfg] obtain u n where u: "DrainOnce cfg ora w = (Inr (n, None), u)"
    "pending (outbox (db u)) = drop (nat (rc_Batch cfg)) (pending (outbox (db w)))" by blast
  then have "w' = u" using run by (simp add: bindE_def Let_def retE_def)
  have "length (pending (outbox (db w))) \<le> nat (rc_Batch cfg)" using assms(3) length_filter_le [of _ "outbox (db w)"] unfolding pending_def length_sort by (meson le_trans)
  then have "pending (outbox (db u)) = []" using u(2) by simp
  then have none: "\<forall>r\<in>set (outbox (db u)). Status r \<noteq> Pending" by (auto simp: pending_def filter_empty_conv dest: arg_cong [where f = set])
  from DrainOnce_rows [OF assms(2) u(1)] obtain tr where tr: "trace u = trace w @ tr" "list_all2 (row_next (rc_Validate cfg) tr) (outbox (db w)) (outbox (db u))" by blast
  from list_all2_in_left [OF tr(2) r(1)] obtain r' where "r' \<in> set (outbox (db u))" "row_next (rc_Validate cfg) tr r r'" by blast
  then show ?thesis using none r(2) tr(1) \<open>w' = u\<close> assms(4) by (auto simp: row_next_def)
qed

end
