(* ===== verification/Erasure_Lib.thy ===== *)
theory Erasure_Lib
  imports Consumer_Spine Outbox_Relay
begin

text \<open>
  The right-to-be-forgotten mechanics the services share (libs/go-pitwall/erasure/erasure.go). A
  service supplies the deletion of its slice, its tombstone writer and its ack enqueuer; the locale
  \<open>erasable\<close> states what the library relies on from them and shows what \<open>Handle\<close> then
  guarantees.
\<close>

section \<open>The handler\<close>

definition ModeDeleted :: string where "ModeDeleted = ''deleted''"
definition ModeAnonymized :: string where "ModeAnonymized = ''anonymized''"

record ErasureResult =
  res_RequestID :: string
  res_MasterID :: string
  res_Duplicate :: bool
  res_Ack :: "Envelope option"      \<comment> \<open>\<open>None\<close>: the zero value\<close>

record 'd ErasureHandler =
  eh_Service :: string
  eh_Mode :: string
  eh_Delete :: "string \<Rightarrow> ('d core_db_scheme, unit) io"
  eh_Tombstone :: "string \<Rightarrow> ('d core_db_scheme, unit) io"
  eh_Enqueue :: "Envelope \<Rightarrow> ('d core_db_scheme, unit) io"

definition erasure_ack :: "'d ErasureHandler \<Rightarrow> string \<Rightarrow> string \<Rightarrow> IncomingEnvelope \<Rightarrow> requestData \<Rightarrow> Envelope" where
  "erasure_ack h eid at env d =
     NewCausedEnvelope eid ErasedType (eh_Service h) (CorrelationID env) (ID env) at
       (Erased \<lparr>er_RequestID = rq_RequestID d, er_MasterID = rq_MasterID d, er_Service = eh_Service h,
                er_Mode = (if eh_Mode h = '''' then ModeDeleted else eh_Mode h), er_At = at\<rparr>)"

text \<open>The transaction of \<open>Handle\<close>; the result says whether the envelope was a duplicate.\<close>

definition erasure_tx ::
  "'d ErasureHandler \<Rightarrow> IncomingEnvelope \<Rightarrow> string \<Rightarrow> Envelope \<Rightarrow> string \<Rightarrow> ('d core_db_scheme, bool) io" where
  "erasure_tx h env masterID ackEnv at =
     bindE (InboxHasSeen (ID env)) (\<lambda>seen.
       if seen then retE True
       else bindE (eh_Delete h masterID) (\<lambda>_.
            bindE (eh_Tombstone h masterID) (\<lambda>_.
            bindE (eh_Enqueue h ackEnv) (\<lambda>_.
            bindE (InboxMarkSeen (ID env) (Type env) at) (\<lambda>_. retE False)))))"

definition erasure_Handle ::
  "json_codec \<Rightarrow> 'd ErasureHandler \<Rightarrow> IncomingEnvelope \<Rightarrow> ('d core_db_scheme, ErasureResult) io" where
  "erasure_Handle cd h env =
     (case UnmarshalRequest cd (Data env) of
        None \<Rightarrow> failE DecodeError
      | Some d \<Rightarrow>
          if rq_MasterID d = '''' then failE EmptyMasterId
          else bindE nowE (\<lambda>now. bindE newIdE (\<lambda>eid.
            let at = FormatWireTime now; ackEnv = erasure_ack h eid at env d
            in bindE (WithinTx (erasure_tx h env (rq_MasterID d) ackEnv at))
               (\<lambda>duplicate. retE
                 (if duplicate then \<lparr>res_RequestID = rq_RequestID d, res_MasterID = rq_MasterID d,
                    res_Duplicate = True, res_Ack = None\<rparr>
                  else \<lparr>res_RequestID = rq_RequestID d, res_MasterID = rq_MasterID d,
                    res_Duplicate = False, res_Ack = Some ackEnv\<rparr>)))))"

text \<open>\<open>GuardedCreate\<close>: the result is whether the creation was blocked.\<close>

definition GuardedCreate ::
  "(string \<Rightarrow> ('d, bool) io) \<Rightarrow> string \<Rightarrow> ('d, unit) io \<Rightarrow> ('d, bool) io" where
  "GuardedCreate check masterID create =
     bindE (check masterID) (\<lambda>tombstoned.
       if tombstoned then retE True else bindE create (\<lambda>_. retE False))"

section \<open>What the library relies on, and what it guarantees\<close>

lemma erasure_Handle_fresh:
  assumes "erasure_Handle cd h env ora w = (Inr res, w')" "\<not> res_Duplicate res"
  obtains a at where "WithinTx (erasure_tx h env (res_MasterID res) a at) ora (tock (tock w)) = (Inr False, w')"
proof -
  from assms obtain d where d: "UnmarshalRequest cd (Data env) = Some d" "rq_MasterID d \<noteq> ''''"
    by (auto simp: erasure_Handle_def failE_def split: option.splits if_splits)
  show ?thesis
    using assms d that [of "erasure_ack h (o_uuid ora (Suc (tick w))) (FormatWireTime (o_clk ora (tick w))) env d"
        "FormatWireTime (o_clk ora (tick w))"]
    by (auto simp: erasure_Handle_def bindE_def nowE_def newIdE_def retE_def Let_def split: prod.splits sum.splits if_splits)
qed

locale erasable =
  fixes h :: "'d ErasureHandler"
    and present :: "'d core_db_scheme \<Rightarrow> string \<Rightarrow> bool"
    and tombstoned :: "'d core_db_scheme \<Rightarrow> string \<Rightarrow> bool"
  assumes delete_quiet: "quiet (eh_Delete h m)"
    and tombstone_quiet: "quiet (eh_Tombstone h m)"
    and enqueue_quiet: "quiet (eh_Enqueue h a)"
    and delete_gone: "eh_Delete h m ora w = (Inr u, w') \<Longrightarrow> \<not> present (db w') m"
    and tombstone_set: "eh_Tombstone h m ora w = (Inr u, w') \<Longrightarrow>
          tombstoned (db w') m \<and> (present (db w') m \<longrightarrow> present (db w) m)"
    and enqueue_row: "eh_Enqueue h a ora w = (Inr u, w') \<Longrightarrow>
          (\<exists>row. Row_ID row = ID a \<and> Status row = Pending \<and> RoutingKey row = Type a
             \<and> db w' = (db w)\<lparr>outbox := outbox (db w) @ [row]\<rparr>)"
    and frame: "present (d\<lparr>inbox := x\<rparr>) m = present d m" "tombstoned (d\<lparr>inbox := x\<rparr>) m = tombstoned d m"
               "present (d\<lparr>outbox := y\<rparr>) m = present d m" "tombstoned (d\<lparr>outbox := y\<rparr>) m = tombstoned d m"
begin

lemma erasure_tx_quiet: "quiet (erasure_tx h env m a at)"
  unfolding erasure_tx_def by (intro quiet_intros delete_quiet tombstone_quiet enqueue_quiet)

lemma Handle_Inl: "erasure_Handle cd h env ora w = (Inl e, w') \<Longrightarrow> db w' = db w \<and> trace w' = trace w"
  by (auto simp: erasure_Handle_def failE_def bindE_def nowE_def newIdE_def retE_def Let_def
      split: option.splits if_splits prod.splits sum.splits dest!: WithinTx_quiet [OF erasure_tx_quiet])

lemma Handle_Inr:
  assumes "erasure_Handle cd h env ora w = (Inr res, w')"
  shows "trace w' = trace w @ [Committed]"
    and "res_Duplicate res \<Longrightarrow> seen (db w) (ID env) \<and> db w' = db w"
    and "\<not> res_Duplicate res \<Longrightarrow> \<not> present (db w') (res_MasterID res) \<and> tombstoned (db w') (res_MasterID res)
         \<and> seen (db w') (ID env)
         \<and> (\<exists>a row. res_Ack res = Some a \<and> Type a = ErasedType \<and> CausationID a = Some (ID env)
              \<and> CorrelationID a = CorrelationID env \<and> row \<in> set (outbox (db w')) \<and> Row_ID row = ID a
              \<and> Status row = Pending \<and> RoutingKey row = ErasedType)"
proof -
  let ?tx = "erasure_tx h env"
  from assms obtain d where d: "UnmarshalRequest cd (Data env) = Some d" "rq_MasterID d \<noteq> ''''"
    by (auto simp: erasure_Handle_def failE_def split: option.splits if_splits)
  define at where "at = FormatWireTime (o_clk ora (tick w))"
  define a where "a = erasure_ack h (o_uuid ora (Suc (tick w))) at env d"
  from assms d obtain dup where dup: "WithinTx (?tx (rq_MasterID d) a at) ora (tock (tock w)) = (Inr dup, w')"
    and res: "res = (if dup then \<lparr>res_RequestID = rq_RequestID d, res_MasterID = rq_MasterID d, res_Duplicate = True, res_Ack = None\<rparr>
         else \<lparr>res_RequestID = rq_RequestID d, res_MasterID = rq_MasterID d, res_Duplicate = False, res_Ack = Some a\<rparr>)"
    by (auto simp: erasure_Handle_def bindE_def nowE_def newIdE_def retE_def Let_def a_def at_def
        split: prod.splits sum.splits)
  show "trace w' = trace w @ [Committed]" using WithinTx_quiet [OF erasure_tx_quiet dup] by simp
  from WithinTx_Inr [OF dup] obtain u where u: "?tx (rq_MasterID d) a at ora (tock (tock (tock w))) = (Inr dup, u)" "db w' = db u"
    by blast
  show "seen (db w) (ID env) \<and> db w' = db w" if "res_Duplicate res"
    using u that res by (auto simp: erasure_tx_def bindE_eq_Inr retE_def split: if_splits dest!: InboxHasSeen_Inr)
  show "\<not> present (db w') (res_MasterID res) \<and> tombstoned (db w') (res_MasterID res) \<and> seen (db w') (ID env)
         \<and> (\<exists>a row. res_Ack res = Some a \<and> Type a = ErasedType \<and> CausationID a = Some (ID env)
              \<and> CorrelationID a = CorrelationID env \<and> row \<in> set (outbox (db w')) \<and> Row_ID row = ID a
              \<and> Status row = Pending \<and> RoutingKey row = ErasedType)" if "\<not> res_Duplicate res"
  proof -
    have "\<not> dup" using that res by auto
    with u(1) obtain w1 w2 w3 w4 where s: "eh_Delete h (rq_MasterID d) ora w1 = (Inr (), w2)"
      "eh_Tombstone h (rq_MasterID d) ora w2 = (Inr (), w3)" "eh_Enqueue h a ora w3 = (Inr (), w4)"
      "InboxMarkSeen (ID env) (Type env) at ora w4 = (Inr (), u)"
      by (auto simp: erasure_tx_def bindE_eq_Inr retE_def split: if_splits)
    from enqueue_row [OF s(3)] obtain row where row: "Row_ID row = ID a" "Status row = Pending" "RoutingKey row = Type a"
      "db w4 = (db w3)\<lparr>outbox := outbox (db w3) @ [row]\<rparr>" by blast
    have ty: "Type a = ErasedType" "CausationID a = Some (ID env)" "CorrelationID a = CorrelationID env"
      by (simp_all add: a_def erasure_ack_def NewCausedEnvelope_def)
    have m: "db u = (db w4)\<lparr>inbox := inbox (db w4) @ [\<lparr>in_id = ID env, in_type = Type env, in_processed_at = at\<rparr>]\<rparr>"
      using InboxMarkSeen_Inr [OF s(4)] by simp
    show ?thesis
      using delete_gone [OF s(1)] tombstone_set [OF s(2)] row ty u(2) res \<open>\<not> dup\<close>
      by (auto simp: m frame seen_def intro!: exI [of _ row])
  qed
qed

end

text \<open>The tombstone guard: a tombstoned id is never created again through it, and the database is
  untouched; otherwise the creation runs.\<close>

lemma GuardedCreate_blocks:
  assumes "quiet (check m)" "\<And>ora w. db (snd (check m ora w)) = db w" "check m ora w = (Inr True, w1)"
  shows "GuardedCreate check m create ora w = (Inr True, w1) \<and> db w1 = db w"
  using assms by (auto simp: GuardedCreate_def bindE_def retE_def) (metis snd_conv)

end
