(* ===== verification/Identity_Store.thy ===== *)
theory Identity_Store
  imports Erasure_Lib
begin

text \<open>
  Identity's system of record: the natural key's normalization and the resolve-or-mint rule
  (services/identity/internal/domain), its tables and stores (internal/persistence), the transaction
  of one lookup (\<open>TxResolver.Resolve\<close>, internal/consumer/resolver.go) and the erasure callbacks that
  cmd/identity/main.go wires. SHA-256 and the lower-casing of non-ASCII text are parameters.
\<close>

section \<open>services/identity/internal/domain\<close>

definition is_ascii :: "string \<Rightarrow> bool" where
  "is_ascii s \<longleftrightarrow> list_all (\<lambda>c. (of_char c :: nat) < 128) s"

definition ascii_lower :: "char \<Rightarrow> char" where
  "ascii_lower c = (let n = of_char c :: nat in if 65 \<le> n \<and> n \<le> 90 then char_of (n + 32) else c)"

text \<open>\<open>strings.ToLower\<close>: on ASCII text byte by byte, otherwise by the Unicode tables (a parameter).\<close>

definition ToLower :: "(string \<Rightarrow> string) \<Rightarrow> string \<Rightarrow> string" where
  "ToLower unicodeLower s = (if is_ascii s then map ascii_lower s else unicodeLower s)"

definition NormalizeEmail :: "(string \<Rightarrow> string) \<Rightarrow> string \<Rightarrow> string" where
  "NormalizeEmail unicodeLower email = ToLower unicodeLower (TrimSpace email)"

text \<open>The pure resolve decision; the generator is the candidate it would return.\<close>

definition Resolve :: "string \<Rightarrow> bool \<Rightarrow> string \<Rightarrow> string \<times> bool" where
  "Resolve existing found gen = (if found \<and> existing \<noteq> '''' then (existing, False) else (gen, True))"

record LookupRequest =
  lr_RequestID :: string
  lr_Email :: string
  lr_EnvelopeID :: string
  lr_CorrelationID :: string

definition BuildResolved :: "string \<Rightarrow> string \<Rightarrow> string \<Rightarrow> string \<Rightarrow> LookupRequest \<Rightarrow> string \<Rightarrow> Envelope" where
  "BuildResolved eid routingKey source occurredAt req masterID =
     NewCausedEnvelope eid routingKey source (lr_CorrelationID req) (lr_EnvelopeID req) occurredAt
       (Resolved \<lparr>rs_RequestID = lr_RequestID req, rs_Email = lr_Email req, rs_MasterID = masterID\<rparr>)"

section \<open>The tables\<close>

text \<open>The column \<open>status\<close> of \<open>identities\<close> is left out: its check constraint admits \<open>active\<close> only, so
  no query can depend on it. The autoincrement \<open>id\<close> of \<open>held_lookups\<close> is the position in the list.\<close>

record IdentityRow =
  id_master :: string
  id_email :: string
  id_created_at :: string
  id_updated_at :: string

record HeldLookup =
  hl_request_id :: string
  hl_email_hash :: string
  hl_reason :: string
  hl_occurred_at :: string
  hl_recorded_at :: string

record identity_db = core_db +
  identities :: "IdentityRow list"
  tombstones :: "(string \<times> string) list"       \<comment> \<open>identity_tombstones (master_id, tombstoned_at)\<close>
  suppressions :: "(string \<times> string) list"     \<comment> \<open>email_suppressions (email_hash, tombstoned_at)\<close>
  held_lookups :: "HeldLookup list"

section \<open>services/identity/internal/persistence\<close>

text \<open>\<open>INSERT \<dots> ON CONFLICT(email) DO NOTHING\<close>: a conflict on the primary key is an error.\<close>

definition insert_identity :: "string \<Rightarrow> string \<Rightarrow> string \<Rightarrow> (identity_db, nat) io" where
  "insert_identity candidateID email now = execE (\<lambda>d.
     if email \<in> id_email ` set (identities d) then Inr (d, 0)
     else if candidateID \<in> id_master ` set (identities d) then Inl Constraint
     else Inr (d\<lparr>identities := identities d @ [\<lparr>id_master = candidateID, id_email = email,
                 id_created_at = now, id_updated_at = now\<rparr>]\<rparr>, 1))"

definition master_of :: "identity_db \<Rightarrow> string \<Rightarrow> string option" where
  "master_of d email = map_option id_master (find (\<lambda>r. id_email r = email) (identities d))"

definition ResolveOrMint :: "string \<Rightarrow> string \<Rightarrow> string \<Rightarrow> (identity_db, string \<times> bool) io" where
  "ResolveOrMint email candidateID now =
     bindE (insert_identity candidateID email now) (\<lambda>affected.
     bindE (queryE (\<lambda>d. master_of d email)) (\<lambda>row. case row of
        None \<Rightarrow> failE NoRows
      | Some masterID \<Rightarrow> retE (masterID, affected = 1)))"

definition LookupEmail :: "string \<Rightarrow> (identity_db, string option) io" where
  "LookupEmail masterID = queryE (\<lambda>d. map_option id_email (find (\<lambda>r. id_master r = masterID) (identities d)))"

definition or_ignore :: "string \<Rightarrow> string \<Rightarrow> (string \<times> string) list \<Rightarrow> (string \<times> string) list" where
  "or_ignore k v rows = (if k \<in> fst ` set rows then rows else rows @ [(k, v)])"

definition DeleteSlice :: "string \<Rightarrow> string \<Rightarrow> string \<Rightarrow> (identity_db, unit) io" where
  "DeleteSlice masterID emailHash at =
     bindE (execE (\<lambda>d. Inr (d\<lparr>suppressions := or_ignore emailHash at (suppressions d)\<rparr>, ()))) (\<lambda>_.
     execE (\<lambda>d. Inr (d\<lparr>identities := filter (\<lambda>r. id_master r \<noteq> masterID) (identities d)\<rparr>, ())))"

definition WriteTombstone :: "string \<Rightarrow> string \<Rightarrow> (identity_db, unit) io" where
  "WriteTombstone masterID at = execE (\<lambda>d. Inr (d\<lparr>tombstones := or_ignore masterID at (tombstones d)\<rparr>, ()))"

definition suppressed :: "identity_db \<Rightarrow> string \<Rightarrow> bool" where
  "suppressed d emailHash \<longleftrightarrow> emailHash \<in> fst ` set (suppressions d)"

definition IsEmailSuppressed :: "string \<Rightarrow> (identity_db, bool) io" where
  "IsEmailSuppressed emailHash = queryE (\<lambda>d. suppressed d emailHash)"

definition Record :: "string \<Rightarrow> string \<Rightarrow> string \<Rightarrow> string \<Rightarrow> string \<Rightarrow> (identity_db, unit) io" where
  "Record requestID emailHash reason occurredAt recordedAt = execE (\<lambda>d.
     Inr (d\<lparr>held_lookups := held_lookups d @ [\<lparr>hl_request_id = requestID, hl_email_hash = emailHash,
            hl_reason = reason, hl_occurred_at = occurredAt, hl_recorded_at = recordedAt\<rparr>]\<rparr>, ()))"

section \<open>services/identity/internal/consumer/resolver.go\<close>

record ResolveResult =
  rr_MasterID :: string
  rr_Minted :: bool
  rr_Duplicate :: bool
  rr_Held :: bool

record TxResolver =
  tr_ValidateOut :: "validator option"
  tr_Source :: string
  tr_ResolvedKey :: string
  tr_HashEmail :: "string \<Rightarrow> string"        \<comment> \<open>SHA-256 in hex\<close>
  tr_UnicodeLower :: "string \<Rightarrow> string"

text \<open>The body of the transaction behind the inbox check and before the inbox mark.\<close>

definition resolve_body ::
  "json_codec \<Rightarrow> TxResolver \<Rightarrow> string \<Rightarrow> IncomingEnvelope \<Rightarrow> LookupRequestedData \<Rightarrow> (identity_db, ResolveResult) io" where
  "resolve_body cd r now env data =
     (let emailHash = tr_HashEmail r (NormalizeEmail (tr_UnicodeLower r) (lk_Email data))
      in bindE (IsEmailSuppressed emailHash) (\<lambda>suppressed.
           if suppressed then
             bindE (Record (lk_RequestID data) emailHash ''email suppressed by prior erasure'' (OccurredAt env) now) (\<lambda>_.
             retE \<lparr>rr_MasterID = '''', rr_Minted = False, rr_Duplicate = False, rr_Held = True\<rparr>)
           else
             bindE newIdE (\<lambda>candidate.
             bindE (ResolveOrMint (lk_Email data) candidate now) (\<lambda>(masterID, minted).
             bindE newIdE (\<lambda>eid.
             bindE (EnqueueEnvelope cd (tr_ValidateOut r)
                      (BuildResolved eid (tr_ResolvedKey r) (tr_Source r) now
                         \<lparr>lr_RequestID = lk_RequestID data, lr_Email = lk_Email data, lr_EnvelopeID = ID env,
                          lr_CorrelationID = CorrelationID env\<rparr> masterID)) (\<lambda>_.
             retE \<lparr>rr_MasterID = masterID, rr_Minted = minted, rr_Duplicate = False, rr_Held = False\<rparr>))))))"

definition TxResolver_Resolve ::
  "json_codec \<Rightarrow> TxResolver \<Rightarrow> IncomingEnvelope \<Rightarrow> LookupRequestedData \<Rightarrow> (identity_db, ResolveResult) io" where
  "TxResolver_Resolve cd r env data =
     bindE nowE (\<lambda>t. let now = FormatWireTime t in WithinTx (
       bindE (InboxHasSeen (ID env)) (\<lambda>seen.
         if seen then retE \<lparr>rr_MasterID = '''', rr_Minted = False, rr_Duplicate = True, rr_Held = False\<rparr>
         else bindE (resolve_body cd r now env data) (\<lambda>res.
              bindE (InboxMarkSeen (ID env) (Type env) now) (\<lambda>_. retE res)))))"

section \<open>The erasure callbacks of services/identity/cmd/identity/main.go\<close>

definition identity_Delete :: "(string \<Rightarrow> string) \<Rightarrow> (string \<Rightarrow> string) \<Rightarrow> string \<Rightarrow> (identity_db, unit) io" where
  "identity_Delete hashEmail unicodeLower masterID =
     bindE (LookupEmail masterID) (\<lambda>found. case found of
        None \<Rightarrow> retE ()
      | Some email \<Rightarrow> bindE nowE (\<lambda>now.
          DeleteSlice masterID (hashEmail (NormalizeEmail unicodeLower email)) (FormatWireTime now)))"

definition identity_Tombstone :: "string \<Rightarrow> (identity_db, unit) io" where
  "identity_Tombstone masterID = bindE nowE (\<lambda>now. WriteTombstone masterID (FormatWireTime now))"

definition identity_eraser ::
  "json_codec \<Rightarrow> TxResolver \<Rightarrow> unit identity_db_ext ErasureHandler" where
  "identity_eraser cd r =
     \<lparr>eh_Service = tr_Source r, eh_Mode = ModeDeleted,
      eh_Delete = identity_Delete (tr_HashEmail r) (tr_UnicodeLower r),
      eh_Tombstone = identity_Tombstone,
      eh_Enqueue = EnqueueEnvelope cd (tr_ValidateOut r)\<rparr>"

section \<open>What one lookup does\<close>

lemma master_of_None: "master_of d e = None \<longleftrightarrow> e \<notin> id_email ` set (identities d)"
  by (auto simp: master_of_def find_None_iff)

lemma master_of_snoc:
  "master_of d e = None \<Longrightarrow> master_of (d\<lparr>identities := identities d @ [r]\<rparr>) e' =
     (if e' = e \<and> id_email r = e then Some (id_master r) else
      case master_of d e' of Some m \<Rightarrow> Some m | None \<Rightarrow> if id_email r = e' then Some (id_master r) else None)"
proof -
  have "find p (xs @ [x]) = (case find p xs of None \<Rightarrow> if p x then Some x else None | Some y \<Rightarrow> Some y)"
    for p :: "IdentityRow \<Rightarrow> bool" and xs x
    by (induction xs) auto
  then show "master_of d e = None \<Longrightarrow> ?thesis" by (auto simp: master_of_def split: option.splits)
qed

lemma ResolveOrMint_Inr:
  assumes "ResolveOrMint e c now ora w = (Inr (m, minted), w')"
  shows "(minted \<and> m = c \<and> master_of (db w) e = None \<and> c \<notin> id_master ` set (identities (db w))
       \<and> db w' = (db w)\<lparr>identities := identities (db w) @ [\<lparr>id_master = c, id_email = e, id_created_at = now, id_updated_at = now\<rparr>]\<rparr>)
     \<or> (\<not> minted \<and> master_of (db w) e = Some m \<and> db w' = db w)"
proof -
  from assms obtain n w1 where n: "insert_identity c e now ora w = (Inr n, w1)" "master_of (db w1) e = Some m"
    "db w' = db w1" "minted = (n = 1)"
    by (auto simp: ResolveOrMint_def bindE_eq_Inr queryE_def failE_def retE_def split: if_splits option.splits)
  then show ?thesis
    by (auto simp: insert_identity_def execE_def master_of_None master_of_snoc split: if_splits option.splits)
qed

lemma Record_Inr: "Record q eh reason o1 o2 ora w = (Inr u, w') \<Longrightarrow>
   db w' = (db w)\<lparr>held_lookups := held_lookups (db w) @ [\<lparr>hl_request_id = q, hl_email_hash = eh, hl_reason = reason,
     hl_occurred_at = o1, hl_recorded_at = o2\<rparr>]\<rparr>"
  by (auto simp: Record_def execE_def split: if_splits)

lemma IsEmailSuppressed_Inr: "IsEmailSuppressed eh ora w = (Inr s, w') \<Longrightarrow> s = suppressed (db w) eh \<and> db w' = db w"
  by (auto simp: IsEmailSuppressed_def queryE_def split: if_splits)

text \<open>The two ways a lookup's transaction can succeed on a new envelope.\<close>

lemma resolve_body_cases:
  assumes "resolve_body cd r now env data ora w = (Inr res, w')"
  obtains (held) "suppressed (db w) (tr_HashEmail r (NormalizeEmail (tr_UnicodeLower r) (lk_Email data)))"
      "res = \<lparr>rr_MasterID = '''', rr_Minted = False, rr_Duplicate = False, rr_Held = True\<rparr>"
      "db w' = (db w)\<lparr>held_lookups := held_lookups (db w) @ [\<lparr>hl_request_id = lk_RequestID data,
         hl_email_hash = tr_HashEmail r (NormalizeEmail (tr_UnicodeLower r) (lk_Email data)),
         hl_reason = ''email suppressed by prior erasure'', hl_occurred_at = OccurredAt env, hl_recorded_at = now\<rparr>]\<rparr>"
  | (answered) m minted d1 eid payload where "\<not> suppressed (db w) (tr_HashEmail r (NormalizeEmail (tr_UnicodeLower r) (lk_Email data)))"
      "res = \<lparr>rr_MasterID = m, rr_Minted = minted, rr_Duplicate = False, rr_Held = False\<rparr>"
      "(minted \<and> master_of (db w) (lk_Email data) = None \<and> m \<notin> id_master ` set (identities (db w))
         \<and> d1 = (db w)\<lparr>identities := identities (db w) @ [\<lparr>id_master = m, id_email = lk_Email data, id_created_at = now, id_updated_at = now\<rparr>]\<rparr>)
       \<or> (\<not> minted \<and> master_of (db w) (lk_Email data) = Some m \<and> d1 = db w)"
      "eid \<notin> Row_ID ` set (outbox (db w))"
      "Marshal cd (BuildResolved eid (tr_ResolvedKey r) (tr_Source r) now
           \<lparr>lr_RequestID = lk_RequestID data, lr_Email = lk_Email data, lr_EnvelopeID = ID env, lr_CorrelationID = CorrelationID env\<rparr> m) = Some payload"
      "db w' = d1\<lparr>outbox := outbox (db w) @ [\<lparr>Row_ID = eid, RoutingKey = tr_ResolvedKey r, Payload = payload, Status = Pending,
           Attempts = 0, LastError = None, CreatedAt = now, SentAt = ''''\<rparr>]\<rparr>"
proof (cases "suppressed (db w) (tr_HashEmail r (NormalizeEmail (tr_UnicodeLower r) (lk_Email data)))")
  case True
  then show ?thesis using assms held
    by (auto simp: resolve_body_def Let_def bindE_eq_Inr retE_def dest!: IsEmailSuppressed_Inr Record_Inr)
next
  case False
  from assms False obtain u c m minted v eid where s:
    "db u = db w" "ResolveOrMint (lk_Email data) c now ora (tock u) = (Inr (m, minted), v)"
    "EnqueueEnvelope cd (tr_ValidateOut r) (BuildResolved eid (tr_ResolvedKey r) (tr_Source r) now
           \<lparr>lr_RequestID = lk_RequestID data, lr_Email = lk_Email data, lr_EnvelopeID = ID env, lr_CorrelationID = CorrelationID env\<rparr> m)
        ora (tock v) = (Inr (), w')"
    "res = \<lparr>rr_MasterID = m, rr_Minted = minted, rr_Duplicate = False, rr_Held = False\<rparr>"
    by (auto simp: resolve_body_def Let_def bindE_eq_Inr retE_def newIdE_def dest!: IsEmailSuppressed_Inr)
  have ob: "outbox (db v) = outbox (db w)" using ResolveOrMint_Inr [OF s(2)] s(1) by auto
  from EnqueueEnvelope_Inr [OF s(3)] obtain payload where p:
    "Marshal cd (BuildResolved eid (tr_ResolvedKey r) (tr_Source r) now
       \<lparr>lr_RequestID = lk_RequestID data, lr_Email = lk_Email data, lr_EnvelopeID = ID env, lr_CorrelationID = CorrelationID env\<rparr> m) = Some payload"
    "eid \<notin> Row_ID ` set (outbox (db v))"
    "db w' = (db v)\<lparr>outbox := outbox (db v) @ [\<lparr>Row_ID = eid, RoutingKey = tr_ResolvedKey r, Payload = payload, Status = Pending,
       Attempts = 0, LastError = None, CreatedAt = now, SentAt = ''''\<rparr>]\<rparr>"
    by (auto simp: BuildResolved_def NewCausedEnvelope_def)
  show ?thesis
  proof (rule answered [of m minted "db v" eid payload])
    show "\<not> suppressed (db w) (tr_HashEmail r (NormalizeEmail (tr_UnicodeLower r) (lk_Email data)))" using False .
  qed (use p ResolveOrMint_Inr [OF s(2)] s(1,4) ob in auto)
qed

lemma TxResolver_once:
  "TxResolver_Resolve cd r env data = bindE nowE (\<lambda>t. once (ID env) (Type env) (FormatWireTime t)
     \<lparr>rr_MasterID = '''', rr_Minted = False, rr_Duplicate = True, rr_Held = False\<rparr> (resolve_body cd r (FormatWireTime t) env data))"
  by (simp add: TxResolver_Resolve_def once_def Let_def)

lemma quiet_resolve_body [quiet_intros]: "quiet (resolve_body cd r now env data)"
  unfolding resolve_body_def Let_def ResolveOrMint_def insert_identity_def IsEmailSuppressed_def Record_def
  by (intro quiet_intros)

section \<open>Erasure\<close>

definition id_present :: "identity_db \<Rightarrow> string \<Rightarrow> bool" where
  "id_present d m \<longleftrightarrow> m \<in> id_master ` set (identities d)"

definition id_tombstoned :: "identity_db \<Rightarrow> string \<Rightarrow> bool" where
  "id_tombstoned d m \<longleftrightarrow> m \<in> fst ` set (tombstones d)"

definition email_of :: "identity_db \<Rightarrow> string \<Rightarrow> string option" where
  "email_of d m = map_option id_email (find (\<lambda>r. id_master r = m) (identities d))"

lemma or_ignore_keys [simp]: "fst ` set (or_ignore k v rows) = insert k (fst ` set rows)"
  by (auto simp: or_ignore_def)

lemma identity_Delete_Inr:
  assumes "identity_Delete H low m ora w = (Inr u, w')"
  shows "(email_of (db w) m = None \<and> db w' = db w)
    \<or> (\<exists>e at. email_of (db w) m = Some e
         \<and> db w' = (db w)\<lparr>suppressions := or_ignore (H (NormalizeEmail low e)) at (suppressions (db w)),
                          identities := filter (\<lambda>r. id_master r \<noteq> m) (identities (db w))\<rparr>)"
proof (cases "email_of (db w) m")
  case None
  then show ?thesis using assms unfolding identity_Delete_def LookupEmail_def email_of_def
    by (auto simp: bindE_eq_Inr queryE_def retE_def split: if_splits)
next
  case (Some e)
  then have "\<exists>at. db w' = (db w)\<lparr>suppressions := or_ignore (H (NormalizeEmail low e)) at (suppressions (db w)),
                          identities := filter (\<lambda>r. id_master r \<noteq> m) (identities (db w))\<rparr>"
    using assms unfolding identity_Delete_def LookupEmail_def DeleteSlice_def email_of_def
    by (auto simp: bindE_eq_Inr queryE_def execE_def nowE_def retE_def split: if_splits)
  with Some show ?thesis by blast
qed

lemma email_of_None: "email_of d m = None \<longleftrightarrow> \<not> id_present d m"
  by (auto simp: email_of_def id_present_def find_None_iff)

lemma identity_Tombstone_Inr:
  "identity_Tombstone m ora w = (Inr u, w') \<Longrightarrow> \<exists>at. db w' = (db w)\<lparr>tombstones := or_ignore m at (tombstones (db w))\<rparr>"
  by (auto simp: identity_Tombstone_def WriteTombstone_def bindE_eq_Inr nowE_def execE_def split: if_splits)

interpretation identity_erasure: erasable "identity_eraser cd r" id_present id_tombstoned
  for cd r
proof
  show "quiet (eh_Delete (identity_eraser cd r) m)" for m
    unfolding identity_eraser_def by (auto simp: identity_Delete_def LookupEmail_def DeleteSlice_def intro!: quiet_intros)
  show "quiet (eh_Tombstone (identity_eraser cd r) m)" for m
    unfolding identity_eraser_def by (auto simp: identity_Tombstone_def WriteTombstone_def intro!: quiet_intros)
  show "quiet (eh_Enqueue (identity_eraser cd r) a)" for a
    unfolding identity_eraser_def by (auto intro!: quiet_intros)
  show "\<not> id_present (db w') m" if "eh_Delete (identity_eraser cd r) m ora w = (Inr u, w')" for m ora w u w'
    using that identity_Delete_Inr [of "tr_HashEmail r" "tr_UnicodeLower r" m ora w u w']
    by (auto simp: identity_eraser_def email_of_None id_present_def)
  show "id_tombstoned (db w') m \<and> (id_present (db w') m \<longrightarrow> id_present (db w) m)"
    if "eh_Tombstone (identity_eraser cd r) m ora w = (Inr u, w')" for m ora w u w'
    using that identity_Tombstone_Inr [of m ora w u w'] by (auto simp: identity_eraser_def id_tombstoned_def id_present_def)
  show "\<exists>row. Row_ID row = ID a \<and> Status row = Pending \<and> RoutingKey row = Type a
             \<and> db w' = (db w)\<lparr>outbox := outbox (db w) @ [row]\<rparr>"
    if "eh_Enqueue (identity_eraser cd r) a ora w = (Inr u, w')" for a ora w u w'
  proof -
    have "EnqueueEnvelope cd (tr_ValidateOut r) a ora w = (Inr u, w')" using that by (simp add: identity_eraser_def)
    from EnqueueEnvelope_Inr [OF this] obtain payload where "db w' = (db w)\<lparr>outbox := outbox (db w) @ [\<lparr>Row_ID = ID a,
       RoutingKey = Type a, Payload = payload, Status = Pending, Attempts = 0, LastError = None, CreatedAt = OccurredAt a, SentAt = ''''\<rparr>]\<rparr>"
      by blast
    then show ?thesis
      by (intro exI [of _ "\<lparr>Row_ID = ID a, RoutingKey = Type a, Payload = payload, Status = Pending, Attempts = 0,
        LastError = None, CreatedAt = OccurredAt a, SentAt = ''''\<rparr>"]) simp
  qed
qed (auto simp: id_present_def id_tombstoned_def)

section \<open>Sequences of operations\<close>

datatype identity_op = OpLookup IncomingEnvelope LookupRequestedData | OpErase IncomingEnvelope

fun identity_step :: "json_codec \<Rightarrow> TxResolver \<Rightarrow> identity_op \<Rightarrow> (identity_db, unit) io" where
  "identity_step cd r (OpLookup env data) = tryE (TxResolver_Resolve cd r env data) (\<lambda>_. retE ())"
| "identity_step cd r (OpErase env) = tryE (erasure_Handle cd (identity_eraser cd r) env) (\<lambda>_. retE ())"

fun identity_ops :: "json_codec \<Rightarrow> TxResolver \<Rightarrow> identity_op list \<Rightarrow> (identity_db, unit) io" where
  "identity_ops cd r [] = retE ()"
| "identity_ops cd r (p # ps) = bindE (identity_step cd r p) (\<lambda>_. identity_ops cd r ps)"

text \<open>What a step can do to the identities and the suppressions.\<close>

lemma lookup_effect:
  assumes "TxResolver_Resolve cd r env data ora w = (x, w')"
  shows "suppressions (db w') = suppressions (db w) \<and> (identities (db w') = identities (db w)
    \<or> (\<exists>row. \<not> suppressed (db w) (tr_HashEmail r (NormalizeEmail (tr_UnicodeLower r) (lk_Email data)))
        \<and> master_of (db w) (lk_Email data) = None \<and> id_master row \<notin> id_master ` set (identities (db w))
        \<and> id_email row = lk_Email data \<and> identities (db w') = identities (db w) @ [row]))"
proof (cases x)
  case (Inl e)
  with assms have "db w' = db w"
    by (auto simp: TxResolver_once bindE_def nowE_def split: prod.splits sum.splits dest: once_Inl)
  then show ?thesis by simp
next
  case (Inr res)
  with assms obtain t where "once (ID env) (Type env) t
     \<lparr>rr_MasterID = '''', rr_Minted = False, rr_Duplicate = True, rr_Held = False\<rparr> (resolve_body cd r t env data) ora (tock w) = (Inr res, w')"
    by (auto simp: TxResolver_once bindE_eq_Inr nowE_def)
  from once_Inr [OF this] consider "db w' = db w" | u row where
    "resolve_body cd r t env data ora (tock (tock (tock w))) = (Inr res, u)" "db w' = (db u)\<lparr>inbox := inbox (db u) @ [row]\<rparr>"
    by auto
  then show ?thesis
  proof cases
    case 2
    from 2(1) show ?thesis
    proof (cases rule: resolve_body_cases)
      case held
      then show ?thesis using 2(2) by simp
    next
      case (answered m minted d1 eid payload)
      from answered(3) show ?thesis
      proof (elim disjE conjE)
        assume "minted" "master_of (db (tock (tock (tock w)))) (lk_Email data) = None"
          "m \<notin> id_master ` set (identities (db (tock (tock (tock w)))))"
          "d1 = (db (tock (tock (tock w))))\<lparr>identities := identities (db (tock (tock (tock w)))) @
             [\<lparr>id_master = m, id_email = lk_Email data, id_created_at = t, id_updated_at = t\<rparr>]\<rparr>"
        then show ?thesis using answered(1,6) 2(2) by simp
      next
        assume "d1 = db (tock (tock (tock w)))"
        then show ?thesis using answered(6) 2(2) by simp
      qed
    qed
  qed simp
qed

lemma erase_effect:
  assumes "erasure_Handle cd (identity_eraser cd r) env ora w = (x, w')"
  shows "db w' = db w \<or> (\<exists>m. identities (db w') = filter (\<lambda>row. id_master row \<noteq> m) (identities (db w))
    \<and> set (suppressions (db w)) \<subseteq> set (suppressions (db w'))
    \<and> (\<exists>res. x = Inr res \<and> \<not> res_Duplicate res \<and> res_MasterID res = m)
    \<and> (\<forall>e. email_of (db w) m = Some e \<longrightarrow> suppressed (db w') (tr_HashEmail r (NormalizeEmail (tr_UnicodeLower r) e))))"
proof (cases x)
  case (Inl e)
  then show ?thesis using identity_erasure.Handle_Inl assms by blast
next
  case (Inr res)
  show ?thesis
  proof (cases "res_Duplicate res")
    case True
    then show ?thesis using identity_erasure.Handle_Inr(2) assms Inr by blast
  next
    case False
    define m where "m = res_MasterID res"
    obtain a at where d: "WithinTx (erasure_tx (identity_eraser cd r) env m a at) ora (tock (tock w)) = (Inr False, w')"
      using erasure_Handle_fresh [OF assms [unfolded Inr] False] by (auto simp: m_def)
    from WithinTx_Inr [OF d] obtain u where
      "erasure_tx (identity_eraser cd r) env m a at ora (tock (tock (tock w))) = (Inr False, u)" "db w' = db u" by blast
    then obtain w2 w3 w4 where s: "db w' = db u"
      "identity_Delete (tr_HashEmail r) (tr_UnicodeLower r) m ora (tock (tock (tock (tock w)))) = (Inr (), w2)"
      "identity_Tombstone m ora w2 = (Inr (), w3)"
      "EnqueueEnvelope cd (tr_ValidateOut r) a ora w3 = (Inr (), w4)"
      "InboxMarkSeen (ID env) (Type env) at ora w4 = (Inr (), u)"
      by (auto simp: erasure_tx_def identity_eraser_def bindE_eq_Inr retE_def split: if_splits dest!: InboxHasSeen_Inr)
    have "identities (db w') = identities (db w2)" "suppressions (db w') = suppressions (db w2)"
      using identity_Tombstone_Inr [OF s(3)] EnqueueEnvelope_Inr [OF s(4)] InboxMarkSeen_Inr [OF s(5)] s(1) by auto
    moreover have "filter (\<lambda>row. id_master row \<noteq> m) (identities (db w)) = identities (db w)" if "email_of (db w) m = None" for m
      using that by (auto simp: email_of_None id_present_def intro!: filter_True)
    ultimately show ?thesis
      using identity_Delete_Inr [OF s(2)] Inr False
      by (intro disjI2 exI [of _ m]) (auto simp: m_def suppressed_def or_ignore_def)
  qed
qed


section \<open>One id per address\<close>

definition id_ok :: "identity_db \<Rightarrow> bool" where
  "id_ok d \<longleftrightarrow> distinct (map id_email (identities d)) \<and> distinct (map id_master (identities d))"

lemma master_of_cong: "identities d' = identities d \<Longrightarrow> master_of d' e = master_of d e"
  by (simp add: master_of_def)

lemma master_email:
  assumes "id_ok d" "master_of d e = Some m"
  shows "email_of d m = Some e"
proof -
  from assms(2) obtain row where row: "row \<in> set (identities d)" "id_email row = e" "id_master row = m"
    by (auto simp: master_of_def dest: find_SomeD)
  then obtain row' where f: "find (\<lambda>r. id_master r = m) (identities d) = Some row'"
    by (cases "find (\<lambda>r. id_master r = m) (identities d)") (auto simp: find_None_iff)
  then have "row' \<in> set (identities d)" "id_master row' = m" by (auto dest: find_SomeD)
  then have "row' = row" using row assms(1) by (auto simp: id_ok_def distinct_map inj_on_def)
  then show ?thesis using f row by (simp add: email_of_def)
qed

lemma find_filter_other:
  assumes "distinct (map k xs)" "find (\<lambda>x. k x = e) xs = Some row" "q row"
  shows "find (\<lambda>x. k x = e) (filter q xs) = Some row"
  using assms by (induction xs) (auto split: if_splits)

lemma find_filter_none:
  assumes "distinct (map k xs)" "find (\<lambda>x. k x = e) xs = Some row" "\<not> q row"
  shows "find (\<lambda>x. k x = e) (filter q xs) = None"
  using assms by (induction xs) (auto split: if_splits simp: find_None_iff, metis image_eqI)

text \<open>An address that is known keeps its id or is erased for good.\<close>

definition kept_or_erased :: "TxResolver \<Rightarrow> string \<Rightarrow> string \<Rightarrow> identity_db \<Rightarrow> bool" where
  "kept_or_erased r e m d \<longleftrightarrow> id_ok d \<and> (master_of d e = Some m \<or> (master_of d e = None \<and> suppressed d (tr_HashEmail r e)))"

lemma lookup_kept:
  assumes "TxResolver_Resolve cd r env data ora w = (x, w')"
    and "kept_or_erased r e m (db w)" "NormalizeEmail (tr_UnicodeLower r) e = e"
  shows "kept_or_erased r e m (db w')"
proof -
  from lookup_effect [OF assms(1)] have s: "suppressions (db w') = suppressions (db w)" by simp
  from lookup_effect [OF assms(1)] have "identities (db w') = identities (db w)
    \<or> (\<exists>row. \<not> suppressed (db w) (tr_HashEmail r (NormalizeEmail (tr_UnicodeLower r) (lk_Email data)))
        \<and> master_of (db w) (lk_Email data) = None \<and> id_master row \<notin> id_master ` set (identities (db w))
        \<and> id_email row = lk_Email data \<and> identities (db w') = identities (db w) @ [row])"
    by (rule conjunct2)
  then show ?thesis
  proof (elim disjE exE conjE)
    assume 1: "identities (db w') = identities (db w)"
    then show ?thesis using assms(2) s by (simp add: kept_or_erased_def id_ok_def master_of_def suppressed_def)
  next
    fix row
    assume 2: "\<not> suppressed (db w) (tr_HashEmail r (NormalizeEmail (tr_UnicodeLower r) (lk_Email data)))"
        "master_of (db w) (lk_Email data) = None" "id_master row \<notin> id_master ` set (identities (db w))"
        "id_email row = lk_Email data" "identities (db w') = identities (db w) @ [row]"
    then have "id_ok (db w')" using assms(2) by (auto simp: kept_or_erased_def id_ok_def master_of_None)
    moreover have "master_of (db w') e = (case master_of (db w) e of Some m \<Rightarrow> Some m
        | None \<Rightarrow> if lk_Email data = e then Some (id_master row) else None)"
      using master_of_snoc [OF 2(2), of row e] 2(2,4) master_of_cong [of "db w'" "(db w)\<lparr>identities := identities (db w) @ [row]\<rparr>"] 2(5)
      by (auto split: option.splits)
    moreover have "suppressed (db w') x = suppressed (db w) x" for x using s by (simp add: suppressed_def)
    ultimately show ?thesis using assms(2,3) 2(1)
      by (auto simp: kept_or_erased_def split: option.splits if_splits)
  qed
qed

lemma erase_kept:
  assumes "erasure_Handle cd (identity_eraser cd r) env ora w = (x, w')"
    and "kept_or_erased r e m (db w)" "NormalizeEmail (tr_UnicodeLower r) e = e"
  shows "kept_or_erased r e m (db w')"
proof -
  from erase_effect [OF assms(1)] consider "db w' = db w"
    | k where "identities (db w') = filter (\<lambda>row. id_master row \<noteq> k) (identities (db w))"
      "set (suppressions (db w)) \<subseteq> set (suppressions (db w'))"
      "\<forall>e. email_of (db w) k = Some e \<longrightarrow> suppressed (db w') (tr_HashEmail r (NormalizeEmail (tr_UnicodeLower r) e))"
    by blast
  then show ?thesis
  proof cases
    case 1
    then show ?thesis using assms(2) by simp
  next
    case (2 k)
    have ok: "id_ok (db w)" using assms(2) by (simp add: kept_or_erased_def)
    then have ok': "id_ok (db w')" using 2(1) by (auto simp: id_ok_def distinct_map_filter)
    show ?thesis
    proof (cases "master_of (db w) e")
      case None
      then have "master_of (db w') e = None" using 2(1) by (auto simp: master_of_None)
      then show ?thesis using None assms(2) 2(2) ok' by (auto simp: kept_or_erased_def suppressed_def)
    next
      case (Some m')
      then have m: "m' = m" using assms(2) by (auto simp: kept_or_erased_def)
      from Some m obtain row where row: "find (\<lambda>r. id_email r = e) (identities (db w)) = Some row" "id_master row = m"
        by (auto simp: master_of_def)
      show ?thesis
      proof (cases "k = m")
        case True
        then have "suppressed (db w') (tr_HashEmail r e)" using master_email [OF ok] Some m 2(3) assms(3) by auto
        moreover have "master_of (db w') e = None"
          using find_filter_none [OF _ row(1)] ok True row(2) 2(1) by (auto simp: master_of_def id_ok_def)
        ultimately show ?thesis using ok' by (simp add: kept_or_erased_def)
      next
        case False
        then have "master_of (db w') e = Some m"
          using find_filter_other [OF _ row(1)] ok row(2) 2(1) by (auto simp: master_of_def id_ok_def)
        then show ?thesis using ok' by (simp add: kept_or_erased_def)
      qed
    qed
  qed
qed

lemma identity_step_kept:
  assumes "identity_step cd r p ora w = (x, w')" "kept_or_erased r e m (db w)" "NormalizeEmail (tr_UnicodeLower r) e = e"
  shows "x = Inr () \<and> kept_or_erased r e m (db w')"
proof (cases p)
  case (OpLookup env data)
  then show ?thesis using assms lookup_kept by (auto simp: tryE_eq retE_def)
next
  case (OpErase env)
  then show ?thesis using assms erase_kept by (auto simp: tryE_eq retE_def)
qed

lemma identity_ops_kept:
  "identity_ops cd r ps ora w = (x, w') \<Longrightarrow> kept_or_erased r e m (db w) \<Longrightarrow> NormalizeEmail (tr_UnicodeLower r) e = e \<Longrightarrow>
   kept_or_erased r e m (db w')"
proof (induction ps arbitrary: w)
  case (Cons p ps)
  obtain y u where y: "identity_step cd r p ora w = (y, u)" by fastforce
  from identity_step_kept [OF this Cons.prems(2,3)] have "y = Inr ()" "kept_or_erased r e m (db u)" by auto
  then show ?case using Cons y by (auto simp: bindE_def)
qed (simp add: retE_def)

text \<open>C19: a person has one masterId. Whatever lookups and erasures are processed, with whatever failures
  and redeliveries, no two identities share an address or an id; and an address that has an id
  keeps exactly this id until it is erased, after which it has none and its hash is suppressed. It
  never gets another one.\<close>

theorem identity_id_is_stable:
  assumes "id_ok (db w)" and "master_of (db w) e = Some m" and "NormalizeEmail (tr_UnicodeLower r) e = e"
    and "identity_ops cd r ps ora w = (x, w')"
  shows "id_ok (db w') \<and> (master_of (db w') e = Some m
     \<or> (master_of (db w') e = None \<and> suppressed (db w') (tr_HashEmail r e)))"
  using identity_ops_kept [OF assms(4), of e m] assms(1-3) by (simp add: kept_or_erased_def)

section \<open>Witness data\<close>

definition demo_resolver :: TxResolver where
  "demo_resolver = \<lparr>tr_ValidateOut = None, tr_Source = ''identity'', tr_ResolvedKey = ''identity.resolved'',
     tr_HashEmail = (\<lambda>e. CHR ''#'' # e), tr_UnicodeLower = (\<lambda>s. s)\<rparr>"

definition demo_ids :: "identity_db world" where
  "demo_ids = \<lparr>db = \<lparr>inbox = [], outbox = [], identities = [\<lparr>id_master = ''m1'', id_email = ''a@b'', id_created_at = '''', id_updated_at = ''''\<rparr>],
     tombstones = [], suppressions = [], held_lookups = []\<rparr>, tick = 0, trace = []\<rparr>"

theorem identity_id_is_stable_witness:
  "let w' = snd (identity_ops demo_codec demo_resolver [OpErase (demo_env ''e1'' ''m1''), OpLookup (demo_env ''e2'' '''') \<lparr>lk_RequestID = ''q'', lk_Email = ''a@b''\<rparr>]
              demo_calm demo_ids)
   in master_of (db w') ''a@b'' = Some ''m1'' \<or> (master_of (db w') ''a@b'' = None \<and> suppressed (db w') ''#a@b'')"
proof -
  have ok: "id_ok (db demo_ids)" "master_of (db demo_ids) ''a@b'' = Some ''m1''"
    by (simp_all add: demo_ids_def id_ok_def master_of_def)
  have n: "NormalizeEmail (tr_UnicodeLower demo_resolver) ''a@b'' = ''a@b''" by code_simp
  have h: "tr_HashEmail demo_resolver ''a@b'' = ''#a@b''" by (simp add: demo_resolver_def)
  from identity_id_is_stable [OF ok n prod.collapse [symmetric], of demo_codec] show ?thesis
    unfolding Let_def h by blast
qed

section \<open>Erased for good\<close>

lemma lookup_suppressed:
  assumes "TxResolver_Resolve cd r env data ora w = (Inr res, w')"
    and "suppressed (db w) (tr_HashEmail r (NormalizeEmail (tr_UnicodeLower r) (lk_Email data)))"
  shows "outbox (db w') = outbox (db w) \<and> identities (db w') = identities (db w)
    \<and> (rr_Duplicate res \<or> (rr_Held res \<and> length (held_lookups (db w')) = Suc (length (held_lookups (db w)))))"
proof -
  from assms(1) obtain t where "once (ID env) (Type env) t
     \<lparr>rr_MasterID = '''', rr_Minted = False, rr_Duplicate = True, rr_Held = False\<rparr> (resolve_body cd r t env data) ora (tock w) = (Inr res, w')"
    by (auto simp: TxResolver_once bindE_eq_Inr nowE_def)
  from once_Inr [OF this] show ?thesis
  proof (elim disjE conjE exE)
    fix u
    assume u: "resolve_body cd r t env data ora (tock (tock (tock w))) = (Inr res, u)"
      "db w' = (db u)\<lparr>inbox := inbox (db u) @ [\<lparr>in_id = ID env, in_type = Type env, in_processed_at = t\<rparr>]\<rparr>"
    from u(1) show ?thesis
    proof (cases rule: resolve_body_cases)
      case held
      then show ?thesis using u(2) by simp
    next
      case (answered m minted d1 eid payload)
      then show ?thesis using assms(2) by simp
    qed
  qed simp
qed

text \<open>C20: an erased person is forgotten for good. Once the erasure of an id whose address is \<open>e\<close> has
  been handled, whatever lookups and erasures follow, however they fail: the address has no
  identity; and a lookup for any spelling of the address that normalizes to \<open>e\<close> is held (recorded
  once more in held_lookups) or a redelivery, is never answered (the outbox gets no row) and never
  mints.\<close>

theorem erased_address_is_never_reminted:
  assumes "id_ok (db w)" and "master_of (db w) e = Some m" and "NormalizeEmail (tr_UnicodeLower r) e = e"
    and "erasure_Handle cd (identity_eraser cd r) env ora w = (Inr res, w1)"
    and "\<not> res_Duplicate res" and "res_MasterID res = m"
    and "identity_ops cd r ps ora1 w1 = (x, w2)"
    and "NormalizeEmail (tr_UnicodeLower r) (lk_Email data) = e"
    and "TxResolver_Resolve cd r env2 data ora2 w2 = (Inr res2, w3)"
  shows "master_of (db w2) e = None \<and> master_of (db w3) e = None \<and> outbox (db w3) = outbox (db w2)
    \<and> (rr_Duplicate res2 \<or> (rr_Held res2 \<and> length (held_lookups (db w3)) = Suc (length (held_lookups (db w2)))))"
proof -
  have "kept_or_erased r e m (db w)" using assms(1,2) by (simp add: kept_or_erased_def)
  from erase_kept [OF assms(4) this assms(3)] have k1: "kept_or_erased r e m (db w1)" .
  have gone: "\<not> id_present (db w1) m" using identity_erasure.Handle_Inr(3) [OF assms(4,5)] assms(6) by simp
  have "master_of (db w1) e \<noteq> Some m"
    using gone by (auto simp: master_of_def id_present_def dest!: find_SomeD)
  with k1 have e1: "master_of (db w1) e = None" "suppressed (db w1) (tr_HashEmail r e)"
    by (auto simp: kept_or_erased_def)
  have "kept_or_erased r e m' (db w1)" for m' using e1 k1 by (simp add: kept_or_erased_def)
  from identity_ops_kept [OF assms(7) this assms(3)] have "kept_or_erased r e m' (db w2)" for m' .
  from this [of "''a''"] this [of "''b''"] have e2: "master_of (db w2) e = None" "suppressed (db w2) (tr_HashEmail r e)"
    by (auto simp: kept_or_erased_def)
  from lookup_suppressed [OF assms(9)] e2 assms(8) show ?thesis by (auto simp: master_of_def)
qed

lemma demo_normal: "NormalizeEmail f ''a@b'' = ''a@b''"
proof -
  have "TrimSpace ''a@b'' = ''a@b''" "map ascii_lower ''a@b'' = ''a@b''" "is_ascii ''a@b''" by code_simp+
  then show ?thesis by (simp only: NormalizeEmail_def ToLower_def if_True)
qed

lemma demo_shouted: "NormalizeEmail f '' A@B'' = ''a@b''"
proof -
  have "TrimSpace '' A@B'' = ''A@B''" "map ascii_lower ''A@B'' = ''a@b''" "is_ascii ''A@B''" by code_simp+
  then show ?thesis by (simp only: NormalizeEmail_def ToLower_def if_True)
qed

theorem erased_address_is_never_reminted_witness:
  "\<exists>res w1 res2 w3. erasure_Handle demo_codec (identity_eraser demo_codec demo_resolver) (demo_env ''e1'' ''m1'') demo_calm demo_ids = (Inr res, w1)
     \<and> TxResolver_Resolve demo_codec demo_resolver (demo_env ''e2'' '''') \<lparr>lk_RequestID = ''q'', lk_Email = '' A@B''\<rparr> demo_calm w1 = (Inr res2, w3)
     \<and> rr_Held res2"
  (is "\<exists>res w1 res2 w3. ?E = (Inr res, w1) \<and> ?L w1 = (Inr res2, w3) \<and> _")
proof -
  note run_defs = io_defs erasure_Handle_def erasure_tx_def erasure_ack_def identity_eraser_def identity_Delete_def identity_Tombstone_def
    LookupEmail_def DeleteSlice_def WriteTombstone_def EnqueueEnvelope_def Enqueue_def InboxHasSeen_def InboxMarkSeen_def seen_def
    NewCausedEnvelope_def or_ignore_def demo_calm_def demo_env_def demo_ids_def demo_codec_def demo_resolver_def demo_normal demo_shouted
    TxResolver_Resolve_def resolve_body_def IsEmailSuppressed_def suppressed_def Record_def Let_def
  have ok: "id_ok (db demo_ids)" "master_of (db demo_ids) ''a@b'' = Some ''m1''"
    by (simp_all add: demo_ids_def id_ok_def master_of_def)
  have n: "NormalizeEmail (tr_UnicodeLower demo_resolver) ''a@b'' = ''a@b''"
    "NormalizeEmail (tr_UnicodeLower demo_resolver) (lk_Email \<lparr>lk_RequestID = ''q'', lk_Email = '' A@B''\<rparr>) = ''a@b''"
    by (rule demo_normal, simp add: demo_shouted)
  have "case fst ?E of Inl e \<Rightarrow> False | Inr r \<Rightarrow> \<not> res_Duplicate r \<and> res_MasterID r = ''m1''"
    by (simp add: run_defs)
  from Inr_result [OF this] obtain res where E: "?E = (Inr res, snd ?E)" "\<not> res_Duplicate res" "res_MasterID res = ''m1''"
    by (elim exE conjE)
  have "case fst (?L (snd ?E)) of Inl e \<Rightarrow> False | Inr r \<Rightarrow> \<not> rr_Duplicate r"
    by (simp add: run_defs)
  from Inr_result [OF this] obtain res2 where L: "?L (snd ?E) = (Inr res2, snd (?L (snd ?E)))" "\<not> rr_Duplicate res2"
    by (elim exE conjE)
  have none: "identity_ops demo_codec demo_resolver [] demo_calm (snd ?E) = (Inr (), snd ?E)" by (simp add: retE_def)
  have held: "rr_Held res2"
    using erased_address_is_never_reminted [OF ok n(1) E none n(2) L(1)] L(2) by (elim conjE disjE) (erule (1) notE)
  show ?thesis by (rule exI, rule exI, rule exI, rule exI, rule conjI [OF E(1) conjI [OF L(1) held]])
qed

section \<open>The reply\<close>

lemma answered_master:
  assumes "(minted \<and> master_of d e = None \<and> m \<notin> id_master ` set (identities d)
       \<and> d1 = d\<lparr>identities := identities d @ [\<lparr>id_master = m, id_email = e, id_created_at = t, id_updated_at = t\<rparr>]\<rparr>)
     \<or> (\<not> minted \<and> master_of d e = Some m \<and> d1 = d)"
    and "identities d' = identities d1"
  shows "master_of d' e = Some m \<and> minted = (master_of d e = None)"
proof -
  have same: "master_of d' e = master_of d1 e" by (rule master_of_cong [OF assms(2)])
  from assms(1) show ?thesis
  proof (elim disjE conjE)
    assume *: "minted" "master_of d e = None"
      "d1 = d\<lparr>identities := identities d @ [\<lparr>id_master = m, id_email = e, id_created_at = t, id_updated_at = t\<rparr>]\<rparr>"
    then show ?thesis unfolding same *(3) by (subst master_of_snoc [OF *(2)]) simp
  qed (simp add: same)
qed

lemma lookup_master:
  assumes "TxResolver_Resolve cd r env data ora w = (Inr res, w')" "\<not> rr_Duplicate res" "\<not> rr_Held res"
  shows "master_of (db w') (lk_Email data) = Some (rr_MasterID res)"
proof -
  from assms obtain t where "once (ID env) (Type env) t
     \<lparr>rr_MasterID = '''', rr_Minted = False, rr_Duplicate = True, rr_Held = False\<rparr> (resolve_body cd r t env data) ora (tock w) = (Inr res, w')"
    by (auto simp: TxResolver_once bindE_eq_Inr nowE_def)
  from once_Inr [OF this] assms(2) obtain u where u: "resolve_body cd r t env data ora (tock (tock (tock w))) = (Inr res, u)"
    "identities (db w') = identities (db u)" by auto
  from u(1) show ?thesis
  proof (cases rule: resolve_body_cases)
    case held
    then show ?thesis using assms(3) by simp
  next
    case (answered m minted d1 eid payload)
    then show ?thesis using answered_master [OF answered(3), of "db w'"] u(2) by simp
  qed
qed

lemma lookup_answer:
  assumes "TxResolver_Resolve cd r env data ora w = (x, w')"
  shows "case x of
      Inl e \<Rightarrow> db w' = db w
    | Inr res \<Rightarrow> (if rr_Duplicate res then seen (db w) (ID env) \<and> db w' = db w
        else \<not> seen (db w) (ID env) \<and> seen (db w') (ID env) \<and>
          (if rr_Held res then outbox (db w') = outbox (db w) \<and> identities (db w') = identities (db w)
           else \<exists>eid now payload. master_of (db w') (lk_Email data) = Some (rr_MasterID res)
             \<and> (rr_Minted res = (master_of (db w) (lk_Email data) = None))
             \<and> Marshal cd \<lparr>ID = eid, Type = tr_ResolvedKey r, Source = tr_Source r, SchemaVersion = 1, EnvelopeVersion = 1,
                  OccurredAt = now, CorrelationID = CorrelationID env, CausationID = Some (ID env),
                  Data = Resolved \<lparr>rs_RequestID = lk_RequestID data, rs_Email = lk_Email data, rs_MasterID = rr_MasterID res\<rparr>\<rparr> = Some payload
             \<and> outbox (db w') = outbox (db w) @ [\<lparr>Row_ID = eid, RoutingKey = tr_ResolvedKey r, Payload = payload,
                  Status = Pending, Attempts = 0, LastError = None, CreatedAt = now, SentAt = ''''\<rparr>]))"
proof (cases x)
  case (Inl e)
  then show ?thesis using assms
    by (auto simp: TxResolver_once bindE_def nowE_def split: prod.splits sum.splits dest: once_Inl)
next
  case (Inr res)
  with assms obtain t where "once (ID env) (Type env) t
     \<lparr>rr_MasterID = '''', rr_Minted = False, rr_Duplicate = True, rr_Held = False\<rparr> (resolve_body cd r t env data) ora (tock w) = (Inr res, w')"
    by (auto simp: TxResolver_once bindE_eq_Inr nowE_def)
  from once_Inr [OF this] show ?thesis
  proof (elim disjE conjE exE)
    fix u
    assume u: "\<not> seen (db (tock w)) (ID env)" "resolve_body cd r t env data ora (tock (tock (tock w))) = (Inr res, u)"
      "db w' = (db u)\<lparr>inbox := inbox (db u) @ [\<lparr>in_id = ID env, in_type = Type env, in_processed_at = t\<rparr>]\<rparr>"
    have seen': "seen (db w') (ID env)" by (simp add: u(3))
    from u(2) show ?thesis
    proof (cases rule: resolve_body_cases)
      case held
      then show ?thesis using u seen' Inr by simp
    next
      case (answered m minted d1 eid payload)
      have "master_of (db w') (lk_Email data) = Some m \<and> minted = (master_of (db w) (lk_Email data) = None)"
        using answered_master [OF answered(3)] by (simp add: u(3) answered(6))
      moreover have "outbox (db w') = outbox (db w) @ [\<lparr>Row_ID = eid, RoutingKey = tr_ResolvedKey r, Payload = payload,
                  Status = Pending, Attempts = 0, LastError = None, CreatedAt = t, SentAt = ''''\<rparr>]"
        using answered(6) u(3) by simp
      ultimately show ?thesis using answered(2,5) u(1) seen' Inr
        by (auto simp: BuildResolved_def NewCausedEnvelope_def intro!: exI [of _ eid] exI [of _ t])
    qed
  qed (simp add: Inr)
qed

text \<open>C21: a lookup is answered exactly once, atomically. When the transaction fails nothing has changed.
  A redelivered envelope changes nothing. Otherwise the envelope is marked seen and either the
  address is suppressed and the request is held, or exactly one reply is queued: the marshalled
  \<open>identity.resolved\<close> that carries the request's id and address and the masterId the table
  holds for the address after the transaction, caused by the request and in its flow.\<close>

theorem lookup_answered_once:
  assumes "TxResolver_Resolve cd r env data ora w = (x, w')"
  shows "case x of
      Inl e \<Rightarrow> db w' = db w
    | Inr res \<Rightarrow> (if rr_Duplicate res then seen (db w) (ID env) \<and> db w' = db w
        else \<not> seen (db w) (ID env) \<and> seen (db w') (ID env) \<and>
          (if rr_Held res then outbox (db w') = outbox (db w) \<and> identities (db w') = identities (db w)
           else \<exists>eid now payload. master_of (db w') (lk_Email data) = Some (rr_MasterID res)
             \<and> (rr_Minted res = (master_of (db w) (lk_Email data) = None))
             \<and> Marshal cd \<lparr>ID = eid, Type = tr_ResolvedKey r, Source = tr_Source r, SchemaVersion = 1, EnvelopeVersion = 1,
                  OccurredAt = now, CorrelationID = CorrelationID env, CausationID = Some (ID env),
                  Data = Resolved \<lparr>rs_RequestID = lk_RequestID data, rs_Email = lk_Email data, rs_MasterID = rr_MasterID res\<rparr>\<rparr> = Some payload
             \<and> outbox (db w') = outbox (db w) @ [\<lparr>Row_ID = eid, RoutingKey = tr_ResolvedKey r, Payload = payload,
                  Status = Pending, Attempts = 0, LastError = None, CreatedAt = now, SentAt = ''''\<rparr>]))"
  using assms by (rule lookup_answer)

theorem lookup_answered_once_witness:
  "let p = TxResolver_Resolve demo_codec demo_resolver (demo_env ''e2'' '''') \<lparr>lk_RequestID = ''q'', lk_Email = ''a@b''\<rparr> demo_calm demo_ids
   in case fst p of Inl e \<Rightarrow> db (snd p) = db demo_ids
      | Inr res \<Rightarrow> \<not> rr_Duplicate res \<longrightarrow> seen (db (snd p)) ''e2''"
proof -
  have "ID (demo_env ''e2'' '''') = ''e2''" by (simp add: demo_env_def)
  with lookup_answered_once [OF prod.collapse [symmetric], of demo_codec demo_resolver "demo_env ''e2'' ''''"
      "\<lparr>lk_RequestID = ''q'', lk_Email = ''a@b''\<rparr>" demo_calm demo_ids]
  show ?thesis unfolding Let_def by (auto split: sum.splits if_splits)
qed

end
