(* ===== verification/Identity_Service.thy ===== *)
theory Identity_Service
  imports Identity_Store
begin

text \<open>
  Identity's consumer (services/identity/internal/consumer/consumer.go): validate, decode, dispatch
  on the type; a lookup is canonicalized, guarded against a blank address and resolved, an
  erasure is handed to the erasure engine. The handler is an interpretation of the delivery
  spine, and the canonical address makes the promises of the store promises about what drivers
  type.
\<close>

section \<open>The handler\<close>

record IdentityHandler = Sinks +
  ih_Validate :: "bytes \<Rightarrow> error option"
  ih_Resolver :: TxResolver
  ih_Notify :: bool
  ih_LookupKey :: string
  ih_ErasureKey :: string

definition identity_park :: "IdentityHandler \<Rightarrow> Delivery \<Rightarrow> string \<Rightarrow> (identity_db, unit) io" where
  "identity_park h d reason =
     (if \<not> sk_Park h then nack d False
      else bindE sendE (\<lambda>ok. bindE (emitE (ParkPub (dv_Body d) reason ok)) (\<lambda>_.
        if \<not> ok then nack d True
        else bindE (emitE (Alert ''message_parked'')) (\<lambda>_. ack d))))"

definition identity_retryOrPark :: "IdentityHandler \<Rightarrow> Delivery \<Rightarrow> (identity_db, unit) io" where
  "identity_retryOrPark h d =
     (let dec = identity_NextRetry (RetryCount d) (sk_Policy h)
      in if Park dec then identity_park h d ''retries-exhausted''
         else if \<not> sk_Retry h then nack d True
         else bindE sendE (\<lambda>ok. bindE (emitE (RetryPub (dv_Body d) (DelayMs dec) (NextRetries dec) ok)) (\<lambda>_.
           if \<not> ok then nack d True else ack d)))"

definition processErasure :: "json_codec \<Rightarrow> IdentityHandler \<Rightarrow> Delivery \<Rightarrow> IncomingEnvelope \<Rightarrow> (identity_db, unit) io" where
  "processErasure cd h d env =
     tryE (erasure_Handle cd (identity_eraser cd (ih_Resolver h)) env) (\<lambda>r. case r of
       Inl err \<Rightarrow> identity_retryOrPark h d
     | Inr result \<Rightarrow> bindE (ack d) (\<lambda>_.
         if res_Duplicate result then retE () else whenE (ih_Notify h) (emitE Kicked)))"

definition processLookup :: "json_codec \<Rightarrow> IdentityHandler \<Rightarrow> Delivery \<Rightarrow> IncomingEnvelope \<Rightarrow> (identity_db, unit) io" where
  "processLookup cd h d env =
     (case UnmarshalLookup cd (Data env) of
        None \<Rightarrow> identity_park h d ''undecodable-data''
      | Some data0 \<Rightarrow>
          let data = data0\<lparr>lk_Email := NormalizeEmail (tr_UnicodeLower (ih_Resolver h)) (lk_Email data0)\<rparr>
          in if lk_Email data = '''' then identity_park h d ''blank-email''
             else tryE (TxResolver_Resolve cd (ih_Resolver h) env data) (\<lambda>r. case r of
               Inl err \<Rightarrow> identity_retryOrPark h d
             | Inr result \<Rightarrow> bindE (ack d) (\<lambda>_.
                 if rr_Duplicate result then retE ()
                 else if rr_Held result then emitE (Alert ''erased_email_lookup_held'')
                 else whenE (ih_Notify h) (emitE Kicked))))"

definition identity_Process :: "json_codec \<Rightarrow> IdentityHandler \<Rightarrow> Delivery \<Rightarrow> (identity_db, unit) io" where
  "identity_Process cd h d =
     (case ih_Validate h (dv_Body d) of
        Some err \<Rightarrow> identity_park h d ''contract-invalid''
      | None \<Rightarrow>
          (case DecodeIncoming cd (dv_Body d) of
             Inl err \<Rightarrow> identity_park h d ''undecodable-envelope''
           | Inr env \<Rightarrow>
               if Type env = ih_LookupKey h then processLookup cd h d env
               else if Type env = ih_ErasureKey h then processErasure cd h d env
               else ack d))"

definition identity_Run :: "json_codec \<Rightarrow> IdentityHandler \<Rightarrow> consumer_event list \<Rightarrow> (identity_db, unit) io" where
  "identity_Run cd h evs = consumer_run (identity_Process cd h) evs"

section \<open>The spine\<close>

lemma identity_park_eq: "identity_park h d reason = park h d reason"
  by (simp add: identity_park_def park_def)

lemma identity_retryOrPark_eq: "identity_retryOrPark h d = retryOrPark identity_NextRetry h d"
  by (simp add: identity_retryOrPark_def retryOrPark_def identity_park_eq Let_def cong: if_cong)

definition id_ignores :: "json_codec \<Rightarrow> IdentityHandler \<Rightarrow> Delivery \<Rightarrow> bool" where
  "id_ignores cd h d \<longleftrightarrow> ih_Validate h (dv_Body d) = None
     \<and> (\<exists>env. DecodeIncoming cd (dv_Body d) = Inr env \<and> Type env \<notin> {ih_LookupKey h, ih_ErasureKey h})"

lemma erasure_commits: "commits tables (erasure_Handle cd (identity_eraser cd r) env)"
  unfolding commits_def
proof (intro allI impI)
  fix ora w x u
  assume "erasure_Handle cd (identity_eraser cd r) env ora w = (x, u)"
  then show "trace u = trace w @ (case x of Inl e \<Rightarrow> [] | Inr a \<Rightarrow> [Committed]) \<and> (\<forall>e. x = Inl e \<longrightarrow> tables (db u) = tables (db w))"
    using identity_erasure.Handle_Inl identity_erasure.Handle_Inr(1) by (cases x) force+
qed

lemma lookup_commits: "commits tables (TxResolver_Resolve cd r env data)"
  unfolding TxResolver_once
  by (rule commits_pre) (auto simp: nowE_def Let_def intro!: once_commits quiet_resolve_body)

lemma processErasure_done:
  assumes "processErasure cd h d env ora w = (r, w')"
  shows "r = Inr () \<and> step_done ign (sk_Park h) id d w w'"
  by (rule tryE_done [OF assms [unfolded processErasure_def identity_retryOrPark_eq] erasure_commits]) simp

lemma processLookup_done:
  assumes "processLookup cd h d env ora w = (r, w')"
  shows "r = Inr () \<and> step_done ign (sk_Park h) id d w w'"
proof (cases "UnmarshalLookup cd (Data env)")
  case None
  then show ?thesis using assms park_done by (simp add: processLookup_def identity_park_eq)
next
  case (Some data0)
  define data where "data = data0\<lparr>lk_Email := NormalizeEmail (tr_UnicodeLower (ih_Resolver h)) (lk_Email data0)\<rparr>"
  show ?thesis
  proof (cases "lk_Email data = ''''")
    case True
    then show ?thesis using assms Some park_done
      by (simp add: processLookup_def identity_park_eq Let_def data_def)
  next
    case False
    then have "tryE (TxResolver_Resolve cd (ih_Resolver h) env data) (\<lambda>r. case r of
               Inl err \<Rightarrow> retryOrPark identity_NextRetry h d
             | Inr result \<Rightarrow> bindE (ack d) (\<lambda>_.
                 if rr_Duplicate result then retE ()
                 else if rr_Held result then emitE (Alert ''erased_email_lookup_held'')
                 else whenE (ih_Notify h) (emitE Kicked))) ora w = (r, w')"
      using assms Some by (simp add: processLookup_def identity_retryOrPark_eq Let_def data_def)
    then show ?thesis by (rule tryE_done [OF _ lookup_commits]) simp
  qed
qed

lemma identity_Process_done:
  assumes "identity_Process cd h d ora w = (r, w')"
  shows "r = Inr () \<and> step_done (id_ignores cd h d) (sk_Park h) id d w w'"
proof (cases "ih_Validate h (dv_Body d)")
  case (Some e)
  then show ?thesis using assms park_done by (simp add: identity_Process_def identity_park_eq)
next
  case valid: None
  show ?thesis
  proof (cases "DecodeIncoming cd (dv_Body d)")
    case (Inl e)
    then show ?thesis using assms valid park_done by (simp add: identity_Process_def identity_park_eq)
  next
    case (Inr env)
    then show ?thesis using assms valid processLookup_done processErasure_done
        ack_done [of d ora w r w' "sk_Park h" id]
      by (auto simp: identity_Process_def id_ignores_def split: if_splits)
  qed
qed

interpretation identity_spine: delivery_spine "identity_Process cd h" "id_ignores cd h" "sk_Park h" id
  for cd h
  by unfold_locales (drule identity_Process_done, simp add: step_done_def)

text \<open>C22: Identity's consumer loses no message. For every run, over any codec, validator, wiring and
  environment, the loop returns, and each delivery it took is settled by its own stretch of the
  trace, in order: exactly one ack or nack of that message; an ack only after the lookup or the
  erasure committed, or the retry or the park of this message was published, unless the message
  has a type Identity does not handle; and never a nack without requeue while a parking sink is
  wired.\<close>

theorem identity_Run_settles:
  "\<exists>w' trs. identity_Run cd h evs ora w = (Inr (), w') \<and> trace w' = trace w @ concat trs
     \<and> list_all2 (\<lambda>d tr. settled (id_ignores cd h d) (sk_Park h) (dv_Body d) tr) (taken evs) trs"
proof -
  obtain r w' where run: "consumer_run (identity_Process cd h) evs ora w = (r, w')" by fastforce
  from identity_spine.run_settles [OF run] run show ?thesis by (auto simp: identity_Run_def)
qed

section \<open>One mailbox, one id\<close>

text \<open>On ASCII text \<open>TrimSpace\<close> drops the six ASCII space characters at both ends.\<close>

definition ascii_spaces :: string where
  "ascii_spaces = map char_of [9, 10, 11, 12, 13, 32 :: nat]"

lemma space_runes_split:
  "\<exists>ms. space_runes = map (\<lambda>c. [c]) ascii_spaces @ ms \<and> (\<forall>m\<in>set ms. m \<noteq> [] \<and> (128 :: nat) \<le> of_char (hd m))"
  "\<exists>ms. map rev space_runes = map (\<lambda>c. [c]) ascii_spaces @ ms \<and> (\<forall>m\<in>set ms. m \<noteq> [] \<and> (128 :: nat) \<le> of_char (hd m))"
  unfolding space_runes_def ascii_spaces_def by (simp_all add: upt_rec of_char_of)

lemma filter_single: "distinct cs \<Longrightarrow> filter (\<lambda>p. take (length p) (x # xs) = p) (map (\<lambda>c. [c]) cs) = (if x \<in> set cs then [[x]] else [])"
  by (induction cs) auto

lemma trim_with_ascii:
  assumes "ps = map (\<lambda>c. [c]) cs @ ms" "distinct cs" "\<forall>m\<in>set ms. m \<noteq> [] \<and> (128 :: nat) \<le> of_char (hd m)"
    and "is_ascii s" "length s \<le> n"
  shows "trim_with ps n s = dropWhile (\<lambda>c. c \<in> set cs) s"
  using assms(4,5)
proof (induction n arbitrary: s)
  case (Suc n)
  show ?case
  proof (cases s)
    case Nil
    have "filter (\<lambda>p. take (length p) s = p) ps = []" using assms(1,3) Nil by (auto simp: filter_empty_conv)
    then show ?thesis using Nil by simp
  next
    case (Cons c t)
    have "filter (\<lambda>p. take (length p) s = p) ms = []"
      using assms(3) Suc.prems(1) Cons by (auto simp: filter_empty_conv is_ascii_def) (metis hd_take length_0_conv length_greater_0_conv linorder_not_le list.sel(1))
    then have "filter (\<lambda>p. take (length p) s = p) ps = (if c \<in> set cs then [[c]] else [])"
      using filter_single [OF assms(2), of c t] assms(1) Cons by simp
    then show ?thesis using Suc Cons by (simp add: is_ascii_def)
  qed
qed simp

lemma TrimSpace_ascii:
  assumes "is_ascii s"
  shows "TrimSpace s = rev (dropWhile (\<lambda>c. c \<in> set ascii_spaces) (rev (dropWhile (\<lambda>c. c \<in> set ascii_spaces) s)))"
proof -
  have d: "distinct ascii_spaces" by (simp add: ascii_spaces_def)
  obtain ms ns where ms: "space_runes = map (\<lambda>c. [c]) ascii_spaces @ ms" "\<forall>m\<in>set ms. m \<noteq> [] \<and> (128 :: nat) \<le> of_char (hd m)"
    and ns: "map rev space_runes = map (\<lambda>c. [c]) ascii_spaces @ ns" "\<forall>m\<in>set ns. m \<noteq> [] \<and> (128 :: nat) \<le> of_char (hd m)"
    using space_runes_split by metis
  let ?l = "dropWhile (\<lambda>c. c \<in> set ascii_spaces) s"
  have "is_ascii (rev ?l)" using assms by (auto simp: is_ascii_def list_all_iff dest: set_dropWhileD)
  then show ?thesis
    using trim_with_ascii [OF ms(1) d ms(2) assms] trim_with_ascii [OF ns(1) d ns(2), of "rev ?l"] by (simp add: TrimSpace_def)
qed

lemma ascii_lower_facts:
  assumes "(of_char c :: nat) < 128"
  shows "(of_char (ascii_lower c) :: nat) < 128" "ascii_lower (ascii_lower c) = ascii_lower c"
    "ascii_lower c \<in> set ascii_spaces \<longleftrightarrow> c \<in> set ascii_spaces"
  using assms
  by (auto simp: ascii_lower_def Let_def ascii_spaces_def of_char_of)

lemma dropWhile_again: "rev (dropWhile p (rev (dropWhile p s))) = t \<Longrightarrow> rev (dropWhile p (rev (dropWhile p t))) = t"
proof -
  assume t: "rev (dropWhile p (rev (dropWhile p s))) = t"
  have r: "rev t = dropWhile p (rev (dropWhile p s))" using t by auto
  have "dropWhile p t = t"
  proof (cases t)
    case (Cons x xs)
    have "\<exists>u. dropWhile p s = t @ u" using r by (metis dropWhile_eq_drop rev_append append_take_drop_id rev_rev_ident)
    then show ?thesis using Cons by (metis append_Cons dropWhile.simps(2) hd_dropWhile list.distinct(1) list.sel(1))
  qed simp
  then show ?thesis using r by (metis dropWhile_idem rev_rev_ident)
qed

lemma NormalizeEmail_ascii:
  assumes "is_ascii s"
  shows "NormalizeEmail u s = map ascii_lower (TrimSpace s) \<and> is_ascii (NormalizeEmail u s)"
proof -
  have "is_ascii (TrimSpace s)"
    using assms unfolding TrimSpace_ascii [OF assms] by (auto simp: is_ascii_def list_all_iff dest!: set_dropWhileD)
  then show ?thesis using ascii_lower_facts(1)
    by (auto simp: NormalizeEmail_def ToLower_def is_ascii_def list_all_iff)
qed

lemma NormalizeEmail_idem:
  assumes "is_ascii s"
  shows "NormalizeEmail u (NormalizeEmail u s) = NormalizeEmail u s"
proof -
  let ?t = "TrimSpace s" let ?p = "\<lambda>c. c \<in> set ascii_spaces"
  have at: "is_ascii ?t"
    using assms unfolding TrimSpace_ascii [OF assms] by (auto simp: is_ascii_def list_all_iff dest!: set_dropWhileD)
  note n = NormalizeEmail_ascii [OF assms, of u]
  have dl: "dropWhile ?p (map ascii_lower xs) = map ascii_lower (dropWhile ?p xs)" if "is_ascii xs" for xs
    using that ascii_lower_facts(3) by (induction xs) (auto simp: is_ascii_def)
  have "is_ascii (dropWhile ?p ?t)" using at by (auto simp: is_ascii_def list_all_iff dest!: set_dropWhileD)
  then have "TrimSpace (map ascii_lower ?t) = map ascii_lower (TrimSpace ?t)"
  proof -
    have a: "is_ascii (map ascii_lower ?t)" using n by metis
    have "is_ascii (rev (dropWhile ?p ?t))" using \<open>is_ascii (dropWhile ?p ?t)\<close> by (simp add: is_ascii_def list_all_iff)
    then show ?thesis unfolding TrimSpace_ascii [OF a] TrimSpace_ascii [OF at] dl [OF at]
      by (simp only: rev_map dl)
  qed
  moreover have "TrimSpace ?t = ?t"
    using dropWhile_again [of ?p s ?t] TrimSpace_ascii [OF assms] TrimSpace_ascii [OF at] by simp
  moreover have "map ascii_lower (map ascii_lower ?t) = map ascii_lower ?t"
    using at ascii_lower_facts(2) by (auto simp: is_ascii_def list_all_iff)
  ultimately show ?thesis using n NormalizeEmail_ascii [of "NormalizeEmail u s" u] by metis
qed

lemma lookup_ok: "TxResolver_Resolve cd r env data ora w = (x, w') \<Longrightarrow> id_ok (db w) \<Longrightarrow> id_ok (db w')"
  using lookup_effect [of cd r env data ora w x w'] by (auto simp: id_ok_def master_of_None)

section \<open>Spellings\<close>

text \<open>What makes two texts spellings of one mailbox, without the code's canonical form: the letters of an ASCII
  address in either case, with ASCII white space around it.\<close>

definition same_letter :: "char \<Rightarrow> char \<Rightarrow> bool" where
  "same_letter c c' \<longleftrightarrow> c = c' \<or> (\<exists>k < 26 :: nat. {c, c'} = {char_of (65 + k), char_of (97 + k)})"

definition spells :: "string \<Rightarrow> string \<Rightarrow> bool" where
  "spells a s \<longleftrightarrow> is_ascii a \<and> a \<noteq> '''' \<and> hd a \<notin> set ascii_spaces \<and> last a \<notin> set ascii_spaces
     \<and> (\<exists>pre core post. s = pre @ core @ post \<and> set pre \<subseteq> set ascii_spaces \<and> set post \<subseteq> set ascii_spaces \<and> list_all2 same_letter a core)"

lemma two_cases:
  assumes "k < (26 :: nat)"
  shows "ascii_lower (char_of (65 + k)) = char_of (97 + k)" "ascii_lower (char_of (97 + k)) = char_of (97 + k)"
    "(of_char (char_of (65 + k) :: char) :: nat) < 128" "(of_char (char_of (97 + k) :: char) :: nat) < 128"
    "(char_of (65 + k) :: char) \<notin> set ascii_spaces" "(char_of (97 + k) :: char) \<notin> set ascii_spaces"
proof -
  have o: "(of_char (char_of (65 + k) :: char) :: nat) = 65 + k" "(of_char (char_of (97 + k) :: char) :: nat) = 97 + k"
    using assms by (simp_all add: of_char_of)
  then show "(of_char (char_of (65 + k) :: char) :: nat) < 128" "(of_char (char_of (97 + k) :: char) :: nat) < 128" using assms by simp_all
  show "ascii_lower (char_of (65 + k)) = char_of (97 + k)" "ascii_lower (char_of (97 + k)) = char_of (97 + k)"
    using o assms by (simp_all add: ascii_lower_def Let_def ac_simps)
  have "\<forall>c\<in>set ascii_spaces. (of_char c :: nat) < 64" by (simp add: ascii_spaces_def of_char_of)
  then show "(char_of (65 + k) :: char) \<notin> set ascii_spaces" "(char_of (97 + k) :: char) \<notin> set ascii_spaces" using o by force+
qed

lemma same_letter_lower:
  assumes "same_letter c c'" "(of_char c :: nat) < 128"
  shows "ascii_lower c' = ascii_lower c \<and> (of_char c' :: nat) < 128 \<and> (c' \<in> set ascii_spaces \<longleftrightarrow> c \<in> set ascii_spaces)"
proof (cases "c = c'")
  case False
  with assms(1) obtain k :: nat where k: "k < 26" "{c, c'} = {char_of (65 + k), char_of (97 + k)}" unfolding same_letter_def by blast
  from k(2) consider "c = char_of (65 + k)" "c' = char_of (97 + k)" | "c = char_of (97 + k)" "c' = char_of (65 + k)"
    by (auto simp: doubleton_eq_iff)
  then show ?thesis using two_cases [OF k(1)] by cases simp_all
qed (use assms in simp)

lemma core_lower:
  assumes "list_all2 same_letter a core" "is_ascii a"
  shows "map ascii_lower core = map ascii_lower a \<and> is_ascii core \<and> length core = length a
    \<and> (a \<noteq> '''' \<longrightarrow> (hd core \<in> set ascii_spaces \<longleftrightarrow> hd a \<in> set ascii_spaces) \<and> (last core \<in> set ascii_spaces \<longleftrightarrow> last a \<in> set ascii_spaces))"
  using assms
proof (induction rule: list_all2_induct)
  case (Cons c as c' bs)
  have "(of_char c :: nat) < 128" "is_ascii as" using Cons.prems by (simp_all add: is_ascii_def)
  then show ?case using Cons.IH same_letter_lower [OF Cons.hyps(1)] by (auto simp: is_ascii_def)
qed (simp add: is_ascii_def)

lemma dropWhile_pad: "set pre \<subseteq> S \<Longrightarrow> xs \<noteq> [] \<Longrightarrow> hd xs \<notin> S \<Longrightarrow> dropWhile (\<lambda>c. c \<in> S) (pre @ xs) = xs"
  by (induction pre) (auto simp: neq_Nil_conv)

lemma spells_both:
  assumes "spells a s"
  shows "is_ascii s \<and> NormalizeEmail u s = map ascii_lower a"
proof -
  from assms obtain pre core post where s: "s = pre @ core @ post" "set pre \<subseteq> set ascii_spaces" "set post \<subseteq> set ascii_spaces"
    "list_all2 same_letter a core" and a: "is_ascii a" "a \<noteq> ''''" "hd a \<notin> set ascii_spaces" "last a \<notin> set ascii_spaces"
    unfolding spells_def by blast
  note core = core_lower [OF s(4) a(1)]
  have ne: "core \<noteq> []" using core a(2) by auto
  have "\<forall>c\<in>set ascii_spaces. (of_char c :: nat) < 128" by (simp add: ascii_spaces_def of_char_of)
  then have "is_ascii s" using s(2,3) core by (auto simp: s(1) is_ascii_def list_all_iff)
  moreover have "dropWhile (\<lambda>c. c \<in> set ascii_spaces) s = core @ post"
    unfolding s(1) using s(2) ne core a by (intro dropWhile_pad) auto
  moreover have "dropWhile (\<lambda>c. c \<in> set ascii_spaces) (rev post @ rev core) = rev core"
    using s(3) ne core a by (intro dropWhile_pad) (auto simp: hd_rev)
  ultimately have "TrimSpace s = core" using TrimSpace_ascii [of s] by simp
  then show ?thesis using NormalizeEmail_ascii [OF \<open>is_ascii s\<close>, of u] \<open>is_ascii s\<close> core by simp
qed

lemmas spells_ascii = spells_both [THEN conjunct1] and spells_normal = spells_both [THEN conjunct2]

section \<open>Through the handler\<close>

text \<open>A delivery asks for the id of an address, as typed; a row of the outbox replies with an id.\<close>

definition asks :: "json_codec \<Rightarrow> IdentityHandler \<Rightarrow> Delivery \<Rightarrow> string \<Rightarrow> bool" where
  "asks cd h d e \<longleftrightarrow> ih_Validate h (dv_Body d) = None
     \<and> (\<exists>env data. UnmarshalEnvelope cd (dv_Body d) = Some env \<and> Type env = ih_LookupKey h
          \<and> UnmarshalLookup cd (Data env) = Some data \<and> lk_Email data = e)"

definition replies :: "json_codec \<Rightarrow> string \<Rightarrow> OutboxRow \<Rightarrow> bool" where
  "replies cd m row \<longleftrightarrow> (\<exists>env res. Marshal cd env = Some (Payload row) \<and> Data env = Resolved res \<and> rs_MasterID res = m)"

lemma identity_sinks_db:
  "db (snd (identity_park h d reason ora w)) = db w" "db (snd (identity_retryOrPark h d ora w)) = db w"
  by (auto simp: identity_retryOrPark_def identity_park_def bindE_def sendE_def emitE_def ack_def nack_def retE_def Let_def
      split: sum.split prod.split)

lemma tryE_tail_db:
  assumes "tryE m f ora w = (x, w')" "\<And>r ora w. db (snd (f r ora w)) = db w" "m ora w = (r, u)"
  shows "db w' = db u"
  using assms(1,3) assms(2) [of r ora u] by (simp add: tryE_def)

lemma identity_tails_db:
  "db (snd ((case r of Inl err \<Rightarrow> identity_retryOrPark h d
             | Inr result \<Rightarrow> bindE (ack d) (\<lambda>_.
                 if rr_Duplicate result then retE ()
                 else if rr_Held result then emitE (Alert ''erased_email_lookup_held'')
                 else whenE (ih_Notify h) (emitE Kicked))) ora w)) = db w"
  "db (snd ((case q of Inl err \<Rightarrow> identity_retryOrPark h d
             | Inr result \<Rightarrow> bindE (ack d) (\<lambda>_.
                 if res_Duplicate result then retE () else whenE (ih_Notify h) (emitE Kicked))) ora w)) = db w"
  using identity_sinks_db(2) [of h d ora w]
  by (auto simp: bindE_def ack_def emitE_def retE_def whenE_def split: sum.split)

text \<open>What one delivery does to the database: nothing, one lookup's transaction, or one erasure's.\<close>

lemma identity_Process_db:
  assumes "identity_Process cd h d ora w = (x, w')"
  shows "db w' = db w
    \<or> (\<exists>env data r u. TxResolver_Resolve cd (ih_Resolver h) env data ora w = (r, u) \<and> db w' = db u
         \<and> (\<forall>e. asks cd h d e \<longrightarrow> lk_Email data = NormalizeEmail (tr_UnicodeLower (ih_Resolver h)) e))
    \<or> (\<exists>env r u. erasure_Handle cd (identity_eraser cd (ih_Resolver h)) env ora w = (r, u) \<and> db w' = db u \<and> (\<forall>e. \<not> asks cd h d e))"
proof -
  have parked: "db w' = db w" if "identity_park h d reason ora w = (x, w')" for reason
    using identity_sinks_db(1) [of h d reason ora w] that by simp
  show ?thesis
  proof (cases "ih_Validate h (dv_Body d) \<noteq> None \<or> UnmarshalEnvelope cd (dv_Body d) = None")
    case True
    then show ?thesis using assms parked
      by (cases "UnmarshalEnvelope cd (dv_Body d)") (auto simp: identity_Process_def DecodeIncoming_def split: option.splits)
  next
    case False
    then obtain env where e: "ih_Validate h (dv_Body d) = None" "UnmarshalEnvelope cd (dv_Body d) = Some env" by auto
    note P = assms [unfolded identity_Process_def DecodeIncoming_def e option.case sum.case]
    show ?thesis
    proof (cases "Type env = ih_LookupKey h")
      case True
      then have run: "processLookup cd h d env ora w = (x, w')" using P by simp
      show ?thesis
      proof (cases "UnmarshalLookup cd (Data env)")
        case None
        then show ?thesis using run parked by (simp add: processLookup_def)
      next
        case (Some data0)
        define data where "data = data0\<lparr>lk_Email := NormalizeEmail (tr_UnicodeLower (ih_Resolver h)) (lk_Email data0)\<rparr>"
        show ?thesis
        proof (cases "lk_Email data = ''''")
          case True
          then show ?thesis using run Some parked by (simp add: processLookup_def Let_def data_def)
        next
          case False
          obtain r u where r: "TxResolver_Resolve cd (ih_Resolver h) env data ora w = (r, u)" by fastforce
          have "tryE (TxResolver_Resolve cd (ih_Resolver h) env data) (\<lambda>r. case r of
               Inl err \<Rightarrow> identity_retryOrPark h d
             | Inr result \<Rightarrow> bindE (ack d) (\<lambda>_.
                 if rr_Duplicate result then retE ()
                 else if rr_Held result then emitE (Alert ''erased_email_lookup_held'')
                 else whenE (ih_Notify h) (emitE Kicked))) ora w = (x, w')"
            using run Some False by (simp add: processLookup_def Let_def data_def)
          from tryE_tail_db [OF this identity_tails_db(1) r] have "db w' = db u" .
          moreover have "lk_Email data = NormalizeEmail (tr_UnicodeLower (ih_Resolver h)) e'" if "asks cd h d e'" for e'
            using that e Some by (auto simp: asks_def data_def)
          ultimately show ?thesis using r by blast
        qed
      qed
    next
      case other: False
      show ?thesis
      proof (cases "Type env = ih_ErasureKey h")
        case True
        obtain r u where r: "erasure_Handle cd (identity_eraser cd (ih_Resolver h)) env ora w = (r, u)" by fastforce
        have "processErasure cd h d env ora w = (x, w')" using P True other by simp
        from tryE_tail_db [OF this [unfolded processErasure_def] identity_tails_db(2) r] have "db w' = db u" .
        moreover have "\<not> asks cd h d e'" for e' using other e by (auto simp: asks_def)
        ultimately show ?thesis using r by blast
      next
        case False
        then have "db w' = db w" using P other by (auto simp: ack_def emitE_def)
        then show ?thesis ..
      qed
    qed
  qed
qed

lemma identity_Process_kept:
  assumes "identity_Process cd h d ora w = (x, w')" "kept_or_erased (ih_Resolver h) e m (db w)"
    "NormalizeEmail (tr_UnicodeLower (ih_Resolver h)) e = e"
  shows "kept_or_erased (ih_Resolver h) e m (db w')"
  using identity_Process_db [OF assms(1)] lookup_kept [OF _ assms(2,3)] erase_kept [OF _ assms(2,3)] assms(2) by metis

lemma identity_run_kept:
  "consumer_run (identity_Process cd h) evs ora w = (x, w') \<Longrightarrow> kept_or_erased (ih_Resolver h) e m (db w) \<Longrightarrow>
   NormalizeEmail (tr_UnicodeLower (ih_Resolver h)) e = e \<Longrightarrow> kept_or_erased (ih_Resolver h) e m (db w')"
proof (induction evs arbitrary: w rule: taken.induct)
  case (4 d evs)
  obtain r u where p: "identity_Process cd h d ora w = (r, u)" by fastforce
  then have "r = Inr ()" using identity_Process_done by blast
  with p 4 show ?case using identity_Process_kept [OF p 4(3,4)] by (simp add: bindE_def)
qed (auto simp: retE_def)

text \<open>A lookup that is answered: the row it adds replies with the id the table has for the canonical address.\<close>

lemma answered_lookup:
  assumes "identity_Process cd h d ora w = (x, w')" "asks cd h d e"
    "outbox (db w') = outbox (db w) @ [row]"
  shows "\<exists>m env data res u. replies cd m row \<and> TxResolver_Resolve cd (ih_Resolver h) env data ora w = (Inr res, u) \<and> db w' = db u
     \<and> lk_Email data = NormalizeEmail (tr_UnicodeLower (ih_Resolver h)) e \<and> \<not> rr_Duplicate res \<and> \<not> rr_Held res \<and> rr_MasterID res = m"
proof -
  from identity_Process_db [OF assms(1)] assms(2,3) obtain env data r u where
    r: "TxResolver_Resolve cd (ih_Resolver h) env data ora w = (r, u)" "db w' = db u"
    "lk_Email data = NormalizeEmail (tr_UnicodeLower (ih_Resolver h)) e" by auto
  from lookup_answer [OF r(1)] assms(3) r(2) obtain res where res: "r = Inr res" "\<not> rr_Duplicate res" "\<not> rr_Held res"
    by (cases r) (auto split: if_splits)
  with lookup_answer [OF r(1)] obtain eid now payload where
    "Marshal cd \<lparr>ID = eid, Type = tr_ResolvedKey (ih_Resolver h), Source = tr_Source (ih_Resolver h), SchemaVersion = 1, EnvelopeVersion = 1,
        OccurredAt = now, CorrelationID = CorrelationID env, CausationID = Some (ID env),
        Data = Resolved \<lparr>rs_RequestID = lk_RequestID data, rs_Email = lk_Email data, rs_MasterID = rr_MasterID res\<rparr>\<rparr> = Some payload"
    "outbox (db u) = outbox (db w) @ [\<lparr>Row_ID = eid, RoutingKey = tr_ResolvedKey (ih_Resolver h), Payload = payload,
        Status = Pending, Attempts = 0, LastError = None, CreatedAt = now, SentAt = ''''\<rparr>]" by auto
  then have "replies cd (rr_MasterID res) row" using assms(3) r(2) unfolding replies_def by (auto intro!: exI)
  then show ?thesis using r res by blast
qed

text \<open>C23: a mailbox has one id, however it is spelled. Take two lookups that Identity's consumer is delivered,
  whose addresses, as typed, spell one ASCII address: the letters in either case, white space around.
  Between them the consumer runs on any deliveries (lookups, erasures, redeliveries, anything), and
  whatever fails on the way. If each of the two adds a reply to the outbox, both replies carry the
  same masterId.\<close>

theorem mailbox_has_one_id:
  assumes "id_ok (db w)" and "spells a e1" and "spells a e2" and "asks cd h d1 e1" and "asks cd h d2 e2"
    and "identity_Process cd h d1 ora w = (x1, w1)" and "outbox (db w1) = outbox (db w) @ [row1]"
    and "identity_Run cd h evs ora' w1 = (y, w2)"
    and "identity_Process cd h d2 ora'' w2 = (x2, w3)" and "outbox (db w3) = outbox (db w2) @ [row2]"
  shows "\<exists>m. replies cd m row1 \<and> replies cd m row2"
proof -
  let ?r = "ih_Resolver h" and ?N = "NormalizeEmail (tr_UnicodeLower (ih_Resolver h))"
  define e where "e = ?N e1"
  have same: "?N e2 = e" using spells_normal [OF assms(2)] spells_normal [OF assms(3)] by (simp add: e_def)
  have "is_ascii e1" by (rule spells_ascii [OF assms(2)])
  then have ne: "?N e = e" unfolding e_def by (rule NormalizeEmail_idem)
  from answered_lookup [OF assms(6,4,7)] obtain m1 env1 data1 res1 u1 where 1: "replies cd m1 row1"
    "TxResolver_Resolve cd ?r env1 data1 ora w = (Inr res1, u1)" "db w1 = db u1" "lk_Email data1 = e" "\<not> rr_Duplicate res1" "\<not> rr_Held res1" "rr_MasterID res1 = m1"
    unfolding e_def by blast
  from answered_lookup [OF assms(9,5,10)] same obtain m2 env2 data2 res2 u3 where 2: "replies cd m2 row2"
    "TxResolver_Resolve cd ?r env2 data2 ora'' w2 = (Inr res2, u3)" "db w3 = db u3" "lk_Email data2 = e" "\<not> rr_Duplicate res2" "\<not> rr_Held res2" "rr_MasterID res2 = m2"
    by metis
  have "master_of (db w1) e = Some m1" using lookup_master [OF 1(2,5,6)] 1(3,4,7) by simp
  moreover have "id_ok (db w1)" using lookup_ok [OF 1(2) assms(1)] 1(3) by simp
  ultimately have "kept_or_erased ?r e m1 (db w1)" by (simp add: kept_or_erased_def)
  from identity_run_kept [OF assms(8) [unfolded identity_Run_def] this ne] have k2: "kept_or_erased ?r e m1 (db w2)" .
  have "\<not> suppressed (db w2) (tr_HashEmail ?r e)"
    using lookup_suppressed [OF 2(2)] 2(4-6) ne by auto
  with k2 have "kept_or_erased ?r e m1 (db w2)" "master_of (db w2) e = Some m1" by (auto simp: kept_or_erased_def)
  from lookup_kept [OF 2(2) this(1) ne] have "kept_or_erased ?r e m1 (db u3)" .
  then have "m2 = m1" using lookup_master [OF 2(2,5,6)] 2(4,7) by (auto simp: kept_or_erased_def)
  then show ?thesis using 1(1) 2(1) by blast
qed

definition demo_fresh :: env_oracle where
  "demo_fresh = demo_calm\<lparr>o_uuid := \<lambda>n. replicate n (CHR ''u'')\<rparr>"

definition mail_codec :: json_codec where
  "mail_codec = demo_codec\<lparr>Marshal := \<lambda>env. (case Data env of Resolved res \<Rightarrow> Some (rs_MasterID res) | _ \<Rightarrow> None),
     UnmarshalEnvelope := \<lambda>b. Some ((demo_env b b)\<lparr>Type := ''lookup''\<rparr>)\<rparr>"

definition mail_handler :: IdentityHandler where
  "mail_handler = \<lparr>sk_Policy = \<lparr>MaxAttempts = 3, BaseMs = 100, Multiplier = 2, MaxMs = 1000\<rparr>, sk_Retry = True, sk_Park = True,
     ih_Validate = (\<lambda>_. None), ih_Resolver = demo_resolver, ih_Notify = True, ih_LookupKey = ''lookup'', ih_ErasureKey = ''erasure''\<rparr>"

definition mail_world :: "identity_db world" where
  "mail_world = demo_ids\<lparr>db := (db demo_ids)\<lparr>identities := []\<rparr>\<rparr>"

abbreviation mail :: "string \<Rightarrow> Delivery" where
  "mail e \<equiv> \<lparr>dv_Body = e, dv_Headers = None\<rparr>"

lemma mail_spells: "spells ''a@b'' '' A@B''" "spells ''a@b'' ''a@b''"
proof -
  have c: "char_of (65 :: nat) = CHR ''A''" "char_of (97 :: nat) = CHR ''a''" "char_of (66 :: nat) = CHR ''B''" "char_of (98 :: nat) = CHR ''b''" by code_simp+
  have "{CHR ''a'', CHR ''A''} = {char_of (65 + 0 :: nat), char_of (97 + 0 :: nat)}" "{CHR ''b'', CHR ''B''} = {char_of (65 + 1 :: nat), char_of (97 + 1 :: nat)}"
    by (auto simp: c)
  then have "\<exists>k < 26 :: nat. {CHR ''a'', CHR ''A''} = {char_of (65 + k), char_of (97 + k)}" "\<exists>k < 26 :: nat. {CHR ''b'', CHR ''B''} = {char_of (65 + k), char_of (97 + k)}"
    by (intro exI [of _ 0], simp, intro exI [of _ 1], simp)
  then have "list_all2 same_letter ''a@b'' ''A@B''" by (simp add: same_letter_def)
  moreover have "list_all2 same_letter ''a@b'' ''a@b''" by (simp add: same_letter_def)
  moreover have "is_ascii ''a@b''" "CHR '' '' \<in> set ascii_spaces" "CHR ''a'' \<notin> set ascii_spaces" "CHR ''b'' \<notin> set ascii_spaces"
    by (simp add: is_ascii_def) code_simp+
  ultimately have core: "list_all2 same_letter ''a@b'' ''A@B''" "list_all2 same_letter ''a@b'' ''a@b''" "is_ascii ''a@b''"
    "CHR '' '' \<in> set ascii_spaces" "CHR ''a'' \<notin> set ascii_spaces" "CHR ''b'' \<notin> set ascii_spaces" by blast+
  have "'' A@B'' = '' '' @ ''A@B'' @ ''''" "set '' '' \<subseteq> set ascii_spaces" using core(4) by simp_all
  then have "\<exists>pre core post. '' A@B'' = pre @ core @ post \<and> set pre \<subseteq> set ascii_spaces \<and> set post \<subseteq> set ascii_spaces \<and> list_all2 same_letter ''a@b'' core"
    using core(1) by (metis empty_set empty_subsetI)
  moreover have "\<exists>pre core post. ''a@b'' = pre @ core @ post \<and> set pre \<subseteq> set ascii_spaces \<and> set post \<subseteq> set ascii_spaces \<and> list_all2 same_letter ''a@b'' core"
    using core(2) by (metis append.left_neutral append_Nil2 empty_set empty_subsetI)
  ultimately show "spells ''a@b'' '' A@B''" "spells ''a@b'' ''a@b''" unfolding spells_def using core(3,5,6) by simp_all
qed

theorem mailbox_has_one_id_witness:
  "\<exists>x1 w1 x2 w3 row1 row2. identity_Process mail_codec mail_handler (mail '' A@B'') demo_fresh mail_world = (x1, w1)
     \<and> identity_Process mail_codec mail_handler (mail ''a@b'') demo_fresh w1 = (x2, w3)
     \<and> outbox (db w3) = [row1, row2] \<and> (\<exists>m. replies mail_codec m row1 \<and> replies mail_codec m row2)"
proof -
  note run_defs = io_defs EnqueueEnvelope_def Enqueue_def InboxHasSeen_def InboxMarkSeen_def seen_def ResolveOrMint_def insert_identity_def
    master_of_def BuildResolved_def NewCausedEnvelope_def demo_fresh_def demo_calm_def demo_env_def demo_ids_def demo_codec_def demo_resolver_def
    demo_normal demo_shouted TxResolver_Resolve_def resolve_body_def IsEmailSuppressed_def suppressed_def Let_def
    identity_Process_def DecodeIncoming_def processLookup_def mail_codec_def mail_handler_def mail_world_def ack_def
  let ?P = "\<lambda>e. identity_Process mail_codec mail_handler (mail e) demo_fresh"
  obtain x1 w1 where p1: "?P '' A@B'' mail_world = (x1, w1)" by fastforce
  obtain x2 w3 where p2: "?P ''a@b'' w1 = (x2, w3)" by fastforce
  have "\<exists>row. outbox (db (snd (?P '' A@B'' mail_world))) = [row]" by (simp add: run_defs)
  then obtain row1 where o1: "outbox (db w1) = [row1]" using p1 by auto
  have "\<exists>r1 r2. outbox (db (snd (?P ''a@b'' (snd (?P '' A@B'' mail_world))))) = [r1, r2]" by (simp add: run_defs)
  then obtain r1 row2 where "outbox (db w3) = [r1, row2]" using p1 p2 by auto
  moreover have "\<exists>r2. outbox (db (snd (?P ''a@b'' (snd (?P '' A@B'' mail_world))))) = outbox (db (snd (?P '' A@B'' mail_world))) @ [r2]" by (simp add: run_defs)
  then have "\<exists>r2. outbox (db w3) = outbox (db w1) @ [r2]" using p1 p2 by simp
  ultimately have o3: "outbox (db w3) = outbox (db w1) @ [row2]" using o1 by auto
  have "outbox (db w1) = outbox (db mail_world) @ [row1]" "id_ok (db mail_world)" by (simp_all add: o1 mail_world_def demo_ids_def id_ok_def)
  moreover have "asks mail_codec mail_handler (mail e) e" for e by (simp add: asks_def mail_codec_def mail_handler_def demo_codec_def demo_env_def)
  moreover have "identity_Run mail_codec mail_handler [] demo_fresh w1 = (Inr (), w1)" by (simp add: identity_Run_def retE_def)
  ultimately have "\<exists>m. replies mail_codec m row1 \<and> replies mail_codec m row2"
    using mailbox_has_one_id [OF _ mail_spells _ _ p1 _ _ p2 o3] by blast
  then show ?thesis using p1 p2 o1 o3 by auto
qed

end
