(* ===== verification/Lap_Rules.thy ===== *)
theory Lap_Rules
  imports Wire_Time "HOL-Library.Sublist"
begin

text \<open>
  Timing's pure rules (services/timing/internal/domain): crossings of the start-finish line become
  laps, laps become personal records. Times are nanoseconds, a lap time is the difference of two
  crossings in whole milliseconds.
\<close>

section \<open>services/timing/internal/domain/laps.go\<close>

record TimingLap =
  tl_LapNumber :: int
  tl_LapTimeMs :: int

datatype Outcome = StartMarker | Rejected | Counted

fun Outcome_String :: "Outcome \<Rightarrow> string" where
  "Outcome_String StartMarker = ''StartMarker''"
| "Outcome_String Rejected = ''Rejected''"
| "Outcome_String Counted = ''Counted''"

record LapTracker =
  lt_MinLapTimeMs :: int
  lt_prev :: int
  lt_hasPrev :: bool
  lt_lapCount :: int

definition NewTracker :: "int \<Rightarrow> LapTracker" where
  "NewTracker minMs = \<lparr>lt_MinLapTimeMs = minMs, lt_prev = zeroTime, lt_hasPrev = False, lt_lapCount = 0\<rparr>"

definition ResetTracker :: "LapTracker \<Rightarrow> LapTracker" where
  "ResetTracker l = l\<lparr>lt_hasPrev := False, lt_prev := zeroTime\<rparr>"

definition noLap :: TimingLap where "noLap = \<lparr>tl_LapNumber = 0, tl_LapTimeMs = 0\<rparr>"

definition Cross :: "LapTracker \<Rightarrow> int \<Rightarrow> LapTracker \<times> TimingLap \<times> Outcome" where
  "Cross l t =
     (if \<not> lt_hasPrev l then (l\<lparr>lt_prev := t, lt_hasPrev := True\<rparr>, noLap, StartMarker)
      else
        let delta = milliseconds (timeSub t (lt_prev l))
        in if lt_MinLapTimeMs l > 0 \<and> delta < lt_MinLapTimeMs l then (l, noLap, Rejected)
           else
             let n = wrap64 (lt_lapCount l + 1)
             in (l\<lparr>lt_prev := t, lt_lapCount := n\<rparr>, \<lparr>tl_LapNumber = n, tl_LapTimeMs = delta\<rparr>, Counted))"

section \<open>services/timing/internal/domain/pr.go\<close>

definition CheckPR :: "int option \<Rightarrow> int \<Rightarrow> bool \<times> int option" where
  "CheckPR current lapMs =
     (case current of
        None \<Rightarrow> (True, None)
      | Some c \<Rightarrow> if lapMs < c then (True, Some c) else (False, None))"

section \<open>A driver's crossings\<close>

text \<open>The laps a sequence of crossings gives, each with the crossing that closed it.\<close>

fun cross_all :: "LapTracker \<Rightarrow> int list \<Rightarrow> LapTracker \<times> (int \<times> TimingLap) list" where
  "cross_all l [] = (l, [])"
| "cross_all l (t # ts) =
     (case Cross l t of (l', lap, out) \<Rightarrow>
        (case cross_all l' ts of (l'', laps) \<Rightarrow> (l'', (if out = Counted then [(t, lap)] else []) @ laps)))"

text \<open>Lap times of consecutive counted crossings, starting from the crossing \<open>s\<close>.\<close>

fun lap_times :: "int \<Rightarrow> int list \<Rightarrow> int list" where
  "lap_times s [] = []"
| "lap_times s (t # ts) = milliseconds (timeSub t s) # lap_times t ts"

lemma Cross_facts:
  assumes "Cross l t = (l', lap, out)"
  shows "lt_MinLapTimeMs l' = lt_MinLapTimeMs l" "lt_hasPrev l'"
    "out = Counted \<Longrightarrow> lt_hasPrev l \<and> lt_prev l' = t \<and> lt_lapCount l' = wrap64 (lt_lapCount l + 1) \<and> tl_LapNumber lap = lt_lapCount l'
       \<and> tl_LapTimeMs lap = milliseconds (timeSub t (lt_prev l)) \<and> (0 < lt_MinLapTimeMs l \<longrightarrow> lt_MinLapTimeMs l \<le> tl_LapTimeMs lap)"
    "out = Rejected \<Longrightarrow> l' = l \<and> lt_hasPrev l \<and> milliseconds (timeSub t (lt_prev l)) < lt_MinLapTimeMs l"
    "out = StartMarker \<Longrightarrow> \<not> lt_hasPrev l \<and> lt_prev l' = t \<and> lt_lapCount l' = lt_lapCount l"
  using assms by (auto simp: Cross_def Let_def split: if_splits)

text \<open>A tracker with a baseline whose count is far from the end of the 64 bits.\<close>

definition ready :: "LapTracker \<Rightarrow> nat \<Rightarrow> bool" where
  "ready l n \<longleftrightarrow> lt_hasPrev l \<and> 0 \<le> lt_lapCount l \<and> lt_lapCount l + int n < 2 ^ 63"

lemma Cross_ready:
  assumes "Cross l t = (l', lap, out)" "ready l (Suc n)"
  obtains (counted) "out = Counted" "lt_prev l' = t" "lt_lapCount l' = lt_lapCount l + 1" "ready l' n"
      "lt_MinLapTimeMs l' = lt_MinLapTimeMs l" "tl_LapNumber lap = lt_lapCount l + 1" "tl_LapTimeMs lap = milliseconds (timeSub t (lt_prev l))"
      "0 < lt_MinLapTimeMs l \<Longrightarrow> lt_MinLapTimeMs l \<le> tl_LapTimeMs lap"
  | (rejected) "out = Rejected" "l' = l" "ready l n" "0 < lt_MinLapTimeMs l"
proof (cases out)
  case StartMarker
  then show ?thesis using assms by (auto simp: Cross_def ready_def Let_def split: if_splits)
next
  case Rejected
  then show ?thesis using assms rejected by (auto simp: Cross_def ready_def Let_def split: if_splits)
next
  case Counted
  have "in64 (lt_lapCount l + 1)" using assms(2) by (simp add: ready_def in64_def)
  then show ?thesis using assms counted Counted Cross_facts [OF assms(1)] by (auto simp: ready_def)
qed

lemma cross_all_from:
  "cross_all l ts = (l', laps) \<Longrightarrow> ready l (length ts) \<Longrightarrow>
   map (tl_LapNumber \<circ> snd) laps = map (\<lambda>i. lt_lapCount l + int i + 1) [0..<length laps]
   \<and> map (tl_LapTimeMs \<circ> snd) laps = lap_times (lt_prev l) (map fst laps)
   \<and> (0 < lt_MinLapTimeMs l \<longrightarrow> (\<forall>p\<in>set laps. lt_MinLapTimeMs l \<le> tl_LapTimeMs (snd p)))
   \<and> subseq (map fst laps) ts \<and> (lt_MinLapTimeMs l \<le> 0 \<longrightarrow> map fst laps = ts)"
proof (induction ts arbitrary: l laps)
  case (Cons t ts)
  obtain l1 lap out where c: "Cross l t = (l1, lap, out)" by (metis prod_cases3)
  obtain laps1 where r: "cross_all l1 ts = (l', laps1)" and laps: "laps = (if out = Counted then [(t, lap)] else []) @ laps1"
    using Cons.prems(1) c by (auto split: prod.splits)
  from Cons.prems(2) have "ready l (Suc (length ts))" by simp
  with c show ?case
  proof (cases rule: Cross_ready)
    case counted
    have "map (\<lambda>i. lt_lapCount l + int i + 1) [0..<length laps]
        = (lt_lapCount l + 1) # map (\<lambda>i. lt_lapCount l1 + int i + 1) [0..<length laps1]"
      using laps counted(1,3) by (simp add: upt_conv_Cons map_Suc_upt [symmetric] del: upt_Suc)
    then show ?thesis using Cons.IH [OF r counted(4)] laps counted by auto
  next
    case rejected
    then show ?thesis using Cons.IH [OF r] laps by auto
  qed
qed simp

text \<open>C24: how crossings become laps. For a fresh tracker and any crossings (fewer than \<open>2 ^ 63\<close>): without
  crossings there is no lap; otherwise the first crossing starts the clock, the counted crossings are
  a subsequence of the others (all of them when the filter is off), the laps are numbered 1, 2, 3 and
  so on in order, each lap's time is the milliseconds between its crossing and the counted crossing
  before it (the start marker for the first), and with the filter on no lap is shorter than the
  minimum.\<close>

theorem crossings_become_laps:
  assumes "cross_all (NewTracker minMs) (t0 # ts) = (l, laps)" and "int (length ts) < 2 ^ 63"
  shows "map (tl_LapNumber \<circ> snd) laps = map (\<lambda>i. int i + 1) [0..<length laps]
    \<and> map (tl_LapTimeMs \<circ> snd) laps = lap_times t0 (map fst laps)
    \<and> (0 < minMs \<longrightarrow> (\<forall>p\<in>set laps. minMs \<le> tl_LapTimeMs (snd p)))
    \<and> subseq (map fst laps) ts \<and> (minMs \<le> 0 \<longrightarrow> map fst laps = ts)"
proof -
  let ?l = "(NewTracker minMs)\<lparr>lt_prev := t0, lt_hasPrev := True\<rparr>"
  have "cross_all ?l ts = (l, laps)" using assms(1) by (auto simp: Cross_def NewTracker_def split: prod.splits)
  from cross_all_from [OF this] assms(2) show ?thesis by (simp add: ready_def NewTracker_def)
qed

theorem crossings_become_laps_witness:
  "int (length [5000000000, 5001000000, 9000000000 :: int]) < 2 ^ 63 \<and>
   map (tl_LapTimeMs \<circ> snd) (snd (cross_all (NewTracker 100) (0 # [5000000000, 5001000000, 9000000000]))) = [5000, 4000]"
proof -
  have f: "snd (cross_all (NewTracker 100) (0 # [5000000000, 5001000000, 9000000000]))
      = [(5000000000, \<lparr>tl_LapNumber = 1, tl_LapTimeMs = 5000\<rparr>), (9000000000, \<lparr>tl_LapNumber = 2, tl_LapTimeMs = 4000\<rparr>)]"
    by code_simp
  have len: "int (length [5000000000, 5001000000, 9000000000 :: int]) < 2 ^ 63" by simp
  from crossings_become_laps [OF prod.collapse [symmetric] len, of 100 0]
  have "map (tl_LapTimeMs \<circ> snd) (snd (cross_all (NewTracker 100) (0 # [5000000000, 5001000000, 9000000000])))
     = lap_times 0 (map fst (snd (cross_all (NewTracker 100) (0 # [5000000000, 5001000000, 9000000000]))))" by (elim conjE)
  also have "\<dots> = [5000, 4000]" unfolding f by code_simp
  finally show ?thesis using len by (intro conjI)
qed

end
