(* ===== verification/Timing_Stores.thy ===== *)
theory Timing_Stores
  imports Lap_Rules Outbox_Relay Consumer_Spine
begin

text \<open>
  Timing's tables (services/timing/internal/persistence): the transponder map, the held line scans,
  the local copy of the personal records, the scanner outages; beside them the in-memory waiters of
  the register-first client. A write through the database handle, outside a transaction, commits by
  itself (\<open>autoE\<close>).
\<close>

section \<open>Upserts\<close>

text \<open>\<open>INSERT \<dots> ON CONFLICT(key) DO UPDATE\<close> on a table whose primary key is \<open>key\<close>.\<close>

definition upsert :: "('r \<Rightarrow> 'k) \<Rightarrow> 'r \<Rightarrow> ('r \<Rightarrow> 'r) \<Rightarrow> 'r list \<Rightarrow> 'r list" where
  "upsert key row merge rows =
     (if key row \<in> key ` set rows then upd_where (\<lambda>r. key r = key row) merge rows else rows @ [row])"

definition row_at :: "('r \<Rightarrow> 'k) \<Rightarrow> 'k \<Rightarrow> 'r list \<Rightarrow> 'r option" where
  "row_at key k rows = find (\<lambda>r. key r = k) rows"

locale keyed_upsert =
  fixes key :: "'r \<Rightarrow> 'k"
    and row :: "'v \<Rightarrow> 'r"
    and merge :: "'v \<Rightarrow> 'r \<Rightarrow> 'r"
  assumes merge_key: "key (merge v r) = key r"
begin

lemma row_at_upd: "row_at key k (upd_where (\<lambda>r. key r = k') (merge v) rows)
    = (if k = k' then map_option (merge v) (row_at key k rows) else row_at key k rows)"
  by (induction rows) (auto simp: row_at_def merge_key)

lemma row_at_snoc: "row_at key k (rows @ [r]) =
    (case row_at key k rows of Some r' \<Rightarrow> Some r' | None \<Rightarrow> if key r = k then Some r else None)"
  by (induction rows) (auto simp: row_at_def)

lemma row_at_None: "row_at key k rows = None \<longleftrightarrow> k \<notin> key ` set rows"
  by (auto simp: row_at_def find_None_iff)

lemma lookup_upsert: "row_at key k (upsert key (row v) (merge v) rows) =
    (if k = key (row v) then Some (case row_at key k rows of None \<Rightarrow> row v | Some r \<Rightarrow> merge v r) else row_at key k rows)"
proof (cases "key (row v) \<in> key ` set rows")
  case True
  then have "row_at key (key (row v)) rows \<noteq> None" by (simp add: row_at_None)
  then show ?thesis using True by (auto simp: upsert_def row_at_upd split: option.splits)
next
  case False
  then have "row_at key (key (row v)) rows = None" by (simp add: row_at_None)
  then show ?thesis using False by (auto simp: upsert_def row_at_snoc split: option.splits)
qed

lemma upsert_distinct: "distinct (map key rows) \<Longrightarrow> distinct (map key (upsert key (row v) (merge v) rows))"
  by (auto simp: upsert_def map_upd_where merge_key)

end

section \<open>The tables\<close>

text \<open>The autoincrement \<open>id\<close> of \<open>held_line_scans\<close>, which nothing reads, is the position in the list;
  that of \<open>scanner_outages\<close> is kept, because \<open>CloseOutage\<close> looks a row up by it.\<close>

record TransponderRow =
  tp_id :: string
  tp_master :: string
  tp_created_at :: string
  tp_updated_at :: string

record HeldScanRow =
  hs_token :: string
  hs_method :: string
  hs_session :: string
  hs_occurred_at :: string
  hs_reason :: string
  hs_recorded_at :: string

record PRRow =
  pr_master :: string
  pr_best :: int
  pr_session :: "string option"
  pr_set_at :: "string option"
  pr_updated_at :: string

record OutageRow =
  ot_id :: int
  ot_scanner :: string
  ot_session :: string
  ot_gap_from :: string
  ot_since :: string
  ot_online_at :: "string option"
  ot_recorded_at :: string

text \<open>\<open>outage_seq\<close> is SQLite's AUTOINCREMENT counter; a waiter is a channel with room for one value.\<close>

record timing_db = core_db +
  transponder_map :: "TransponderRow list"
  held_line_scans :: "HeldScanRow list"
  driver_prs :: "PRRow list"
  scanner_outages :: "OutageRow list"
  outage_seq :: int
  waiters :: "string \<Rightarrow> string option option"

definition autoE :: "('d, 'a) io \<Rightarrow> ('d, 'a) io" where
  "autoE m = bindE m (\<lambda>a. bindE (emitE Committed) (\<lambda>_. retE a))"

section \<open>transponder_store.go\<close>

definition resolveWith :: "string \<Rightarrow> (timing_db, string option) io" where
  "resolveWith transponderID = queryE (\<lambda>d. map_option tp_master (row_at tp_id transponderID (transponder_map d)))"

definition upsertWith :: "string \<Rightarrow> string \<Rightarrow> string \<Rightarrow> (timing_db, unit) io" where
  "upsertWith transponderID masterID now = execE (\<lambda>d. Inr (d\<lparr>transponder_map :=
     upsert tp_id \<lparr>tp_id = transponderID, tp_master = masterID, tp_created_at = now, tp_updated_at = now\<rparr>
       (\<lambda>r. r\<lparr>tp_master := masterID, tp_updated_at := now\<rparr>) (transponder_map d)\<rparr>, ()))"

definition TransponderStore_Resolve :: "string \<Rightarrow> (timing_db, string option) io" where
  "TransponderStore_Resolve transponderID = resolveWith transponderID"

definition Assign :: "string \<Rightarrow> string \<Rightarrow> string \<Rightarrow> (timing_db, bool \<times> string) io" where
  "Assign transponderID masterID now = WithinTx (
     bindE (resolveWith transponderID) (\<lambda>previous.
     bindE (upsertWith transponderID masterID now) (\<lambda>_.
       case previous of
         Some p \<Rightarrow> if p \<noteq> masterID then retE (True, p) else retE (False, '''')
       | None \<Rightarrow> retE (False, ''''))))"

definition Upsert :: "string \<Rightarrow> string \<Rightarrow> string \<Rightarrow> (timing_db, unit) io" where
  "Upsert transponderID masterID now = autoE (upsertWith transponderID masterID now)"

section \<open>held_scan_store.go\<close>

definition RecordHeldScan :: "string \<Rightarrow> string \<Rightarrow> string \<Rightarrow> string \<Rightarrow> string \<Rightarrow> string \<Rightarrow> (timing_db, unit) io" where
  "RecordHeldScan token how sessionID occurredAt reason recordedAt = autoE (execE (\<lambda>d.
     Inr (d\<lparr>held_line_scans := held_line_scans d @ [\<lparr>hs_token = token, hs_method = how, hs_session = sessionID,
       hs_occurred_at = occurredAt, hs_reason = reason, hs_recorded_at = recordedAt\<rparr>]\<rparr>, ())))"

section \<open>pr_store.go\<close>

definition getPRWith :: "string \<Rightarrow> (timing_db, int option) io" where
  "getPRWith masterID = queryE (\<lambda>d. map_option pr_best (row_at pr_master masterID (driver_prs d)))"

definition PRStore_Get :: "string \<Rightarrow> (timing_db, int option) io" where
  "PRStore_Get masterID = getPRWith masterID"

definition upsertPRWith :: "string \<Rightarrow> int \<Rightarrow> string \<Rightarrow> string \<Rightarrow> string \<Rightarrow> (timing_db, unit) io" where
  "upsertPRWith masterID bestLapMs sessionID setAt now = execE (\<lambda>d. Inr (d\<lparr>driver_prs :=
     upsert pr_master \<lparr>pr_master = masterID, pr_best = bestLapMs, pr_session = Some sessionID, pr_set_at = Some setAt, pr_updated_at = now\<rparr>
       (\<lambda>r. r\<lparr>pr_best := bestLapMs, pr_session := Some sessionID, pr_set_at := Some setAt, pr_updated_at := now\<rparr>)
       (driver_prs d)\<rparr>, ()))"

definition ObserveLap :: "string \<Rightarrow> string \<Rightarrow> int \<Rightarrow> string \<Rightarrow> (timing_db, bool \<times> int option) io" where
  "ObserveLap masterID sessionID lapTimeMs at = WithinTx (
     bindE (getPRWith masterID) (\<lambda>cur.
       let (b, prev) = CheckPR cur lapTimeMs
       in bindE (if b then upsertPRWith masterID lapTimeMs sessionID at at else retE ()) (\<lambda>_. retE (b, prev))))"

definition PRStore_Refresh :: "string \<Rightarrow> int \<Rightarrow> string \<Rightarrow> string \<Rightarrow> (timing_db, unit) io" where
  "PRStore_Refresh masterID lapTimeMs setAt now = autoE (execE (\<lambda>d. Inr (d\<lparr>driver_prs :=
     upsert pr_master \<lparr>pr_master = masterID, pr_best = lapTimeMs, pr_session = None, pr_set_at = Some setAt, pr_updated_at = now\<rparr>
       (\<lambda>r. r\<lparr>pr_best := lapTimeMs, pr_set_at := Some setAt, pr_updated_at := now\<rparr>) (driver_prs d)\<rparr>, ())))"

section \<open>scanner_outage_store.go\<close>

definition OpenOutage :: "string \<Rightarrow> string \<Rightarrow> string \<Rightarrow> string \<Rightarrow> string \<Rightarrow> (timing_db, int) io" where
  "OpenOutage scannerID sessionID gapFrom since recordedAt = autoE (execE (\<lambda>d.
     let i = outage_seq d + 1
     in Inr (d\<lparr>outage_seq := i, scanner_outages := scanner_outages d @ [\<lparr>ot_id = i, ot_scanner = scannerID,
          ot_session = sessionID, ot_gap_from = gapFrom, ot_since = since, ot_online_at = None, ot_recorded_at = recordedAt\<rparr>]\<rparr>, i)))"

text \<open>An update of no row is an error; the statement has committed either way, without effect.\<close>

definition CloseOutage :: "int \<Rightarrow> string \<Rightarrow> (timing_db, unit) io" where
  "CloseOutage i onlineAt =
     bindE (autoE (execE (\<lambda>d. Inr (d\<lparr>scanner_outages := upd_where (\<lambda>r. ot_id r = i) (\<lambda>r. r\<lparr>ot_online_at := Some onlineAt\<rparr>) (scanner_outages d)\<rparr>,
        length (filter (\<lambda>r. ot_id r = i) (scanner_outages d)))))) (\<lambda>n.
     if n = 0 then failE NoSuchOutage else retE ())"

section \<open>What an upsert promises, on the three tables\<close>

interpretation transponders: keyed_upsert tp_id
  "\<lambda>(t, m, now). \<lparr>tp_id = t, tp_master = m, tp_created_at = now, tp_updated_at = now\<rparr>"
  "\<lambda>(t, m, now) r. r\<lparr>tp_master := m, tp_updated_at := now\<rparr>"
  by unfold_locales auto

interpretation records: keyed_upsert pr_master
  "\<lambda>(m, b, s, t, now). \<lparr>pr_master = m, pr_best = b, pr_session = Some s, pr_set_at = Some t, pr_updated_at = now\<rparr>"
  "\<lambda>(m, b, s, t, now) r. r\<lparr>pr_best := b, pr_session := Some s, pr_set_at := Some t, pr_updated_at := now\<rparr>"
  by unfold_locales auto

interpretation refreshed: keyed_upsert pr_master
  "\<lambda>(m, b, t, now). \<lparr>pr_master = m, pr_best = b, pr_session = None, pr_set_at = Some t, pr_updated_at = now\<rparr>"
  "\<lambda>(m, b, t, now) r. r\<lparr>pr_best := b, pr_set_at := Some t, pr_updated_at := now\<rparr>"
  by unfold_locales auto

text \<open>The map as the callers see it.\<close>

definition driver_of :: "timing_db \<Rightarrow> string \<Rightarrow> string option" where
  "driver_of d t = map_option tp_master (row_at tp_id t (transponder_map d))"

definition best_lap :: "timing_db \<Rightarrow> string \<Rightarrow> int option" where
  "best_lap d m = map_option pr_best (row_at pr_master m (driver_prs d))"

lemma autoE_Inr: "autoE m ora w = (Inr a, w') \<Longrightarrow> \<exists>u. m ora w = (Inr a, u) \<and> db w' = db u \<and> trace w' = trace u @ [Committed]"
  by (auto simp: autoE_def bindE_eq_Inr emitE_def retE_def)

lemma autoE_Inl: "autoE m ora w = (Inl e, w') \<Longrightarrow> m ora w = (Inl e, w')"
  by (auto simp: autoE_def bindE_def emitE_def retE_def split: prod.splits sum.splits)

lemma upsertWith_Inr: "upsertWith t m now ora w = (Inr u, w') \<Longrightarrow>
    driver_of (db w') t' = (if t' = t then Some m else driver_of (db w) t') \<and> driver_prs (db w') = driver_prs (db w)
    \<and> outbox (db w') = outbox (db w) \<and> inbox (db w') = inbox (db w)"
  using transponders.lookup_upsert [of t' "(t, m, now)" "transponder_map (db w)"]
  by (auto simp: upsertWith_def execE_def driver_of_def split: if_splits option.splits)

text \<open>The latest hand-out wins. A hand-out that fails changes nothing. Otherwise the transponder
  resolves to the new driver, every other transponder resolves as before, and the hand-out is
  reported as a reassignment, with the driver it displaced, exactly when the transponder was
  another driver's.\<close>

theorem Assign_latest_wins:
  "case Assign t m now ora w of
      (Inl e, w') \<Rightarrow> db w' = db w
    | (Inr (reassigned, previous), w') \<Rightarrow>
        (\<forall>t'. driver_of (db w') t' = (if t' = t then Some m else driver_of (db w) t'))
        \<and> (if driver_of (db w) t \<in> {None, Some m} then \<not> reassigned \<and> previous = ''''
           else reassigned \<and> driver_of (db w) t = Some previous)"
proof (cases "Assign t m now ora w")
  case (Pair x w')
  show ?thesis
  proof (cases x)
    case (Inl e)
    then show ?thesis using Pair WithinTx_Inl by (auto simp: Assign_def)
  next
    case (Inr p)
    have "WithinTx (bindE (resolveWith t) (\<lambda>previous.
       bindE (upsertWith t m now) (\<lambda>_. case previous of
         Some p \<Rightarrow> if p \<noteq> m then retE (True, p) else retE (False, '''')
       | None \<Rightarrow> retE (False, '''')))) ora w = (Inr p, w')" using Pair Inr by (simp add: Assign_def)
    from WithinTx_Inr [OF this] obtain u where "bindE (resolveWith t) (\<lambda>previous.
       bindE (upsertWith t m now) (\<lambda>_. case previous of
         Some p \<Rightarrow> if p \<noteq> m then retE (True, p) else retE (False, '''')
       | None \<Rightarrow> retE (False, ''''))) ora (tock w) = (Inr p, u)" "db w' = db u"
      by (elim exE conjE)
    then obtain v where v: "upsertWith t m now ora (tock (tock w)) = (Inr (), v)" "db w' = db v"
      "p = (case driver_of (db w) t of Some q \<Rightarrow> if q \<noteq> m then (True, q) else (False, '''') | None \<Rightarrow> (False, ''''))"
      by (auto simp: bindE_eq_Inr resolveWith_def queryE_def retE_def driver_of_def split: if_splits option.splits)
    show ?thesis using upsertWith_Inr [OF v(1)] v(2,3) Pair Inr by (auto split: option.splits if_splits)
  qed
qed

section \<open>Personal records\<close>

lemma upsertPRWith_Inr: "upsertPRWith m b s t now ora w = (Inr u, w') \<Longrightarrow>
    best_lap (db w') = (best_lap (db w))(m := Some b) \<and> outbox (db w') = outbox (db w)"
  using records.lookup_upsert [of _ "(m, b, s, t, now)" "driver_prs (db w)"]
  by (auto simp: upsertPRWith_def execE_def best_lap_def fun_eq_iff split: if_splits option.splits)

lemma ObserveLap_Inl: "ObserveLap m s l at ora w = (Inl e, w') \<Longrightarrow> db w' = db w"
  unfolding ObserveLap_def by (rule WithinTx_Inl)

definition beat :: "string \<times> int \<Rightarrow> (string \<Rightarrow> int option) \<Rightarrow> string \<Rightarrow> int option" where
  "beat ml p = p(fst ml := Some (case p (fst ml) of None \<Rightarrow> snd ml | Some c \<Rightarrow> min c (snd ml)))"

lemma ObserveLap_Inr:
  assumes "ObserveLap m s l at ora w = (Inr r, w')"
  shows "r = CheckPR (best_lap (db w) m) l \<and> best_lap (db w') = beat (m, l) (best_lap (db w)) \<and> outbox (db w') = outbox (db w)"
proof -
  from WithinTx_Inr [OF assms [unfolded ObserveLap_def]] obtain u where
    "bindE (getPRWith m) (\<lambda>cur. let (b, prev) = CheckPR cur l
       in bindE (if b then upsertPRWith m l s at at else retE ()) (\<lambda>_. retE (b, prev))) ora (tock w) = (Inr r, u)" "db w' = db u"
    by (elim exE conjE)
  then obtain b prev v where v: "CheckPR (best_lap (db w) m) l = (b, prev)" "r = (b, prev)" "db w' = db v"
    "(if b then upsertPRWith m l s at at else retE ()) ora (tock (tock w)) = (Inr (), v)"
    by (auto simp: bindE_eq_Inr getPRWith_def queryE_def best_lap_def retE_def Let_def split: if_splits prod.splits)
  show ?thesis
  proof (cases b)
    case True
    with v have "upsertPRWith m l s at at ora (tock (tock w)) = (Inr (), v)" by simp
    from upsertPRWith_Inr [OF this] v True show ?thesis
      by (auto simp: beat_def CheckPR_def fun_eq_iff min_def split: option.splits if_splits)
  next
    case False
    with v show ?thesis by (auto simp: retE_def beat_def CheckPR_def fun_eq_iff min_def split: option.splits if_splits)
  qed
qed

text \<open>
  Laps observed one after the other, each with what the store answered; the best lap of a driver
  as it ought to be: the minimum of what was known and of the laps the store accepted.
\<close>

type_synonym observation = "string \<times> string \<times> int \<times> string"

fun observe_all :: "observation list \<Rightarrow> (timing_db, (error + bool \<times> int option) list) io" where
  "observe_all [] = retE []"
| "observe_all ((m, s, l, at) # os) =
     tryE (ObserveLap m s l at) (\<lambda>r. bindE (observe_all os) (\<lambda>rs. retE (r # rs)))"

fun accepted :: "observation list \<Rightarrow> (error + bool \<times> int option) list \<Rightarrow> (string \<times> int) list" where
  "accepted ((m, s, l, at) # os) (Inr r # rs) = (m, l) # accepted os rs"
| "accepted (ob # os) (Inl e # rs) = accepted os rs"
| "accepted os rs = []"

definition fastest_lap :: "(string \<Rightarrow> int option) \<Rightarrow> (string \<times> int) list \<Rightarrow> string \<Rightarrow> int option" where
  "fastest_lap known laps m =
     (let S = {l. (m, l) \<in> set laps} \<union> set_option (known m) in if S = {} then None else Some (Min S))"

lemma finite_laps: "finite {l. (m, l) \<in> set (laps :: (string \<times> int) list)}"
  by (rule finite_subset [of _ "snd ` set laps"]) force+

lemma fastest_lap_Nil [simp]: "fastest_lap known [] = known"
  by (auto simp: fastest_lap_def fun_eq_iff split: option.splits)

lemma fastest_lap_Cons: "fastest_lap known ((m, l) # laps) = fastest_lap (beat (m, l) known) laps"
proof (intro ext)
  fix k
  let ?S = "{l. (k, l) \<in> set laps}"
  have f: "finite ?S" by (rule finite_laps)
  show "fastest_lap known ((m, l) # laps) k = fastest_lap (beat (m, l) known) laps k"
  proof (cases "k = m")
    case True
    have "{x. (k, x) \<in> set ((m, l) # laps)} = insert l ?S" using True by auto
    then show ?thesis using f True
      by (cases "known m"; cases "?S = {}") (auto simp: fastest_lap_def beat_def Let_def min.assoc min.commute min.left_commute)
  next
    case False
    then show ?thesis by (simp add: fastest_lap_def beat_def)
  qed
qed

lemma CheckPR_spec: "(broken, previous) = CheckPR c l \<longleftrightarrow>
    (case c of None \<Rightarrow> broken \<and> previous = None | Some c \<Rightarrow> broken = (l < c) \<and> previous = (if l < c then Some c else None))"
  by (auto simp: CheckPR_def split: option.splits)

lemma observe_all_run:
  "observe_all os ora w = (Inr rs, w') \<Longrightarrow>
   length rs = length os \<and> best_lap (db w') = fastest_lap (best_lap (db w)) (accepted os rs)
   \<and> (\<forall>i < length os. \<forall>m s l at broken previous. os ! i = (m, s, l, at) \<longrightarrow> rs ! i = Inr (broken, previous) \<longrightarrow>
        (broken, previous) = CheckPR (fastest_lap (best_lap (db w)) (accepted (take i os) (take i rs)) m) l)"
proof (induction os arbitrary: w rs rule: observe_all.induct)
  case (2 m s l at os)
  obtain x u where x: "ObserveLap m s l at ora w = (x, u)" by fastforce
  with 2(2) obtain rs' where rs': "observe_all os ora u = (Inr rs', w')" "rs = x # rs'"
    by (auto simp: tryE_def bindE_eq_Inr retE_def)
  note IH = 2(1) [OF rs'(1)]
  show ?case
  proof (cases x)
    case (Inl e)
    then have "db u = db w" using x ObserveLap_Inl by simp
    with IH rs'(2) Inl show ?thesis
      by (auto simp: nth_Cons split: nat.splits)
  next
    case (Inr r)
    from ObserveLap_Inr [OF x [unfolded Inr]] have o: "r = CheckPR (best_lap (db w) m) l" "best_lap (db u) = beat (m, l) (best_lap (db w))"
      by auto
    from IH rs'(2) Inr o show ?thesis
      by (auto simp: nth_Cons fastest_lap_Cons split: nat.splits)
  qed
qed (simp add: retE_def)

text \<open>C26: Timing's local copy holds each driver's best lap, and every record is detected once. Whatever
  laps are observed, in whatever order, whichever writes fail: afterwards the copy holds, for every
  driver, the minimum of what it held and of the laps the store accepted; and the i-th answer
  says that a record fell exactly when the lap is strictly faster than the minimum of everything
  accepted before it (or is the driver's first), with that minimum as the value beaten.\<close>

theorem records_are_running_minima:
  assumes "observe_all os ora w = (Inr rs, w')"
  shows "length rs = length os \<and> best_lap (db w') = fastest_lap (best_lap (db w)) (accepted os rs)
   \<and> (\<forall>i < length os. \<forall>m s l at broken previous. os ! i = (m, s, l, at) \<longrightarrow> rs ! i = Inr (broken, previous) \<longrightarrow>
        (case fastest_lap (best_lap (db w)) (accepted (take i os) (take i rs)) m of
           None \<Rightarrow> broken \<and> previous = None
         | Some c \<Rightarrow> broken = (l < c) \<and> previous = (if l < c then Some c else None)))"
  by (rule observe_all_run [OF assms, unfolded CheckPR_spec])

definition demo_timing :: "timing_db world" where
  "demo_timing = \<lparr>db = \<lparr>inbox = [], outbox = [], transponder_map = [], held_line_scans = [],
     driver_prs = [\<lparr>pr_master = ''m'', pr_best = 50, pr_session = Some ''s0'', pr_set_at = None, pr_updated_at = ''''\<rparr>],
     scanner_outages = [], outage_seq = 0, waiters = (\<lambda>_. None)\<rparr>, tick = 0, trace = []\<rparr>"

lemmas demo_timing_run = io_defs ObserveLap_def getPRWith_def upsertPRWith_def upsert_def row_at_def CheckPR_def demo_timing_def demo_calm_def Let_def

theorem records_are_running_minima_witness:
  "\<exists>rs w'. observe_all [(''m'', ''s1'', 40, ''t1''), (''m'', ''s1'', 45, ''t2'')] demo_calm demo_timing = (Inr rs, w')
     \<and> best_lap (db w') = fastest_lap (best_lap (db demo_timing)) (accepted [(''m'', ''s1'', 40, ''t1''), (''m'', ''s1'', 45, ''t2'')] rs)"
  (is "\<exists>rs w'. ?E = (Inr rs, w') \<and> _")
proof -
  have "case fst ?E of Inl e \<Rightarrow> False | Inr r \<Rightarrow> True" by (simp add: demo_timing_run)
  from Inr_result [OF this] obtain rs where E: "?E = (Inr rs, snd ?E)" by (elim exE conjE)
  show ?thesis
    by (rule exI, rule exI, rule conjI [OF E conjunct1 [OF conjunct2 [OF records_are_running_minima [OF E]]]])
qed

text \<open>A confirmed record overwrites the local copy. A refresh that fails changes nothing. Otherwise
  the driver's row carries the confirmed time and moment, even when the confirmed time is slower than
  what was there; it keeps the session it had when there was a row (and has none when there was not);
  and no other driver's row changes.\<close>

theorem Refresh_overwrites:
  "case PRStore_Refresh m l setAt now ora w of
      (Inl e, w') \<Rightarrow> db w' = db w
    | (Inr u, w') \<Rightarrow>
        (\<forall>k. row_at pr_master k (driver_prs (db w')) =
          (if k = m then Some \<lparr>pr_master = m, pr_best = l,
              pr_session = (case row_at pr_master m (driver_prs (db w)) of None \<Rightarrow> None | Some r \<Rightarrow> pr_session r),
              pr_set_at = Some setAt, pr_updated_at = now\<rparr>
           else row_at pr_master k (driver_prs (db w))))"
proof -
  have key: "row_at pr_master m rows = Some r \<Longrightarrow> pr_master r = m" for rows r
    by (auto simp: row_at_def dest: find_SomeD)
  show ?thesis
    using refreshed.lookup_upsert [of _ "(m, l, setAt, now)" "driver_prs (db w)"]
    by (auto simp: PRStore_Refresh_def autoE_def io_defs split: option.splits dest: key)
qed

section \<open>Outages\<close>

definition outages_ok :: "timing_db \<Rightarrow> bool" where
  "outages_ok d \<longleftrightarrow> distinct (map ot_id (scanner_outages d)) \<and> (\<forall>r\<in>set (scanner_outages d). ot_id r \<le> outage_seq d)"

lemma outages_ok_Open [keeps_intros]: "keeps outages_ok (OpenOutage sc se g si r)"
  unfolding OpenOutage_def autoE_def
  by (intro keeps_intros) (auto simp: outages_ok_def Let_def; fastforce)

lemma outages_ok_Close [keeps_intros]: "keeps outages_ok (CloseOutage i at)"
  unfolding CloseOutage_def autoE_def
  by (intro keeps_intros) (auto simp: outages_ok_def set_upd_where map_upd_where)

lemma upd_where_middle: "(\<forall>r\<in>set xs \<union> set ys. \<not> p r) \<Longrightarrow> upd_where p f (xs @ z # ys) = xs @ (if p z then f z else z) # ys"
  unfolding upd_where_def by (auto intro: map_idI)

text \<open>An outage is closed exactly once it was opened, and exactly the one meant. Opening an outage
  appends one open row under an id that no row ever had; whatever other outages are opened or closed in
  between (here: rows \<open>xs\<close> before and \<open>ys\<close> after it), closing that id sets the recovery time of that row
  and of no other; closing an id that no row has is an error and changes nothing.\<close>

theorem outage_open_close:
  assumes "outages_ok (db w)" and "OpenOutage sc se g si rec ora w = (Inr i, w1)"
    and "scanner_outages (db w2) = scanner_outages (db w1) @ ys" and "outages_ok (db w2)"
    and "CloseOutage i at ora2 w2 = (x, w3)" and "\<not> o_fault ora2 (tick w2)"
  shows "scanner_outages (db w1) = scanner_outages (db w) @
        [\<lparr>ot_id = i, ot_scanner = sc, ot_session = se, ot_gap_from = g, ot_since = si, ot_online_at = None, ot_recorded_at = rec\<rparr>]
    \<and> i \<notin> ot_id ` set (scanner_outages (db w)) \<and> x = Inr ()
    \<and> scanner_outages (db w3) = scanner_outages (db w) @
        \<lparr>ot_id = i, ot_scanner = sc, ot_session = se, ot_gap_from = g, ot_since = si, ot_online_at = Some at, ot_recorded_at = rec\<rparr> # ys
    \<and> (\<forall>j. j \<notin> ot_id ` set (scanner_outages (db w3)) \<longrightarrow>
         fst (CloseOutage j at ora2 (w3\<lparr>tick := tick w2\<rparr>)) = Inl NoSuchOutage
         \<and> db (snd (CloseOutage j at ora2 (w3\<lparr>tick := tick w2\<rparr>))) = db w3)"
proof -
  let ?row = "\<lparr>ot_id = i, ot_scanner = sc, ot_session = se, ot_gap_from = g, ot_since = si, ot_online_at = None, ot_recorded_at = rec\<rparr>"
  have o: "scanner_outages (db w1) = scanner_outages (db w) @ [?row]" "i = outage_seq (db w) + 1"
    using assms(2) by (auto simp: OpenOutage_def autoE_def io_defs Let_def split: if_splits)
  have new: "i \<notin> ot_id ` set (scanner_outages (db w))" using assms(1) o(2) by (force simp: outages_ok_def)
  have w2: "scanner_outages (db w2) = scanner_outages (db w) @ ?row # ys" using assms(3) o(1) by simp
  with assms(4) have d: "\<forall>r\<in>set (scanner_outages (db w)) \<union> set ys. ot_id r \<noteq> i"
    by (auto simp: outages_ok_def)
  have c: "x = Inr ()" "scanner_outages (db w3) = upd_where (\<lambda>r. ot_id r = i) (\<lambda>r. r\<lparr>ot_online_at := Some at\<rparr>) (scanner_outages (db w2))"
    using assms(5,6) w2 by (auto simp: CloseOutage_def autoE_def io_defs filter_empty_conv split: if_splits)
  have w3: "scanner_outages (db w3) = scanner_outages (db w) @ ?row\<lparr>ot_online_at := Some at\<rparr> # ys"
    unfolding c(2) w2 by (subst upd_where_middle [OF d]) simp
  have "fst (CloseOutage j at ora2 (w3\<lparr>tick := tick w2\<rparr>)) = Inl NoSuchOutage
         \<and> db (snd (CloseOutage j at ora2 (w3\<lparr>tick := tick w2\<rparr>))) = db w3" if "j \<notin> ot_id ` set (scanner_outages (db w3))" for j
  proof -
    have "filter (\<lambda>r. ot_id r = j) (scanner_outages (db w3)) = []" using that by (auto simp: filter_empty_conv)
    moreover have "upd_where (\<lambda>r. ot_id r = j) (\<lambda>r. r\<lparr>ot_online_at := Some at\<rparr>) (scanner_outages (db w3)) = scanner_outages (db w3)"
      by (rule upd_where_id) (use that in auto)
    ultimately show ?thesis using assms(6) by (simp add: CloseOutage_def autoE_def io_defs)
  qed
  then show ?thesis using o(1) new c(1) w3 by simp
qed

theorem outage_open_close_witness:
  "\<exists>w1 w3. OpenOutage ''s'' ''se'' ''g'' ''t'' ''t'' demo_calm demo_timing = (Inr 1, w1)
     \<and> CloseOutage 1 ''u'' demo_calm w1 = (Inr (), w3) \<and> map ot_online_at (scanner_outages (db w3)) = [Some ''u'']"
proof -
  define w1 where "w1 = snd (OpenOutage ''s'' ''se'' ''g'' ''t'' ''t'' demo_calm demo_timing)"
  have E: "OpenOutage ''s'' ''se'' ''g'' ''t'' ''t'' demo_calm demo_timing = (Inr 1, w1)"
    by (simp add: w1_def OpenOutage_def autoE_def demo_timing_run)
  have ok: "outages_ok (db demo_timing)" "outages_ok (db w1)"
    by (simp_all add: w1_def OpenOutage_def autoE_def demo_timing_run outages_ok_def)
  have nf: "\<not> o_fault demo_calm (tick w1)" by (simp add: demo_calm_def)
  obtain x w3 where C: "CloseOutage 1 ''u'' demo_calm w1 = (x, w3)" by fastforce
  have "scanner_outages (db w1) = scanner_outages (db w1) @ []" by simp
  from outage_open_close [OF ok(1) E this ok(2) C nf] C have "CloseOutage 1 ''u'' demo_calm w1 = (Inr (), w3)"
    "scanner_outages (db w3) = scanner_outages (db demo_timing) @
        \<lparr>ot_id = 1, ot_scanner = ''s'', ot_session = ''se'', ot_gap_from = ''g'', ot_since = ''t'', ot_online_at = Some ''u'', ot_recorded_at = ''t''\<rparr> # []"
    by (elim conjE, simp only:)+
  then show ?thesis using E by (intro exI [of _ w1] exI [of _ w3] conjI) (simp_all add: demo_timing_def)
qed

end
