(* ===== verification/Simulator_Gen.thy ===== *)
theory Simulator_Gen
  imports Timing_Stores
begin

text \<open>
  The pure half of the simulator (services/timing/internal/simulator/simulator.go): the drivers, the
  crossings they make, the outage window, and the events of one session. The random generator is a
  parameter: its \<open>k\<close>-th draw is a function of \<open>k\<close> and of the arguments, and the generators thread
  the number of draws. An event is a function of the id its envelope gets, since every
  constructor draws a new one.
\<close>

section \<open>Configuration and drivers\<close>

text \<open>The seams that may be nil are flags; what they do is in the theory of the run.\<close>

record SimConfig =
  sc_Drivers :: int
  sc_Transponders :: int
  sc_LapMeanMs :: int
  sc_LapStddevMs :: int
  sc_SessionLaps :: int
  sc_MinLapTimeMs :: int
  sc_Tick :: int
  sc_SessionGap :: int
  sc_Source :: string
  sc_UnknownTokenScans :: int
  sc_ScannerOutageLaps :: int
  sc_OutOfSessionLaps :: int
  sc_ObservePR :: bool
  sc_OpenOutage :: bool
  sc_CloseOutage :: bool

record sim_rng =
  rg_Intn :: "nat \<Rightarrow> int \<Rightarrow> int"
  rg_Lap :: "nat \<Rightarrow> int \<Rightarrow> int \<Rightarrow> int"   \<comment> \<open>\<open>int(NormFloat64()*stddev + mean)\<close> of the draw\<close>

record HeldScan =
  Token :: string
  Method :: string
  HeldSession :: string
  Reason :: string
  HeldAt :: int

record driver =
  d_email :: string
  d_method :: string
  d_transponderID :: string
  d_masterID :: string

record Simulator =
  sim_cfg :: SimConfig
  sim_drivers :: "driver list"

definition new_driver :: "SimConfig \<Rightarrow> nat \<Rightarrow> driver" where
  "new_driver cfg i =
     (if int i < sc_Transponders cfg
      then \<lparr>d_email = ''sim-driver-'' @ itoa (int i + 1) @ ''@pitwall.test'', d_method = CheckInMethodTransponder,
            d_transponderID = ''TP-SIM-'' @ itoa (int i + 1), d_masterID = ''''\<rparr>
      else \<lparr>d_email = ''sim-driver-'' @ itoa (int i + 1) @ ''@pitwall.test'', d_method = CheckInMethodQR,
            d_transponderID = '''', d_masterID = ''''\<rparr>)"

definition NewSimulator :: "SimConfig \<Rightarrow> Simulator" where
  "NewSimulator cfg =
     (let cfg = (if sc_Source cfg = '''' then cfg\<lparr>sc_Source := ''timing''\<rparr> else cfg)
      in \<lparr>sim_cfg = cfg, sim_drivers = map (new_driver cfg) [0..<nat (sc_Drivers cfg)]\<rparr>)"

definition DriverIDs :: "Simulator \<Rightarrow> string list" where
  "DriverIDs s = map d_masterID (sim_drivers s)"

section \<open>Crossings\<close>

definition drawLapMs :: "SimConfig \<Rightarrow> sim_rng \<Rightarrow> nat \<Rightarrow> int" where
  "drawLapMs cfg rng k = (let ms = rg_Lap rng k (sc_LapStddevMs cfg) (sc_LapMeanMs cfg) in if ms < 1 then 1 else ms)"

record crossing =
  cr_driver :: string
  cr_method :: string
  cr_at :: int

text \<open>\<open>base.Add(time.Duration(offsetMs) * time.Millisecond)\<close>\<close>

definition add_ms :: "int \<Rightarrow> int \<Rightarrow> int" where
  "add_ms base offsetMs = base + wrap64 (offsetMs * nsPerMs)"

text \<open>The offsets of the crossings after the out-lap, the last offset, and the next draw.\<close>

fun lap_offsets :: "SimConfig \<Rightarrow> sim_rng \<Rightarrow> nat \<Rightarrow> int \<Rightarrow> nat \<Rightarrow> int list \<times> int \<times> nat" where
  "lap_offsets cfg rng 0 offsetMs k = ([], offsetMs, k)"
| "lap_offsets cfg rng (Suc n) offsetMs k =
     (let offsetMs' = wrap64 (offsetMs + drawLapMs cfg rng k)
      in case lap_offsets cfg rng n offsetMs' (k + 1) of (offs, lastOff, k') \<Rightarrow> (offsetMs' # offs, lastOff, k'))"

fun driver_crossings :: "SimConfig \<Rightarrow> sim_rng \<Rightarrow> int \<Rightarrow> driver list \<Rightarrow> int \<Rightarrow> nat \<Rightarrow> crossing list \<times> int \<times> nat" where
  "driver_crossings cfg rng base [] maxOffsetMs k = ([], maxOffsetMs, k)"
| "driver_crossings cfg rng base (d # ds) maxOffsetMs k =
     (let offsetMs = rg_Intn rng k 1000
      in case lap_offsets cfg rng (nat (sc_SessionLaps cfg)) offsetMs (k + 1) of (offs, lastOff, k') \<Rightarrow>
         (case driver_crossings cfg rng base ds (if lastOff > maxOffsetMs then lastOff else maxOffsetMs) k' of (cs, maxOff, k'') \<Rightarrow>
            (map (\<lambda>off. \<lparr>cr_driver = d_masterID d, cr_method = d_method d, cr_at = add_ms base off\<rparr>) (offsetMs # offs) @ cs, maxOff, k'')))"

fun stray_crossings :: "sim_rng \<Rightarrow> int \<Rightarrow> int \<Rightarrow> nat \<Rightarrow> nat \<Rightarrow> nat \<Rightarrow> crossing list \<times> nat" where
  "stray_crossings rng base maxOffsetMs i 0 k = ([], k)"
| "stray_crossings rng base maxOffsetMs i (Suc n) k =
     (let (offsetMs, k') = (if maxOffsetMs > 0 then (rg_Intn rng k maxOffsetMs, k + 1) else (0, k))
      in case stray_crossings rng base maxOffsetMs (i + 1) n k' of (cs, k'') \<Rightarrow>
         (\<lparr>cr_driver = ''TP-STRAY-'' @ itoa (int i + 1), cr_method = CheckInMethodTransponder, cr_at = add_ms base offsetMs\<rparr> # cs, k''))"

definition session_crossings :: "Simulator \<Rightarrow> sim_rng \<Rightarrow> nat \<Rightarrow> int \<Rightarrow> crossing list \<times> nat" where
  "session_crossings s rng k base =
     (case driver_crossings (sim_cfg s) rng base (sim_drivers s) 0 k of (cs, maxOff, k1) \<Rightarrow>
        (case stray_crossings rng base maxOff 0 (nat (sc_UnknownTokenScans (sim_cfg s))) k1 of (strays, k2) \<Rightarrow>
           (sort_key cr_at (cs @ strays), k2)))"

section \<open>The outage window\<close>

record outage_window =
  ow_start :: nat
  ow_end :: nat
  ow_gapFrom :: string
  ow_since :: int
  ow_onlineAt :: int

definition outage_of :: "SimConfig \<Rightarrow> crossing list \<Rightarrow> outage_window option" where
  "outage_of cfg cs =
     (if sc_ScannerOutageLaps cfg > 0 \<and> length cs > 2 then
        let startIdx = (if length cs div 3 < 1 then 1 else length cs div 3);
            endIdx = (if startIdx + nat (sc_ScannerOutageLaps cfg) > length cs - 1 then length cs - 1
                      else startIdx + nat (sc_ScannerOutageLaps cfg))
        in if endIdx \<le> startIdx then None
           else Some \<lparr>ow_start = startIdx, ow_end = endIdx, ow_gapFrom = FormatWireTime (cr_at (cs ! (startIdx - 1))),
                      ow_since = cr_at (cs ! startIdx), ow_onlineAt = cr_at (cs ! endIdx)\<rparr>
      else None)"

definition in_window :: "outage_window option \<Rightarrow> nat \<Rightarrow> bool" where
  "in_window ow i = (case ow of None \<Rightarrow> False | Some w \<Rightarrow> ow_start w \<le> i \<and> i < ow_end w)"

section \<open>The events of a session\<close>

type_synonym builder = "string \<Rightarrow> Envelope"

record gen_state =
  gs_out :: "builder list"
  gs_held :: "HeldScan list"
  gs_trackers :: "string \<Rightarrow> LapTracker"
  gs_summary :: "string \<Rightarrow> (int \<times> int) option"   \<comment> \<open>best, count\<close>
  gs_lastAt :: int
  gs_reset :: "string \<Rightarrow> bool"
  gs_offline :: bool

text \<open>One turn of the loop over the sorted crossings.\<close>

definition gen_step :: "SimConfig \<Rightarrow> string \<Rightarrow> string \<Rightarrow> (string \<Rightarrow> bool) \<Rightarrow> outage_window option \<Rightarrow> gen_state \<Rightarrow> nat \<times> crossing \<Rightarrow> gen_state" where
  "gen_step cfg corr sessionID checkedIn ow st ic =
     (case ic of (i, c) \<Rightarrow>
      if in_window ow i then
        (let st1 = (if \<not> gs_offline st
                    then st\<lparr>gs_out := gs_out st @ [\<lambda>eid. NewScannerOfflineEnvelope eid (sc_Source cfg) corr ScannerID
                              (ow_gapFrom (the ow)) (ow_since (the ow))], gs_offline := True\<rparr>
                    else st)
         in st1\<lparr>gs_reset := (gs_reset st1)(cr_driver c := True)\<rparr>)
      else
        let st = (if ow \<noteq> None \<and> gs_offline st \<and> i = ow_end (the ow)
                  then st\<lparr>gs_out := gs_out st @ [\<lambda>eid. NewScannerOnlineEnvelope eid (sc_Source cfg) corr ScannerID (ow_onlineAt (the ow))]\<rparr>
                  else st)
        in if \<not> checkedIn (cr_driver c) then
             st\<lparr>gs_held := gs_held st @ [\<lparr>Token = cr_driver c, Method = cr_method c, HeldSession = sessionID,
                  Reason = ''no completed check-in this session'', HeldAt = cr_at c\<rparr>]\<rparr>
           else
             let st = (if gs_reset st (cr_driver c)
                       then st\<lparr>gs_trackers := (gs_trackers st)(cr_driver c := ResetTracker (gs_trackers st (cr_driver c))),
                               gs_reset := (gs_reset st)(cr_driver c := False)\<rparr>
                       else st)
             in case Cross (gs_trackers st (cr_driver c)) (cr_at c) of (tr, lap, outcome) \<Rightarrow>
                  let st = st\<lparr>gs_trackers := (gs_trackers st)(cr_driver c := tr)\<rparr>
                  in if outcome \<noteq> Counted then st
                     else let (best, count) = (case gs_summary st (cr_driver c) of None \<Rightarrow> (tl_LapTimeMs lap, 0) | Some a \<Rightarrow> a);
                              best = (if tl_LapTimeMs lap < best then tl_LapTimeMs lap else best)
                          in st\<lparr>gs_out := gs_out st @ [\<lambda>eid. NewLapRecordedEnvelope eid (sc_Source cfg) corr (cr_driver c) sessionID
                                   (tl_LapNumber lap) (tl_LapTimeMs lap) None (cr_at c)],
                                gs_summary := (gs_summary st)(cr_driver c := Some (best, count + 1)),
                                gs_lastAt := cr_at c\<rparr>)"

definition gen_loop :: "SimConfig \<Rightarrow> string \<Rightarrow> string \<Rightarrow> (string \<Rightarrow> bool) \<Rightarrow> outage_window option \<Rightarrow> gen_state \<Rightarrow> crossing list \<Rightarrow> gen_state" where
  "gen_loop cfg corr sessionID checkedIn ow st cs = foldl (gen_step cfg corr sessionID checkedIn ow) st (enumerate 0 cs)"

text \<open>The layout \<open>20060102T150405.000Z\<close>.\<close>

definition FormatCompact :: "int \<Rightarrow> string" where
  "FormatCompact t =
     (case civilOfDay (t div nsPerDay) of (y, m, d) \<Rightarrow>
        let s = (t mod nsPerDay) div nsPerSec; ms = (t mod nsPerSec) div nsPerMs
        in padInt 4 y @ padInt 2 m @ padInt 2 d @ ''T'' @ padInt 2 (s div 3600) @ padInt 2 ((s div 60) mod 60)
           @ padInt 2 (s mod 60) @ ''.'' @ padInt 3 ms @ ''Z'')"

definition check_in :: "SimConfig \<Rightarrow> string \<Rightarrow> int \<Rightarrow> driver \<Rightarrow> builder" where
  "check_in cfg corr base d = (\<lambda>eid. NewCheckedInEnvelope eid (sc_Source cfg) corr (d_masterID d) (d_method d)
     (if d_method d = CheckInMethodTransponder then Some (d_transponderID d) else None) base)"

definition gen_start :: "SimConfig \<Rightarrow> builder list \<Rightarrow> int \<Rightarrow> gen_state" where
  "gen_start cfg out base = \<lparr>gs_out = out, gs_held = [], gs_trackers = (\<lambda>_. NewTracker (sc_MinLapTimeMs cfg)),
     gs_summary = (\<lambda>_. None), gs_lastAt = base, gs_reset = (\<lambda>_. False), gs_offline = False\<rparr>"

definition summary_rows :: "driver list \<Rightarrow> (string \<Rightarrow> (int \<times> int) option) \<Rightarrow> SessionSummaryRow list" where
  "summary_rows ds summary = List.map_filter (\<lambda>d. case summary (d_masterID d) of
      None \<Rightarrow> None
    | Some (best, count) \<Rightarrow> Some \<lparr>sum_MasterID = d_masterID d, sum_BestLapMs = best, sum_LapCount = count\<rparr>) ds"

definition GenerateSession :: "Simulator \<Rightarrow> sim_rng \<Rightarrow> nat \<Rightarrow> string \<Rightarrow> int \<Rightarrow> builder list \<times> HeldScan list \<times> nat" where
  "GenerateSession s rng k corr base =
     (let cfg = sim_cfg s; sessionID = ''sim-'' @ FormatCompact base;
          out0 = (\<lambda>eid. NewSessionStartedEnvelope eid (sc_Source cfg) corr sessionID base) # map (check_in cfg corr base) (sim_drivers s)
      in case session_crossings s rng k base of (cs, k') \<Rightarrow>
           let st = gen_loop cfg corr sessionID (\<lambda>t. t \<in> set (DriverIDs s)) (outage_of cfg cs) (gen_start cfg out0 base) cs
           in (gs_out st @ [\<lambda>eid. NewSessionEndedEnvelope eid (sc_Source cfg) corr sessionID (gs_lastAt st)
                  (summary_rows (sim_drivers s) (gs_summary st))], gs_held st, k'))"

section \<open>The reconciled session\<close>

text \<open>Tracker, laps, best, count, last counted crossing; the loop runs \<open>OutOfSessionLaps + 1\<close> times.\<close>

fun recon_loop :: "SimConfig \<Rightarrow> sim_rng \<Rightarrow> string \<Rightarrow> string \<Rightarrow> string \<Rightarrow> nat \<Rightarrow> LapTracker \<Rightarrow> builder list \<Rightarrow> int \<Rightarrow> int \<Rightarrow> int \<Rightarrow> int \<Rightarrow> nat
    \<Rightarrow> builder list \<times> int \<times> int \<times> int \<times> nat" where
  "recon_loop cfg rng corr sessionID master 0 tracker laps best count lastAt at k = (laps, best, count, lastAt, k)"
| "recon_loop cfg rng corr sessionID master (Suc n) tracker laps best count lastAt at k =
     (case Cross tracker at of (tracker', lap, outcome) \<Rightarrow>
        let at' = add_ms at (drawLapMs cfg rng k)
        in if outcome = Counted
           then recon_loop cfg rng corr sessionID master n tracker'
                  (laps @ [\<lambda>eid. NewLapRecordedEnvelope eid (sc_Source cfg) corr master sessionID (tl_LapNumber lap) (tl_LapTimeMs lap) None at])
                  (if count = 0 \<or> tl_LapTimeMs lap < best then tl_LapTimeMs lap else best) (count + 1) at at' (k + 1)
           else recon_loop cfg rng corr sessionID master n tracker' laps best count lastAt at' (k + 1))"

definition GenerateReconciledSession :: "Simulator \<Rightarrow> sim_rng \<Rightarrow> nat \<Rightarrow> string \<Rightarrow> int \<Rightarrow> builder list \<times> nat" where
  "GenerateReconciledSession s rng k corr base =
     (let cfg = sim_cfg s
      in if sc_OutOfSessionLaps cfg \<le> 0 \<or> sim_drivers s = [] then ([], k)
         else
           let d = hd (sim_drivers s); sessionID = ''sim-oos-'' @ FormatCompact base
           in case recon_loop cfg rng corr sessionID (d_masterID d) (Suc (nat (sc_OutOfSessionLaps cfg)))
                     (NewTracker (sc_MinLapTimeMs cfg)) [] 0 0 base base k of
                (laps, best, count, lastAt, k') \<Rightarrow>
                  if count = 0 then ([], k')
                  else ((\<lambda>eid. NewSessionStartedEnvelope eid (sc_Source cfg) corr sessionID base) # laps
                        @ [\<lambda>eid. NewSessionEndedEnvelope eid (sc_Source cfg) corr sessionID lastAt
                             [\<lparr>sum_MasterID = d_masterID d, sum_BestLapMs = best, sum_LapCount = count\<rparr>]], k'))"

section \<open>The laps of a stream\<close>

definition pay :: "builder \<Rightarrow> payload" where
  "pay b = Data (b '''')"

definition laps_in :: "builder list \<Rightarrow> LapRecordedData list" where
  "laps_in bs = concat (map (\<lambda>b. case pay b of LapRecorded l \<Rightarrow> [l] | _ \<Rightarrow> []) bs)"

lemma laps_in_simps [simp]:
  "laps_in [] = []" "laps_in (xs @ ys) = laps_in xs @ laps_in ys"
  by (simp_all add: laps_in_def)

lemma pay_simps [simp]:
  "pay (\<lambda>eid. NewScannerOfflineEnvelope eid src corr sc g since) = ScannerOffline \<lparr>off_ScannerID = sc, off_Since = FormatWireTime since, off_GapFrom = g\<rparr>"
  "pay (\<lambda>eid. NewScannerOnlineEnvelope eid src corr sc at) = ScannerOnline \<lparr>on_ScannerID = sc, on_At = FormatWireTime at\<rparr>"
  "pay (\<lambda>eid. NewLapRecordedEnvelope eid src corr m s n l tp at) =
     LapRecorded \<lparr>lap_MasterID = m, lap_SessionID = s, lap_LapNumber = n, lap_LapTimeMs = l, lap_At = FormatWireTime at, lap_TransponderID = tp\<rparr>"
  "pay (\<lambda>eid. NewSessionStartedEnvelope eid src corr s at) = SessionStarted \<lparr>st_SessionID = s, st_StartedAt = FormatWireTime at\<rparr>"
  "pay (\<lambda>eid. NewSessionEndedEnvelope eid src corr s at rows) = SessionEnded \<lparr>en_SessionID = s, en_EndedAt = FormatWireTime at, en_Summary = rows\<rparr>"
  by (simp_all add: pay_def NewScannerOfflineEnvelope_def NewScannerOnlineEnvelope_def NewLapRecordedEnvelope_def
      NewSessionStartedEnvelope_def NewSessionEndedEnvelope_def NewDomainEnvelope_def Let_def)

lemma laps_in_Cons [simp]: "laps_in (b # bs) = (case pay b of LapRecorded l \<Rightarrow> [l] | _ \<Rightarrow> []) @ laps_in bs"
  by (simp add: laps_in_def)

lemma pay_check_in: "\<exists>d'. pay (check_in cfg corr base d) = CheckedIn d'"
  by (simp add: pay_def check_in_def NewCheckedInEnvelope_def NewDomainEnvelope_def Let_def)

lemma laps_in_check_ins [simp]: "laps_in (map (check_in cfg corr base) ds) = []"
proof (induction ds)
  case (Cons d ds)
  obtain d' where "pay (check_in cfg corr base d) = CheckedIn d'" using pay_check_in by blast
  then show ?case using Cons by simp
qed simp

definition times_of :: "string \<Rightarrow> LapRecordedData list \<Rightarrow> int list" where
  "times_of m ls = map lap_LapTimeMs (filter (\<lambda>l. lap_MasterID l = m) ls)"

section \<open>One turn of the loop\<close>

definition tracker_at :: "gen_state \<Rightarrow> string \<Rightarrow> LapTracker" where
  "tracker_at st m = (if gs_reset st m then ResetTracker (gs_trackers st m) else gs_trackers st m)"

definition lap_data :: "string \<Rightarrow> crossing \<Rightarrow> TimingLap \<Rightarrow> LapRecordedData" where
  "lap_data sessionID c lap = \<lparr>lap_MasterID = cr_driver c, lap_SessionID = sessionID, lap_LapNumber = tl_LapNumber lap,
     lap_LapTimeMs = tl_LapTimeMs lap, lap_At = FormatWireTime (cr_at c), lap_TransponderID = None\<rparr>"

definition add_lap :: "int \<Rightarrow> (int \<times> int) option \<Rightarrow> int \<times> int" where
  "add_lap l a = (case a of None \<Rightarrow> (l, 1) | Some (best, n) \<Rightarrow> (min l best, n + 1))"

lemma gen_step_cases:
  fixes st :: gen_state
  assumes "st' = gen_step cfg corr sid chk ow st (i, c)"
  obtains (missed) "in_window ow i" "laps_in (gs_out st') = laps_in (gs_out st)" "gs_summary st' = gs_summary st" "gs_held st' = gs_held st"
      "gs_trackers st' = gs_trackers st" "gs_reset st' = (gs_reset st)(cr_driver c := True)" "gs_lastAt st' = gs_lastAt st"
  | (held) "\<not> in_window ow i" "\<not> chk (cr_driver c)" "laps_in (gs_out st') = laps_in (gs_out st)" "gs_summary st' = gs_summary st"
      "gs_held st' = gs_held st @ [\<lparr>Token = cr_driver c, Method = cr_method c, HeldSession = sid,
                  Reason = ''no completed check-in this session'', HeldAt = cr_at c\<rparr>]"
      "gs_trackers st' = gs_trackers st" "gs_reset st' = gs_reset st" "gs_lastAt st' = gs_lastAt st"
  | (crossed) tr lap outcome where "\<not> in_window ow i" "chk (cr_driver c)" "Cross (tracker_at st (cr_driver c)) (cr_at c) = (tr, lap, outcome)"
      "gs_trackers st' = (gs_trackers st)(cr_driver c := tr)" "gs_reset st' = (gs_reset st)(cr_driver c := False)"
      "gs_held st' = gs_held st"
      "laps_in (gs_out st') = laps_in (gs_out st) @ (if outcome = Counted then [lap_data sid c lap] else [])"
      "gs_summary st' = (if outcome = Counted then (gs_summary st)(cr_driver c := Some (add_lap (tl_LapTimeMs lap) (gs_summary st (cr_driver c)))) else gs_summary st)"
      "gs_lastAt st' = (if outcome = Counted then cr_at c else gs_lastAt st)"
proof (cases "in_window ow i")
  case True
  then show ?thesis using assms missed by (simp add: gen_step_def Let_def)
next
  case nw: False
  show ?thesis
  proof (cases "chk (cr_driver c)")
    case False
    then show ?thesis using assms held nw by (simp add: gen_step_def Let_def)
  next
    case chk: True
    obtain tr lap outcome where C: "Cross (tracker_at st (cr_driver c)) (cr_at c) = (tr, lap, outcome)" by (metis prod_cases3)
    define s1 where "s1 = (if ow \<noteq> None \<and> gs_offline st \<and> i = ow_end (the ow)
       then st\<lparr>gs_out := gs_out st @ [\<lambda>eid. NewScannerOnlineEnvelope eid (sc_Source cfg) corr ScannerID (ow_onlineAt (the ow))]\<rparr> else st)"
    define s2 where "s2 = (if gs_reset s1 (cr_driver c)
       then s1\<lparr>gs_trackers := (gs_trackers s1)(cr_driver c := ResetTracker (gs_trackers s1 (cr_driver c))),
               gs_reset := (gs_reset s1)(cr_driver c := False)\<rparr> else s1)"
    have s1: "laps_in (gs_out s1) = laps_in (gs_out st)" "gs_trackers s1 = gs_trackers st" "gs_reset s1 = gs_reset st" "gs_held s1 = gs_held st"
      "gs_lastAt s1 = gs_lastAt st" "gs_summary s1 = gs_summary st"
      by (simp_all add: s1_def)
    have s2: "gs_out s2 = gs_out s1" "gs_trackers s2 (cr_driver c) = tracker_at st (cr_driver c)" "gs_reset s2 = (gs_reset st)(cr_driver c := False)"
      "(gs_trackers s2)(cr_driver c := tr) = (gs_trackers st)(cr_driver c := tr)"
      "gs_held s2 = gs_held st" "gs_lastAt s2 = gs_lastAt st" "gs_summary s2 = gs_summary st"
      using s1 by (simp_all add: s2_def tracker_at_def fun_upd_idem)
    obtain best count where B: "(case gs_summary st (cr_driver c) of None \<Rightarrow> (tl_LapTimeMs lap, 0) | Some a \<Rightarrow> a) = (best, count)" by fastforce
    have A: "add_lap (tl_LapTimeMs lap) (gs_summary st (cr_driver c)) = (if tl_LapTimeMs lap < best then tl_LapTimeMs lap else best, count + 1)"
      using B by (auto simp: add_lap_def min_def split: option.splits)
    have st': "st' = (let st = s2\<lparr>gs_trackers := (gs_trackers s2)(cr_driver c := tr)\<rparr> in
       if outcome \<noteq> Counted then st
       else st\<lparr>gs_out := gs_out st @ [\<lambda>eid. NewLapRecordedEnvelope eid (sc_Source cfg) corr (cr_driver c) sid
                 (tl_LapNumber lap) (tl_LapTimeMs lap) None (cr_at c)],
               gs_summary := (gs_summary st)(cr_driver c := Some (if tl_LapTimeMs lap < best then tl_LapTimeMs lap else best, count + 1)),
               gs_lastAt := cr_at c\<rparr>)"
      using assms nw chk C B
      by (simp only: gen_step_def Let_def prod.case if_False not_True_eq_False s1_def [symmetric] s2_def [symmetric] s2)
        (simp add: s2)
    show ?thesis
    proof (rule crossed [OF nw chk C])
      show "gs_trackers st' = (gs_trackers st)(cr_driver c := tr)" "gs_reset st' = (gs_reset st)(cr_driver c := False)"
        "gs_held st' = gs_held st" "gs_lastAt st' = (if outcome = Counted then cr_at c else gs_lastAt st)"
        "laps_in (gs_out st') = laps_in (gs_out st) @ (if outcome = Counted then [lap_data sid c lap] else [])"
        "gs_summary st' = (if outcome = Counted then (gs_summary st)(cr_driver c := Some (add_lap (tl_LapTimeMs lap) (gs_summary st (cr_driver c)))) else gs_summary st)"
        unfolding A by (simp_all add: st' Let_def s1 s2 lap_data_def)
    qed
  qed
qed

lemma gen_loop_Nil [simp]: "gen_loop cfg corr sid chk ow st [] = st"
  by (simp add: gen_loop_def)

lemma gen_loop_snoc: "gen_loop cfg corr sid chk ow st (cs @ [c])
    = gen_step cfg corr sid chk ow (gen_loop cfg corr sid chk ow st cs) (length cs, c)"
  by (simp add: gen_loop_def enumerate_append_eq)

section \<open>The summary\<close>

definition gen_inv :: "string \<Rightarrow> (string \<Rightarrow> bool) \<Rightarrow> gen_state \<Rightarrow> bool" where
  "gen_inv sid chk st \<longleftrightarrow>
     (\<forall>m. gs_summary st m = (let ts = times_of m (laps_in (gs_out st)) in if ts = [] then None else Some (Min (set ts), int (length ts))))
     \<and> (\<forall>l\<in>set (laps_in (gs_out st)). lap_SessionID l = sid \<and> chk (lap_MasterID l) \<and> lap_TransponderID l = None)
     \<and> (\<forall>h\<in>set (gs_held st). \<not> chk (Token h) \<and> HeldSession h = sid)"

lemma summary_snoc:
  "Some (add_lap l (let ts = ts in if ts = [] then None else Some (Min (set ts), int (length ts))))
     = (let ts = ts @ [l] in if ts = [] then None else Some (Min (set ts), int (length ts)))"
  by (cases "ts = []") (auto simp: add_lap_def Let_def)

lemma gen_inv_step:
  assumes "gen_inv sid chk st"
  shows "gen_inv sid chk (gen_step cfg corr sid chk ow st (i, c))" (is "gen_inv _ _ ?st")
proof -
  have "?st = gen_step cfg corr sid chk ow st (i, c)" by simp
  then show ?thesis
  proof (cases rule: gen_step_cases)
    case (crossed tr lap outcome)
    note c = crossed(2,6,7,8)
    have t: "times_of m (laps_in (gs_out ?st)) = times_of m (laps_in (gs_out st)) @ (if outcome = Counted \<and> m = cr_driver c then [tl_LapTimeMs lap] else [])" for m
      by (auto simp: c(3) times_of_def lap_data_def)
    have "gs_summary ?st m = (let ts = times_of m (laps_in (gs_out ?st)) in if ts = [] then None else Some (Min (set ts), int (length ts)))" for m
    proof (cases "outcome = Counted \<and> m = cr_driver c")
      case True
      then have "gs_summary ?st m = Some (add_lap (tl_LapTimeMs lap) (gs_summary st (cr_driver c)))" by (simp add: c(4))
      also have "gs_summary st (cr_driver c) = (let ts = times_of m (laps_in (gs_out st)) in if ts = [] then None else Some (Min (set ts), int (length ts)))"
        using assms True by (simp add: gen_inv_def)
      finally show ?thesis unfolding t using True summary_snoc by simp
    next
      case False
      then have "gs_summary ?st m = gs_summary st m" by (auto simp: c(4))
      then show ?thesis using assms False unfolding t by (auto simp: gen_inv_def)
    qed
    then show ?thesis using assms c(1,2,3) by (auto simp: gen_inv_def lap_data_def)
  qed (use assms in \<open>auto simp: gen_inv_def\<close>)
qed

lemma gen_inv_loop: "gen_inv sid chk st \<Longrightarrow> gen_inv sid chk (gen_loop cfg corr sid chk ow st cs)"
  by (induction cs rule: rev_induct) (auto simp: gen_loop_snoc gen_inv_step)

lemma gen_out_grows: "\<exists>more. gs_out (gen_loop cfg corr sid chk ow st cs) = gs_out st @ more"
proof (induction cs rule: rev_induct)
  case (snoc c cs)
  have "\<exists>more. gs_out (gen_step cfg corr sid chk ow s (i, c)) = gs_out s @ more" for s i
    by (auto simp: gen_step_def Let_def split: prod.splits)
  then show ?case using snoc unfolding gen_loop_snoc by (metis append.assoc)
qed simp

section \<open>The held scans\<close>

text \<open>The held scans of the crossings, written down independently of the loop: one for each crossing
  outside the outage window whose token did not check in, in the order of the crossings.\<close>

definition held_of :: "string \<Rightarrow> string list \<Rightarrow> outage_window option \<Rightarrow> crossing list \<Rightarrow> HeldScan list" where
  "held_of sessionID drivers ow cs =
     map (\<lambda>(i, c). \<lparr>Token = cr_driver c, Method = cr_method c, HeldSession = sessionID,
            Reason = ''no completed check-in this session'', HeldAt = cr_at c\<rparr>)
         (filter (\<lambda>(i, c). \<not> in_window ow i \<and> cr_driver c \<notin> set drivers) (enumerate 0 cs))"

lemma gen_step_held:
  "gs_held (gen_step cfg corr sid (\<lambda>t. t \<in> set ds) ow st (i, c)) = gs_held st @
     (if \<not> in_window ow i \<and> cr_driver c \<notin> set ds
      then [\<lparr>Token = cr_driver c, Method = cr_method c, HeldSession = sid,
             Reason = ''no completed check-in this session'', HeldAt = cr_at c\<rparr>] else [])"
  by (rule gen_step_cases [where cfg = cfg and corr = corr and sid = sid and chk = "\<lambda>t. t \<in> set ds" and ow = ow and st = st and i = i and c = c, OF refl]) simp_all

lemma gen_loop_held: "gs_held (gen_loop cfg corr sid (\<lambda>t. t \<in> set ds) ow st cs) = gs_held st @ held_of sid ds ow cs"
  by (induction cs rule: rev_induct) (simp_all add: gen_loop_snoc gen_step_held held_of_def enumerate_append_eq)

text \<open>A scan that a token outside the drivers makes is held unless the scanner was dark, and nothing else is.\<close>

lemma held_of_iff: "h \<in> set (held_of sid ds ow cs) \<longleftrightarrow>
  (\<exists>i < length cs. \<not> in_window ow i \<and> cr_driver (cs ! i) \<notin> set ds
     \<and> h = \<lparr>Token = cr_driver (cs ! i), Method = cr_method (cs ! i), HeldSession = sid,
             Reason = ''no completed check-in this session'', HeldAt = cr_at (cs ! i)\<rparr>)"
  by (auto simp: held_of_def in_set_enumerate_eq image_iff)

lemma GenerateSession_stream:
  "case GenerateSession s rng k corr base of (out, held, k') \<Rightarrow>
     \<exists>body ended. map pay out = SessionStarted \<lparr>st_SessionID = ''sim-'' @ FormatCompact base, st_StartedAt = FormatWireTime base\<rparr>
         # map (pay \<circ> check_in (sim_cfg s) corr base) (sim_drivers s) @ body @ [SessionEnded ended]
       \<and> en_SessionID ended = ''sim-'' @ FormatCompact base
       \<and> set (map lap_MasterID (laps_in out)) \<subseteq> set (DriverIDs s) \<and> set (map lap_SessionID (laps_in out)) \<subseteq> {''sim-'' @ FormatCompact base}
       \<and> (let cs = fst (session_crossings s rng k base) in held = held_of (''sim-'' @ FormatCompact base) (DriverIDs s) (outage_of (sim_cfg s) cs) cs)
       \<and> en_Summary ended = map (\<lambda>m. \<lparr>sum_MasterID = m, sum_BestLapMs = Min (set (times_of m (laps_in out))), sum_LapCount = int (length (times_of m (laps_in out)))\<rparr>)
           (filter (\<lambda>m. times_of m (laps_in out) \<noteq> []) (DriverIDs s))"
proof -
  define sid where "sid = ''sim-'' @ FormatCompact base"
  let ?cfg = "sim_cfg s"
  define out0 where "out0 = (\<lambda>eid. NewSessionStartedEnvelope eid (sc_Source ?cfg) corr sid base) # map (check_in ?cfg corr base) (sim_drivers s)"
  obtain cs k' where cs: "session_crossings s rng k base = (cs, k')" by fastforce
  let ?chk = "\<lambda>t. t \<in> set (DriverIDs s)"
  define st where "st = gen_loop ?cfg corr sid ?chk (outage_of ?cfg cs) (gen_start ?cfg out0 base) cs"
  have out: "GenerateSession s rng k corr base = (gs_out st @ [\<lambda>eid. NewSessionEndedEnvelope eid (sc_Source ?cfg) corr sid (gs_lastAt st)
                  (summary_rows (sim_drivers s) (gs_summary st))], gs_held st, k')"
    by (simp add: GenerateSession_def Let_def cs st_def out0_def sid_def)
  have "gen_inv sid ?chk (gen_start ?cfg out0 base)"
    by (simp add: gen_inv_def gen_start_def out0_def times_of_def)
  then have inv: "gen_inv sid ?chk st" unfolding st_def by (rule gen_inv_loop)
  obtain more where more: "gs_out st = out0 @ more" using gen_out_grows [of ?cfg corr sid ?chk "outage_of ?cfg cs" "gen_start ?cfg out0 base" cs]
    by (auto simp: st_def gen_start_def)
  have rows: "summary_rows ds (gs_summary st) = map (\<lambda>m. \<lparr>sum_MasterID = m, sum_BestLapMs = Min (set (times_of m (laps_in (gs_out st)))),
        sum_LapCount = int (length (times_of m (laps_in (gs_out st))))\<rparr>) (filter (\<lambda>m. times_of m (laps_in (gs_out st)) \<noteq> []) (map d_masterID ds))" for ds
    using inv by (induction ds) (auto simp: summary_rows_def List.map_filter_simps gen_inv_def Let_def)
  have held: "gs_held st = held_of sid (DriverIDs s) (outage_of ?cfg cs) cs"
    unfolding st_def gen_loop_held by (simp add: gen_start_def)
  show ?thesis unfolding out prod.case cs fst_conv Let_def held
    using inv rows more by (intro exI [of _ "map pay more"] exI) (auto simp: gen_inv_def sid_def out0_def DriverIDs_def)
qed

text \<open>C33: the events of a simulated session are consistent. For any configuration, drivers, random draws
  and base time: the stream starts with \<open>session.started\<close> and one check-in per driver, in order,
  and ends with \<open>session.ended\<close>; every lap is of this session and of a driver that checked in; the
  held scans are exactly those of the session's sorted crossings that fall outside the outage window
  and carry a token that did not check in, in that order, each with its token, method, moment and the
  reason; and the summary has one row for each driver with a lap in the stream, in the order of the
  drivers, with the number of those laps and the fastest of them.\<close>

theorem GenerateSession_summary:
  "case GenerateSession s rng k corr base of (out, held, k') \<Rightarrow>
     \<exists>body ended. map pay out = SessionStarted \<lparr>st_SessionID = ''sim-'' @ FormatCompact base, st_StartedAt = FormatWireTime base\<rparr>
         # map (pay \<circ> check_in (sim_cfg s) corr base) (sim_drivers s) @ body @ [SessionEnded ended]
       \<and> en_SessionID ended = ''sim-'' @ FormatCompact base
       \<and> set (map lap_MasterID (laps_in out)) \<subseteq> set (DriverIDs s) \<and> set (map lap_SessionID (laps_in out)) \<subseteq> {''sim-'' @ FormatCompact base}
       \<and> (let cs = fst (session_crossings s rng k base) in held = held_of (''sim-'' @ FormatCompact base) (DriverIDs s) (outage_of (sim_cfg s) cs) cs)
       \<and> en_Summary ended = map (\<lambda>m. \<lparr>sum_MasterID = m, sum_BestLapMs = Min (set (times_of m (laps_in out))), sum_LapCount = int (length (times_of m (laps_in out)))\<rparr>)
           (filter (\<lambda>m. times_of m (laps_in out) \<noteq> []) (DriverIDs s))"
  by (rule GenerateSession_stream)

section \<open>The honest gap\<close>

text \<open>The crossings of \<open>m\<close> between \<open>i\<close> and \<open>j\<close> that the scanner missed.\<close>

definition missed_between :: "crossing list \<Rightarrow> outage_window option \<Rightarrow> string \<Rightarrow> nat \<Rightarrow> nat \<Rightarrow> nat list" where
  "missed_between cs ow m i j = filter (\<lambda>k. cr_driver (cs ! k) = m \<and> in_window ow k) [i..<j]"

lemma missed_snoc: "j \<le> length cs \<Longrightarrow> missed_between (cs @ [c]) ow m i j = missed_between cs ow m i j"
  unfolding missed_between_def by (rule filter_cong) (auto simp: nth_append)

lemma missed_Suc: "i \<le> length cs \<Longrightarrow> missed_between (cs @ [c]) ow m i (Suc (length cs)) = missed_between cs ow m i (length cs)
    @ (if cr_driver c = m \<and> in_window ow (length cs) then [length cs] else [])"
  using missed_snoc [of "length cs" cs c ow m i] by (auto simp: missed_between_def)

definition lap_between :: "crossing list \<Rightarrow> outage_window option \<Rightarrow> LapRecordedData \<Rightarrow> nat \<Rightarrow> nat \<Rightarrow> bool" where
  "lap_between cs ow l i j \<longleftrightarrow> i < j \<and> j < length cs
     \<and> cr_driver (cs ! i) = lap_MasterID l \<and> cr_driver (cs ! j) = lap_MasterID l
     \<and> lap_At l = FormatWireTime (cr_at (cs ! j)) \<and> lap_LapTimeMs l = milliseconds (timeSub (cr_at (cs ! j)) (cr_at (cs ! i)))
     \<and> missed_between cs ow (lap_MasterID l) i (Suc j) = []"

definition baseline :: "crossing list \<Rightarrow> outage_window option \<Rightarrow> string \<Rightarrow> int \<Rightarrow> nat \<Rightarrow> bool" where
  "baseline cs ow m t i \<longleftrightarrow> i < length cs \<and> cr_driver (cs ! i) = m \<and> cr_at (cs ! i) = t
     \<and> missed_between cs ow m i (length cs) = []"

definition gap_inv :: "outage_window option \<Rightarrow> crossing list \<Rightarrow> gen_state \<Rightarrow> bool" where
  "gap_inv ow cs st \<longleftrightarrow>
     (\<forall>m. \<not> gs_reset st m \<and> lt_hasPrev (gs_trackers st m) \<longrightarrow> (\<exists>i. baseline cs ow m (lt_prev (gs_trackers st m)) i))
     \<and> (\<forall>l\<in>set (laps_in (gs_out st)). \<exists>i j. lap_between cs ow l i j)"

lemma lap_between_snoc: "lap_between cs ow l i j \<Longrightarrow> lap_between (cs @ [c]) ow l i j"
  unfolding lap_between_def using missed_snoc [of "Suc j" cs c ow "lap_MasterID l" i] by (auto simp: nth_append)

lemma baseline_snoc:
  "baseline cs ow m t i \<Longrightarrow> \<not> (cr_driver c = m \<and> in_window ow (length cs)) \<Longrightarrow> baseline (cs @ [c]) ow m t i"
  unfolding baseline_def using missed_Suc [of i cs c ow m] by (auto simp: nth_append)

lemma baseline_new: "\<not> in_window ow (length cs) \<Longrightarrow> baseline (cs @ [c]) ow (cr_driver c) (cr_at c) (length cs)"
  unfolding baseline_def by (simp add: missed_between_def)

lemma gap_inv_step:
  assumes inv: "gap_inv ow cs st"
  shows "gap_inv ow (cs @ [c]) (gen_step cfg corr sid chk ow st (length cs, c))" (is "gap_inv _ _ ?st")
proof -
  have old: "\<exists>i j. lap_between (cs @ [c]) ow l i j" if "l \<in> set (laps_in (gs_out st))" for l
    using inv that lap_between_snoc unfolding gap_inv_def by blast
  have other: "\<exists>i. baseline (cs @ [c]) ow m (lt_prev (gs_trackers st m)) i"
    if "\<not> gs_reset st m" "lt_hasPrev (gs_trackers st m)" "\<not> (cr_driver c = m \<and> in_window ow (length cs))" for m
    using inv that baseline_snoc unfolding gap_inv_def by blast
  have "?st = gen_step cfg corr sid chk ow st (length cs, c)" by simp
  then show ?thesis
  proof (cases rule: gen_step_cases)
    case missed
    then show ?thesis using old other by (auto simp: gap_inv_def)
  next
    case held
    then show ?thesis using old other by (auto simp: gap_inv_def)
  next
    case (crossed tr lap outcome)
    let ?m = "cr_driver c"
    note C = Cross_facts [OF crossed(3)]
    have now: "\<exists>i. baseline (cs @ [c]) ow ?m (lt_prev tr) i"
    proof (cases outcome)
      case Rejected
      then have "tr = tracker_at st ?m" "lt_hasPrev (tracker_at st ?m)" using C(4) by auto
      then show ?thesis using other [of ?m] crossed(1) by (auto simp: tracker_at_def ResetTracker_def split: if_splits)
    qed (use C(3,5) baseline_new [OF crossed(1)] in auto)
    have lap: "\<exists>i j. lap_between (cs @ [c]) ow (lap_data sid c lap) i j" if "outcome = Counted"
    proof -
      from C(3) that have f: "lt_hasPrev (tracker_at st ?m)" "tl_LapTimeMs lap = milliseconds (timeSub (cr_at c) (lt_prev (tracker_at st ?m)))"
        by auto
      then have nr: "\<not> gs_reset st ?m" "tracker_at st ?m = gs_trackers st ?m" by (auto simp: tracker_at_def ResetTracker_def split: if_splits)
      with f(1) inv obtain i where i: "baseline cs ow ?m (lt_prev (gs_trackers st ?m)) i" unfolding gap_inv_def by auto
      then have "lap_between (cs @ [c]) ow (lap_data sid c lap) i (length cs)"
        using f nr crossed(1) missed_Suc [of i cs c ow ?m] by (auto simp: lap_between_def baseline_def lap_data_def nth_append)
      then show ?thesis by blast
    qed
    show ?thesis unfolding gap_inv_def
    proof (intro conjI allI impI ballI)
      fix m assume m: "\<not> gs_reset ?st m \<and> lt_hasPrev (gs_trackers ?st m)"
      show "\<exists>i. baseline (cs @ [c]) ow m (lt_prev (gs_trackers ?st m)) i"
        using m now other [of m] crossed(1,4,5) by (cases "m = ?m") auto
    next
      fix l assume "l \<in> set (laps_in (gs_out ?st))"
      then show "\<exists>i j. lap_between (cs @ [c]) ow l i j" using crossed(7) old lap by (auto split: if_splits)
    qed
  qed
qed

lemma gap_inv_loop: "gap_inv ow [] st \<Longrightarrow> gap_inv ow cs (gen_loop cfg corr sid chk ow st cs)"
  by (induction cs rule: rev_induct) (auto simp: gen_loop_snoc gap_inv_step)

text \<open>C34: no lap is faked across a scanner outage. Every lap of a session is the time between two crossings of
  its driver in the session's sorted crossings, and no crossing of that driver from the first to the
  second fell into the outage window: a missed crossing ends the lap in progress, and the next
  crossing starts a new one.\<close>

theorem no_lap_spans_an_outage:
  "case session_crossings s rng k base of (cs, k') \<Rightarrow>
     list_all (\<lambda>l. \<exists>i j. lap_between cs (outage_of (sim_cfg s) cs) l i j) (laps_in (fst (GenerateSession s rng k corr base)))"
proof -
  obtain cs k' where cs: "session_crossings s rng k base = (cs, k')" by fastforce
  let ?ow = "outage_of (sim_cfg s) cs"
  define sid where "sid = ''sim-'' @ FormatCompact base"
  define out0 where "out0 = (\<lambda>eid. NewSessionStartedEnvelope eid (sc_Source (sim_cfg s)) corr sid base)
    # map (check_in (sim_cfg s) corr base) (sim_drivers s)"
  define st where "st = gen_loop (sim_cfg s) corr sid (\<lambda>t. t \<in> set (DriverIDs s)) ?ow (gen_start (sim_cfg s) out0 base) cs"
  have "gap_inv ?ow [] (gen_start (sim_cfg s) out0 base)"
    by (simp add: gap_inv_def gen_start_def out0_def NewTracker_def)
  then have "gap_inv ?ow cs st" unfolding st_def by (rule gap_inv_loop)
  moreover have "laps_in (fst (GenerateSession s rng k corr base)) = laps_in (gs_out st)"
    unfolding GenerateSession_def Let_def cs prod.case sid_def [symmetric] out0_def [symmetric] st_def [symmetric] by simp
  ultimately show ?thesis unfolding cs prod.case by (simp add: gap_inv_def list_all_iff)
qed

end
