(* ===== verification/Simulator_Run.thy ===== *)
theory Simulator_Run
  imports Simulator_Gen
begin

text \<open>
  The half of the simulator that acts (services/timing/internal/simulator/simulator.go): register the
  drivers, and for each session record the held scans, emit the events through the outbox with
  the side effects tied to their types, and reconcile an out-of-session lap in the gap. The seams
  are the stores, as cmd/timing/main.go wires them; the register-first client is a parameter. A
  cancelled context is an answer of the oracle; the endless loop runs for as many iterations as
  it is given.
\<close>

section \<open>Prepare\<close>

fun Prepare :: "(string \<Rightarrow> (timing_db, string) io) \<Rightarrow> driver list \<Rightarrow> (timing_db, driver list) io" where
  "Prepare resolve [] = retE []"
| "Prepare resolve (d # ds) =
     bindE (resolve (d_email d)) (\<lambda>i.
     bindE (if d_method d = CheckInMethodTransponder
            then bindE nowE (\<lambda>now. bindE (Assign (d_transponderID d) i (FormatWireTime now)) (\<lambda>_. retE ()))
            else retE ()) (\<lambda>_.
     bindE (Prepare resolve ds) (\<lambda>ds'. retE (d\<lparr>d_masterID := i\<rparr> # ds'))))"

section \<open>Side effects\<close>

record runState =
  ru_sessionID :: string
  ru_openOutageID :: int
  ru_active :: bool
  ru_lastEndedAt :: int

definition new_runState :: runState where
  "new_runState = \<lparr>ru_sessionID = '''', ru_openOutageID = 0, ru_active = False, ru_lastEndedAt = zeroTime\<rparr>"

definition observePR :: "json_codec \<Rightarrow> validator \<Rightarrow> SimConfig \<Rightarrow> Envelope \<Rightarrow> (timing_db, unit) io" where
  "observePR cd v cfg lapEnv =
     (case Data lapEnv of
        LapRecorded d \<Rightarrow>
          bindE (ObserveLap (lap_MasterID d) (lap_SessionID d) (lap_LapTimeMs d) (lap_At d)) (\<lambda>(broken, previousMs).
            if \<not> broken then retE ()
            else (case ParseWireTime (lap_At d) of
                Inl perr \<Rightarrow> failE perr
              | Inr at \<Rightarrow> bindE newIdE (\<lambda>eid.
                  NewEnqueuer cd (Some v) (NewPersonalRecordBrokenEnvelope eid (sc_Source cfg) (CorrelationID lapEnv)
                    (lap_MasterID d) (lap_SessionID d) (lap_LapTimeMs d) previousMs at))))
      | _ \<Rightarrow> failE (WrongData ''LapRecordedData''))"

definition sim_openOutage :: "SimConfig \<Rightarrow> Envelope \<Rightarrow> string \<Rightarrow> (timing_db, int) io" where
  "sim_openOutage cfg env sessionID =
     (if \<not> sc_OpenOutage cfg then retE 0
      else (case Data env of
          ScannerOffline d \<Rightarrow>
            bindE (OpenOutage (off_ScannerID d) sessionID (off_GapFrom d) (off_Since d) (off_Since d)) (\<lambda>i.
            bindE (emitE (Alert ''scanner_offline'')) (\<lambda>_. retE i))
        | _ \<Rightarrow> failE (WrongData ''ScannerOfflineData'')))"

definition sim_closeOutage :: "SimConfig \<Rightarrow> Envelope \<Rightarrow> int \<Rightarrow> (timing_db, unit) io" where
  "sim_closeOutage cfg env i =
     (if \<not> sc_CloseOutage cfg then retE ()
      else (case Data env of
          ScannerOnline d \<Rightarrow> CloseOutage i (on_At d)
        | _ \<Rightarrow> failE (WrongData ''ScannerOnlineData'')))"

definition emitEnvelope :: "json_codec \<Rightarrow> validator \<Rightarrow> SimConfig \<Rightarrow> Envelope \<Rightarrow> runState \<Rightarrow> (timing_db, runState) io" where
  "emitEnvelope cd v cfg env st =
     bindE (NewEnqueuer cd (Some v) env) (\<lambda>_.
     bindE (if sc_ObservePR cfg \<and> Type env = LapRecordedRoutingKey then observePR cd v cfg env else retE ()) (\<lambda>_.
       if Type env = SessionStartedRoutingKey then
         retE (st\<lparr>ru_sessionID := (case Data env of SessionStarted d \<Rightarrow> st_SessionID d | _ \<Rightarrow> ru_sessionID st), ru_active := True\<rparr>)
       else if Type env = SessionEndedRoutingKey then
         retE (st\<lparr>ru_active := False,
                  ru_lastEndedAt := (case Data env of
                      SessionEnded d \<Rightarrow> (case ParseWireTime (en_EndedAt d) of Inr t \<Rightarrow> t | Inl perr \<Rightarrow> ru_lastEndedAt st)
                    | _ \<Rightarrow> ru_lastEndedAt st)\<rparr>)
       else if Type env = ScannerOfflineRoutingKey then
         bindE (sim_openOutage cfg env (ru_sessionID st)) (\<lambda>i. retE (st\<lparr>ru_openOutageID := i\<rparr>))
       else if Type env = ScannerOnlineRoutingKey then
         bindE (sim_closeOutage cfg env (ru_openOutageID st)) (\<lambda>_. retE st)
       else retE st))"

section \<open>Run\<close>

text \<open>\<open>sleep\<close> answers whether the context is still live.\<close>

definition sleepE :: "(timing_db, bool) io" where
  "sleepE = bindE ctxErrE (\<lambda>stopped. retE (\<not> stopped))"

text \<open>An error is returned, unless the context is done by then: the loop then ends gracefully.\<close>

definition fatalE :: "error \<Rightarrow> 'a \<Rightarrow> (timing_db, 'a) io" where
  "fatalE err stop = bindE ctxErrE (\<lambda>stopped. if stopped then retE stop else failE err)"

text \<open>\<open>True\<close>: the run is to stop.\<close>

fun record_held :: "HeldScan list \<Rightarrow> (timing_db, bool) io" where
  "record_held [] = retE False"
| "record_held (h # hs) =
     bindE ctxErrE (\<lambda>stopped. if stopped then retE True
     else bindE nowE (\<lambda>now.
       tryE (RecordHeldScan (Token h) (Method h) (HeldSession h) (FormatWireTime (HeldAt h)) (Reason h) (FormatWireTime now)) (\<lambda>r. case r of
         Inl err \<Rightarrow> fatalE err True
       | Inr _ \<Rightarrow> bindE (emitE (Alert ''unknown_token_at_line'')) (\<lambda>_. record_held hs))))"

text \<open>\<open>None\<close>: the run is to stop.\<close>

fun emit_session :: "json_codec \<Rightarrow> validator \<Rightarrow> SimConfig \<Rightarrow> builder list \<Rightarrow> runState \<Rightarrow> (timing_db, runState option) io" where
  "emit_session cd v cfg [] st = retE (Some st)"
| "emit_session cd v cfg (b # bs) st =
     bindE newIdE (\<lambda>eid. tryE (emitEnvelope cd v cfg (b eid) st) (\<lambda>r. case r of
       Inl err \<Rightarrow> fatalE err None
     | Inr st' \<Rightarrow> bindE sleepE (\<lambda>ok. if ok then emit_session cd v cfg bs st' else retE None)))"

fun emit_recon :: "json_codec \<Rightarrow> validator \<Rightarrow> SimConfig \<Rightarrow> builder list \<Rightarrow> runState \<Rightarrow> (timing_db, unit) io" where
  "emit_recon cd v cfg [] st = retE ()"
| "emit_recon cd v cfg (b # bs) st =
     bindE newIdE (\<lambda>eid. bindE (emitEnvelope cd v cfg (b eid) st) (\<lambda>st'.
     bindE sleepE (\<lambda>ok. if ok then emit_recon cd v cfg bs st' else retE ())))"

definition emitReconciledSession :: "json_codec \<Rightarrow> validator \<Rightarrow> Simulator \<Rightarrow> sim_rng \<Rightarrow> nat \<Rightarrow> runState \<Rightarrow> (timing_db, nat) io" where
  "emitReconciledSession cd v s rng k st =
     (if sc_OutOfSessionLaps (sim_cfg s) \<le> 0 \<or> ru_active st then retE k
      else bindE (if ru_lastEndedAt st = zeroTime then nowE else retE (ru_lastEndedAt st)) (\<lambda>base.
           bindE newIdE (\<lambda>corr.
             case GenerateReconciledSession s rng k corr base of (recon, k') \<Rightarrow>
               bindE (emit_recon cd v (sim_cfg s) recon st) (\<lambda>_. retE k'))))"

text \<open>The loop of \<open>Run\<close>: \<open>True\<close> when it returned nil, \<open>False\<close> when the iterations ended first.\<close>

fun sim_loop :: "json_codec \<Rightarrow> validator \<Rightarrow> Simulator \<Rightarrow> sim_rng \<Rightarrow> nat \<Rightarrow> nat \<Rightarrow> (timing_db, bool) io" where
  "sim_loop cd v s rng k 0 = retE False"
| "sim_loop cd v s rng k (Suc n) =
     bindE ctxErrE (\<lambda>stopped. if stopped then retE True
     else bindE nowE (\<lambda>base. bindE newIdE (\<lambda>corr.
       case GenerateSession s rng k corr base of (session, held, k') \<Rightarrow>
         bindE (record_held held) (\<lambda>stop. if stop then retE True
         else bindE (emit_session cd v (sim_cfg s) session new_runState) (\<lambda>res. case res of
             None \<Rightarrow> retE True
           | Some st \<Rightarrow> tryE (emitReconciledSession cd v s rng k' st) (\<lambda>r. case r of
                 Inl err \<Rightarrow> fatalE err True
               | Inr k'' \<Rightarrow> bindE sleepE (\<lambda>ok. if ok then sim_loop cd v s rng k'' n else retE True)))))))"

definition Simulator_Run :: "json_codec \<Rightarrow> validator \<Rightarrow> (string \<Rightarrow> (timing_db, string) io) \<Rightarrow> Simulator \<Rightarrow> sim_rng \<Rightarrow> nat \<Rightarrow> (timing_db, bool) io" where
  "Simulator_Run cd v resolve s rng n =
     tryE (Prepare resolve (sim_drivers s)) (\<lambda>r. case r of
       Inl err \<Rightarrow> fatalE err True
     | Inr ds \<Rightarrow> sim_loop cd v (s\<lparr>sim_drivers := ds\<rparr>) rng 0 n)"

section \<open>A record without its event\<close>

lemma NewEnqueuer_Inl: "NewEnqueuer cd v env ora w = (Inl e, w') \<Longrightarrow> db w' = db w"
  by (auto simp: NewEnqueuer_def bindE_def emitE_def split: prod.splits sum.splits dest: WithinTx_Inl)

lemma NewEnqueuer_Inr:
  assumes "NewEnqueuer cd v env ora w = (Inr u, w')"
  shows "\<exists>payload. Marshal cd env = Some payload \<and> db w' = (db w)\<lparr>outbox := outbox (db w) @ [\<lparr>Row_ID = ID env, RoutingKey = Type env,
     Payload = payload, Status = Pending, Attempts = 0, LastError = None, CreatedAt = OccurredAt env, SentAt = ''''\<rparr>]\<rparr>"
proof -
  from assms obtain v1 where v1: "WithinTx (EnqueueEnvelope cd v env) ora w = (Inr (), v1)" "db w' = db v1"
    by (auto simp: NewEnqueuer_def bindE_eq_Inr emitE_def)
  from WithinTx_Inr [OF v1(1)] obtain u1 where "EnqueueEnvelope cd v env ora (tock w) = (Inr (), u1)" "db v1 = db u1" by (elim exE conjE)
  with EnqueueEnvelope_Inr [OF this(1)] v1(2) show ?thesis by auto
qed

lemma ObserveLap_goes: "no_fault ora \<Longrightarrow> \<exists>r w'. ObserveLap m s l at ora w = (Inr r, w')"
  by (auto simp: ObserveLap_def WithinTx_def bindE_def getPRWith_def queryE_def upsertPRWith_def execE_def no_fault_def retE_def Let_def split: prod.splits)

text \<open>What may happen to a driver's local record: a lap is observed, or a confirmed record overwrites the copy.
  The answers say which operations reported a broken record.\<close>

datatype pr_op = Observed string string int string | Confirmed string int string string

fun pr_ops :: "pr_op list \<Rightarrow> (timing_db, bool list) io" where
  "pr_ops [] = retE []"
| "pr_ops (Observed m s l at # os) =
     tryE (ObserveLap m s l at) (\<lambda>r. bindE (pr_ops os) (\<lambda>rs. retE ((case r of Inl err \<Rightarrow> False | Inr (broken, previousMs) \<Rightarrow> broken) # rs)))"
| "pr_ops (Confirmed m l setAt now # os) =
     tryE (PRStore_Refresh m l setAt now) (\<lambda>r. bindE (pr_ops os) (\<lambda>rs. retE (False # rs)))"

lemma pr_ops_goes: "\<exists>rs w'. pr_ops os ora w = (Inr rs, w')"
  by (induction os arbitrary: w rule: pr_ops.induct)
    (auto simp: retE_def tryE_def bindE_def split: prod.splits sum.splits, (metis prod.inject sum.distinct(1) surj_pair)+)

lemma Refresh_best:
  "PRStore_Refresh m l setAt now ora w = (x, w') \<Longrightarrow>
     best_lap (db w') = (case x of Inl err \<Rightarrow> best_lap (db w) | Inr u \<Rightarrow> (best_lap (db w))(m := Some l))"
  using refreshed.lookup_upsert [of _ "(m, l, setAt, now)" "driver_prs (db w)"]
  by (auto simp: PRStore_Refresh_def autoE_def io_defs best_lap_def fun_eq_iff split: option.splits if_splits)

lemma ObserveLap_best:
  "ObserveLap m s l at ora w = (x, w') \<Longrightarrow>
     best_lap (db w') = (case x of Inl err \<Rightarrow> best_lap (db w) | Inr r \<Rightarrow> beat (m, l) (best_lap (db w)))"
  using ObserveLap_Inl [of m s l at ora w _ w'] ObserveLap_Inr [of m s l at ora w _ w'] by (cases x) auto

text \<open>Once a driver's local record is at most \<open>t\<close>, no lap of \<open>t\<close> or slower is reported until something slower
  overwrites the record.\<close>

lemma pr_ops_quiet:
  assumes "pr_ops os ora w = (Inr rs, w')" "best_lap (db w) m = Some b" "b \<le> t"
    and "\<forall>l setAt now. Confirmed m l setAt now \<in> set os \<longrightarrow> l \<le> t"
  shows "length rs = length os \<and> (\<forall>i < length os. \<forall>s l at. os ! i = Observed m s l at \<longrightarrow> t \<le> l \<longrightarrow> \<not> rs ! i)"
  using assms
proof (induction os arbitrary: w b rs rule: pr_ops.induct)
  case (2 k s l at os)
  obtain x u where x: "ObserveLap k s l at ora w = (x, u)" by fastforce
  with "2.prems"(1) obtain rs' where rs': "pr_ops os ora u = (Inr rs', w')"
    "rs = (case x of Inl err \<Rightarrow> False | Inr (broken, p) \<Rightarrow> broken) # rs'"
    by (auto simp: tryE_def bindE_eq_Inr retE_def)
  obtain b' where b': "best_lap (db u) m = Some b'" "b' \<le> t"
    using ObserveLap_best [OF x] "2.prems"(2,3) by (cases x; cases "m = k") (auto simp: beat_def)
  have first: "\<not> (case x of Inl err \<Rightarrow> False | Inr (broken, p) \<Rightarrow> broken)" if "k = m" "t \<le> l"
    using ObserveLap_Inr [of k s l at ora w _ u] x that "2.prems"(2,3) by (cases x) (auto simp: CheckPR_def)
  have "\<forall>l setAt now. Confirmed m l setAt now \<in> set os \<longrightarrow> l \<le> t" using "2.prems"(4) by simp
  from "2.IH" [OF rs'(1) b' this] first rs'(2) show ?case by (auto simp: nth_Cons split: nat.splits)
next
  case (3 k l setAt now os)
  obtain x u where x: "PRStore_Refresh k l setAt now ora w = (x, u)" by fastforce
  with "3.prems"(1) obtain rs' where rs': "pr_ops os ora u = (Inr rs', w')" "rs = False # rs'"
    by (auto simp: tryE_def bindE_eq_Inr retE_def)
  obtain b' where b': "best_lap (db u) m = Some b'" "b' \<le> t"
    using Refresh_best [OF x] "3.prems"(2,3,4) by (cases x; cases "m = k") auto
  have "\<forall>l setAt now. Confirmed m l setAt now \<in> set os \<longrightarrow> l \<le> t" using "3.prems"(4) by simp
  from "3.IH" [OF rs'(1) b' this] rs'(2) show ?case by (auto simp: nth_Cons split: nat.splits)
qed (simp add: retE_def)

lemma Refresh_goes: "no_fault ora \<Longrightarrow> \<exists>u w'. PRStore_Refresh m l setAt now ora w = (Inr u, w')"
  by (auto simp: PRStore_Refresh_def autoE_def bindE_def emitE_def execE_def no_fault_def retE_def split: prod.splits)

lemma slower_confirmation_reopens:
  assumes "no_fault ora" "l < c"
  shows "fst (pr_ops [Confirmed m c setAt now, Observed m s l at] ora w) = Inr [False, True]"
proof -
  obtain u w1 where r: "PRStore_Refresh m c setAt now ora w = (Inr u, w1)" using Refresh_goes [OF assms(1)] by blast
  obtain q w2 where o: "ObserveLap m s l at ora w1 = (Inr q, w2)" using ObserveLap_goes [OF assms(1)] by blast
  from Refresh_best [OF r] have "best_lap (db w1) m = Some c" by simp
  with ObserveLap_Inr [OF o] assms(2) have "q = (True, Some c)" by (simp add: CheckPR_def)
  with r o show ?thesis by (simp add: tryE_def bindE_def retE_def)
qed

text \<open>C35: a broken record whose event cannot be enqueued is lost. \<open>observePR\<close> advances the local record in one
  transaction and enqueues \<open>personal_record.broken\<close> in another. When the first reports a break by a
  lap of time \<open>T\<close> and \<open>observePR\<close> then fails, the record already is \<open>T\<close> and no event is in the outbox.
  From then on, through any sequence of observations and confirmed records with any faults, no
  observation of the driver with time \<open>T\<close> or slower reports a break, as long as no confirmed record slower
  than \<open>T\<close> overwrites the driver's local copy. Such an overwrite is the only way out: directly after one,
  and without a fault, a lap faster than it is reported.\<close>

theorem broken_record_can_be_lost:
  assumes "Data lapEnv = LapRecorded d"
    and "ObserveLap (lap_MasterID d) (lap_SessionID d) (lap_LapTimeMs d) (lap_At d) ora w = (Inr (True, prev), w1)"
    and "observePR cd v cfg lapEnv ora w = (Inl e, w')"
  shows "best_lap (db w') (lap_MasterID d) = Some (lap_LapTimeMs d) \<and> outbox (db w') = outbox (db w)
    \<and> (\<forall>os later. (\<forall>l setAt now. Confirmed (lap_MasterID d) l setAt now \<in> set os \<longrightarrow> l \<le> lap_LapTimeMs d) \<longrightarrow>
         (\<exists>rs w''. pr_ops os later w' = (Inr rs, w'') \<and> length rs = length os
            \<and> (\<forall>i < length os. \<forall>s l at. os ! i = Observed (lap_MasterID d) s l at \<longrightarrow> lap_LapTimeMs d \<le> l \<longrightarrow> \<not> rs ! i)))
    \<and> (\<forall>c setAt now s l at later. no_fault later \<and> l < c \<longrightarrow>
         fst (pr_ops [Confirmed (lap_MasterID d) c setAt now, Observed (lap_MasterID d) s l at] later w') = Inr [False, True])"
proof -
  from ObserveLap_Inr [OF assms(2)] have o: "(True, prev) = CheckPR (best_lap (db w) (lap_MasterID d)) (lap_LapTimeMs d)"
    "best_lap (db w1) = beat (lap_MasterID d, lap_LapTimeMs d) (best_lap (db w))" "outbox (db w1) = outbox (db w)" by auto
  have "db w' = db w1"
    using assms(1,2,3) by (auto simp: observePR_def bindE_def newIdE_def failE_def split: sum.splits prod.splits dest: NewEnqueuer_Inl)
  moreover have "best_lap (db w1) (lap_MasterID d) = Some (lap_LapTimeMs d)"
    using o(1,2) by (auto simp: beat_def CheckPR_def min_def split: option.splits if_splits)
  ultimately have b: "best_lap (db w') (lap_MasterID d) = Some (lap_LapTimeMs d)" "outbox (db w') = outbox (db w)" using o(3) by auto
  have "\<exists>rs w''. pr_ops os later w' = (Inr rs, w'') \<and> length rs = length os
            \<and> (\<forall>i < length os. \<forall>s l at. os ! i = Observed (lap_MasterID d) s l at \<longrightarrow> lap_LapTimeMs d \<le> l \<longrightarrow> \<not> rs ! i)"
    if "\<forall>l setAt now. Confirmed (lap_MasterID d) l setAt now \<in> set os \<longrightarrow> l \<le> lap_LapTimeMs d" for os later
    using pr_ops_goes [of os later w'] pr_ops_quiet [OF _ b(1) order_refl that] by blast
  then show ?thesis using b slower_confirmation_reopens by blast
qed

definition demo_lap_env :: Envelope where
  "demo_lap_env = NewLapRecordedEnvelope ''e'' ''timing'' ''c'' ''m'' ''s1'' 1 40 None 0"

definition demo_cfg_sim :: SimConfig where
  "demo_cfg_sim = \<lparr>sc_Drivers = 1, sc_Transponders = 0, sc_LapMeanMs = 30000, sc_LapStddevMs = 0, sc_SessionLaps = 2, sc_MinLapTimeMs = 0,
     sc_Tick = 0, sc_SessionGap = 0, sc_Source = ''timing'', sc_UnknownTokenScans = 0, sc_ScannerOutageLaps = 0, sc_OutOfSessionLaps = 0,
     sc_ObservePR = True, sc_OpenOutage = True, sc_CloseOutage = True\<rparr>"

theorem broken_record_can_be_lost_witness:
  "\<exists>e w'. observePR demo_codec (\<lambda>_. Some (Invalid ''schema'')) demo_cfg_sim demo_lap_env demo_calm demo_timing = (Inl e, w')
     \<and> best_lap (db w') ''m'' = Some 40 \<and> outbox (db w') = []
     \<and> (\<exists>rs w''. pr_ops [Confirmed ''m'' 39 ''t'' ''t'', Observed ''m'' ''s2'' 40 ''''] demo_calm w' = (Inr rs, w'') \<and> \<not> rs ! 1)
     \<and> fst (pr_ops [Confirmed ''m'' 50 ''t'' ''t'', Observed ''m'' ''s2'' 45 ''''] demo_calm w') = Inr [False, True]"
proof -
  define d where "d = \<lparr>lap_MasterID = ''m'', lap_SessionID = ''s1'', lap_LapNumber = 1, lap_LapTimeMs = 40, lap_At = FormatWireTime 0, lap_TransponderID = None\<rparr>"
  have D: "Data demo_lap_env = LapRecorded d" by (simp add: demo_lap_env_def NewLapRecordedEnvelope_def NewDomainEnvelope_def Let_def d_def)
  define w1 where "w1 = snd (ObserveLap ''m'' ''s1'' 40 (FormatWireTime 0) demo_calm demo_timing)"
  have O: "ObserveLap (lap_MasterID d) (lap_SessionID d) (lap_LapTimeMs d) (lap_At d) demo_calm demo_timing = (Inr (True, Some 50), w1)"
    by (simp add: d_def w1_def demo_timing_run)
  have P: "ParseWireTime (FormatWireTime 0) = Inr 0" by code_simp
  obtain r w' where R: "observePR demo_codec (\<lambda>_. Some (Invalid ''schema'')) demo_cfg_sim demo_lap_env demo_calm demo_timing = (r, w')" by fastforce
  have "r = Inl (Invalid ''schema'')"
    using R O P unfolding observePR_def D by (simp add: d_def bindE_def NewEnqueuer_def newIdE_def WithinTx_def EnqueueEnvelope_def demo_codec_def failE_def demo_calm_def)
  with R have E: "observePR demo_codec (\<lambda>_. Some (Invalid ''schema'')) demo_cfg_sim demo_lap_env demo_calm demo_timing = (Inl (Invalid ''schema''), w')" by simp
  have nf: "no_fault demo_calm" by (simp add: no_fault_def demo_calm_def)
  note lost = broken_record_can_be_lost [OF D O E]
  from lost have b: "best_lap (db w') ''m'' = Some 40" "outbox (db w') = []" by (simp_all add: d_def demo_timing_def)
  let ?os = "[Confirmed ''m'' 39 ''t'' ''t'', Observed ''m'' ''s2'' 40 '''']"
  have "\<forall>l setAt now. Confirmed (lap_MasterID d) l setAt now \<in> set ?os \<longrightarrow> l \<le> lap_LapTimeMs d" by (simp add: d_def)
  with lost obtain rs w'' where rs: "pr_ops ?os demo_calm w' = (Inr rs, w'')"
    "\<forall>i < length ?os. \<forall>s l at. ?os ! i = Observed (lap_MasterID d) s l at \<longrightarrow> lap_LapTimeMs d \<le> l \<longrightarrow> \<not> rs ! i" by blast
  from rs(2) have "\<not> rs ! 1" by (simp add: d_def)
  moreover from lost nf have "fst (pr_ops [Confirmed ''m'' 50 ''t'' ''t'', Observed ''m'' ''s2'' 45 ''''] demo_calm w') = Inr [False, True]"
    by (simp add: d_def)
  ultimately show ?thesis using E b rs(1) by blast
qed

section \<open>Every event, in order\<close>

definition row_of :: "json_codec \<Rightarrow> Envelope \<Rightarrow> OutboxRow \<Rightarrow> bool" where
  "row_of cd env r \<longleftrightarrow> Row_ID r = ID env \<and> RoutingKey r = Type env \<and> Marshal cd env = Some (Payload r) \<and> Status r = Pending"

text \<open>\<open>adds P m\<close>: whatever happens, \<open>m\<close> only appends rows that satisfy \<open>P\<close> to the outbox.\<close>

definition adds :: "(OutboxRow \<Rightarrow> bool) \<Rightarrow> (timing_db, 'a) io \<Rightarrow> bool" where
  "adds P m \<longleftrightarrow> (\<forall>ora w. \<exists>new. outbox (db (snd (m ora w))) = outbox (db w) @ new \<and> list_all P new)"

named_theorems adds_intros

lemma addsD: "adds P m \<Longrightarrow> m ora w = (x, w') \<Longrightarrow> \<exists>new. outbox (db w') = outbox (db w) @ new \<and> list_all P new"
  unfolding adds_def by (metis snd_conv)

lemma adds_same: "(\<And>ora w. outbox (db (snd (m ora w))) = outbox (db w)) \<Longrightarrow> adds P m"
  by (simp add: adds_def)

lemma adds_prims [adds_intros]: "adds P (retE a)" "adds P (failE e)" "adds P newIdE" "adds P nowE" "adds P ctxErrE" "adds P (emitE x)"
  by (simp_all add: adds_def io_defs)

lemma adds_bindE [adds_intros]:
  assumes "adds P m" "\<And>a. adds P (f a)"
  shows "adds P (bindE m f)"
  unfolding adds_def
proof (intro allI)
  fix ora w
  obtain x u where x: "m ora w = (x, u)" by fastforce
  from addsD [OF assms(1) this] obtain n1 where n1: "outbox (db u) = outbox (db w) @ n1" "list_all P n1" by blast
  show "\<exists>new. outbox (db (snd (bindE m f ora w))) = outbox (db w) @ new \<and> list_all P new"
  proof (cases x)
    case (Inl e)
    then show ?thesis using x n1 by (simp add: bindE_def)
  next
    case (Inr a)
    from assms(2) [of a] obtain n2 where "outbox (db (snd (f a ora u))) = outbox (db u) @ n2" "list_all P n2"
      unfolding adds_def by blast
    then show ?thesis using x n1 Inr by (intro exI [of _ "n1 @ n2"]) (simp add: bindE_def)
  qed
qed

lemma adds_if [adds_intros]: "(b \<Longrightarrow> adds P m) \<Longrightarrow> (\<not> b \<Longrightarrow> adds P n) \<Longrightarrow> adds P (if b then m else n)"
  by simp

lemma adds_case_sum [adds_intros]: "(\<And>e. x = Inl e \<Longrightarrow> adds P (f e)) \<Longrightarrow> (\<And>a. x = Inr a \<Longrightarrow> adds P (g a)) \<Longrightarrow>
   adds P (case x of Inl e \<Rightarrow> f e | Inr a \<Rightarrow> g a)"
  by (cases x) auto

lemma adds_case_prod [adds_intros]: "(\<And>a b. adds P (f a b)) \<Longrightarrow> adds P (case x of (a, b) \<Rightarrow> f a b)"
  by (cases x) auto

lemma adds_execE: "(\<And>d d' a. f d = Inr (d', a) \<Longrightarrow> outbox d' = outbox d) \<Longrightarrow> adds P (execE f)"
  by (rule adds_same) (auto simp: execE_def split: sum.splits prod.splits)

lemma adds_stores [adds_intros]: "adds P (OpenOutage a b c d e)" "adds P (CloseOutage i at)"
  unfolding OpenOutage_def CloseOutage_def autoE_def Let_def by (intro adds_intros adds_execE; auto)+

lemma adds_ObserveLap [adds_intros]: "adds P (ObserveLap m s l at)"
proof (rule adds_same)
  fix ora w
  obtain x u where x: "ObserveLap m s l at ora w = (x, u)" by fastforce
  then show "outbox (db (snd (ObserveLap m s l at ora w))) = outbox (db w)"
    using ObserveLap_Inl [of m s l at ora w _ u] ObserveLap_Inr [of m s l at ora w _ u] by (cases x) auto
qed

lemma adds_NewEnqueuer: "(\<And>r. row_of cd env r \<Longrightarrow> P r) \<Longrightarrow> adds P (NewEnqueuer cd v env)"
  unfolding adds_def
proof (intro allI)
  fix ora w
  assume P: "\<And>r. row_of cd env r \<Longrightarrow> P r"
  obtain x u where x: "NewEnqueuer cd v env ora w = (x, u)" by fastforce
  show "\<exists>new. outbox (db (snd (NewEnqueuer cd v env ora w))) = outbox (db w) @ new \<and> list_all P new"
  proof (cases x)
    case (Inl e)
    then show ?thesis using x NewEnqueuer_Inl [of cd v env ora w e u] by auto
  next
    case (Inr a)
    from NewEnqueuer_Inr [OF x [unfolded Inr]] show ?thesis using x P by (auto simp: row_of_def)
  qed
qed

abbreviation record_row :: "OutboxRow \<Rightarrow> bool" where
  "record_row r \<equiv> RoutingKey r = PersonalRecordBrokenRoutingKey"

lemma adds_observePR [adds_intros]: "adds record_row (observePR cd v cfg env)"
  unfolding observePR_def
  by (cases "Data env")
    (auto intro!: adds_intros adds_NewEnqueuer simp: row_of_def NewPersonalRecordBrokenEnvelope_def NewDomainEnvelope_def)

lemma adds_outages [adds_intros]: "adds P (sim_openOutage cfg env sid)" "adds P (sim_closeOutage cfg env i)"
  unfolding sim_openOutage_def sim_closeOutage_def by (cases "Data env"; auto intro!: adds_intros)+

text \<open>An emission appends the event's row and possibly a record, or nothing at all.\<close>

lemma emitEnvelope_rows:
  assumes "emitEnvelope cd v cfg env st ora w = (x, w')"
  shows "(outbox (db w') = outbox (db w) \<and> (\<exists>e. x = Inl e))
    \<or> (\<exists>r new. outbox (db w') = outbox (db w) @ r # new \<and> row_of cd env r \<and> list_all record_row new)"
proof -
  obtain y u where y: "NewEnqueuer cd (Some v) env ora w = (y, u)" by fastforce
  show ?thesis
  proof (cases y)
    case (Inl e)
    then show ?thesis using assms y NewEnqueuer_Inl [of cd "Some v" env ora w e u] by (auto simp: emitEnvelope_def bindE_def)
  next
    case (Inr a)
    define rest where "rest = bindE (if sc_ObservePR cfg \<and> Type env = LapRecordedRoutingKey then observePR cd v cfg env else retE ()) (\<lambda>_.
       if Type env = SessionStartedRoutingKey then
         retE (st\<lparr>ru_sessionID := (case Data env of SessionStarted d \<Rightarrow> st_SessionID d | _ \<Rightarrow> ru_sessionID st), ru_active := True\<rparr>)
       else if Type env = SessionEndedRoutingKey then
         retE (st\<lparr>ru_active := False,
                  ru_lastEndedAt := (case Data env of
                      SessionEnded d \<Rightarrow> (case ParseWireTime (en_EndedAt d) of Inr t \<Rightarrow> t | Inl perr \<Rightarrow> ru_lastEndedAt st)
                    | _ \<Rightarrow> ru_lastEndedAt st)\<rparr>)
       else if Type env = ScannerOfflineRoutingKey then
         bindE (sim_openOutage cfg env (ru_sessionID st)) (\<lambda>i. retE (st\<lparr>ru_openOutageID := i\<rparr>))
       else if Type env = ScannerOnlineRoutingKey then
         bindE (sim_closeOutage cfg env (ru_openOutageID st)) (\<lambda>_. retE st)
       else retE st)"
    have "adds record_row rest" unfolding rest_def by (intro adds_intros)
    moreover have "rest ora u = (x, w')" using assms y Inr by (simp add: emitEnvelope_def bindE_def [of "NewEnqueuer cd (Some v) env"] rest_def)
    ultimately obtain new where "outbox (db w') = outbox (db u) @ new" "list_all record_row new" using addsD by blast
    then show ?thesis using NewEnqueuer_Inr [OF y [unfolded Inr]] by (auto simp: row_of_def)
  qed
qed

lemma emit_session_rows:
  assumes "\<forall>b\<in>set bs. \<forall>eid. Type (b eid) \<noteq> PersonalRecordBrokenRoutingKey"
  shows "emit_session cd v cfg bs st ora w = (x, w') \<Longrightarrow>
    \<exists>n new. n \<le> length bs \<and> outbox (db w') = outbox (db w) @ new
      \<and> list_all2 (\<lambda>b r. \<exists>eid. row_of cd (b eid) r) (take n bs) (filter (\<lambda>r. \<not> record_row r) new)
      \<and> (case x of Inr (Some st') \<Rightarrow> n = length bs | _ \<Rightarrow> True)"
  using assms
proof (induction bs arbitrary: st w)
  case (Cons b bs)
  define eid where "eid = o_uuid ora (tick w)"
  obtain y u where y: "emitEnvelope cd v cfg (b eid) st ora (tock w) = (y, u)" by fastforce
  have key: "Type (b eid) \<noteq> PersonalRecordBrokenRoutingKey" using Cons.prems(2) by simp
  have run: "(case y of Inl err \<Rightarrow> fatalE err None
     | Inr st' \<Rightarrow> bindE sleepE (\<lambda>ok. if ok then emit_session cd v cfg bs st' else retE None)) ora u = (x, w')"
    using Cons.prems(1) y by (simp add: bindE_prims tryE_def eid_def)
  show ?case
  proof (cases "outbox (db u) = outbox (db (tock w)) \<and> (\<exists>e. y = Inl e)")
    case True
    then show ?thesis using run
      by (intro exI [of _ 0] exI [of _ "[]"]) (auto simp: fatalE_def bindE_def ctxErrE_def failE_def retE_def split: if_splits)
  next
    case False
    with emitEnvelope_rows [OF y] obtain r new where r: "outbox (db u) = outbox (db w) @ r # new" "row_of cd (b eid) r" "list_all record_row new"
      by auto
    have nr: "\<not> record_row r" using r(2) key by (simp add: row_of_def)
    have none: "filter (\<lambda>r. \<not> record_row r) new = []" using r(3) by (auto simp: filter_empty_conv list_all_iff)
    have stop: ?thesis if "outbox (db w') = outbox (db u)" "\<not> (\<exists>st'. x = Inr (Some st'))"
      using that r nr none by (intro exI [of _ 1] exI [of _ "r # new"]) (auto split: sum.splits option.splits)
    show ?thesis
    proof (cases y)
      case (Inl e)
      then show ?thesis using run by (intro stop) (auto simp: fatalE_def bindE_def ctxErrE_def failE_def retE_def split: if_splits)
    next
      case (Inr st')
      show ?thesis
      proof (cases "o_done ora (tick u)")
        case True
        then show ?thesis using run Inr by (intro stop) (auto simp: sleepE_def bindE_def ctxErrE_def retE_def)
      next
        case False
        then have "emit_session cd v cfg bs st' ora (tock u) = (x, w')"
          using run Inr by (simp add: sleepE_def bindE_def ctxErrE_def retE_def)
        from Cons.IH [OF this] Cons.prems(2) obtain n new2 where n: "n \<le> length bs" "outbox (db w') = outbox (db u) @ new2"
          "list_all2 (\<lambda>b r. \<exists>eid. row_of cd (b eid) r) (take n bs) (filter (\<lambda>r. \<not> record_row r) new2)"
          "case x of Inr (Some st') \<Rightarrow> n = length bs | _ \<Rightarrow> True" by auto
        show ?thesis using n r nr none
          by (intro exI [of _ "Suc n"] exI [of _ "r # new @ new2"]) (auto split: sum.splits option.splits)
      qed
    qed
  qed
qed (auto simp: retE_def)

text \<open>The keys of a session's events.\<close>

definition session_keys :: "string set" where
  "session_keys = {SessionStartedRoutingKey, DriverCheckedInRoutingKey, LapRecordedRoutingKey, ScannerOfflineRoutingKey,
     ScannerOnlineRoutingKey, SessionEndedRoutingKey}"

definition keyed :: "builder list \<Rightarrow> bool" where
  "keyed bs \<longleftrightarrow> (\<forall>b\<in>set bs. \<forall>eid. Type (b eid) \<in> session_keys)"

lemmas session_envelopes = NewScannerOfflineEnvelope_def NewScannerOnlineEnvelope_def NewLapRecordedEnvelope_def
  NewSessionStartedEnvelope_def NewSessionEndedEnvelope_def NewCheckedInEnvelope_def NewDomainEnvelope_def

lemma keyed_step: "keyed (gs_out st) \<Longrightarrow> keyed (gs_out (gen_step cfg corr sid chk ow st ic))"
  by (auto simp: keyed_def gen_step_def session_keys_def session_envelopes Let_def split: prod.splits)

lemma keyed_loop: "keyed (gs_out st) \<Longrightarrow> keyed (gs_out (gen_loop cfg corr sid chk ow st cs))"
  by (induction cs rule: rev_induct) (auto simp: gen_loop_snoc keyed_step)

lemma keyed_GenerateSession: "keyed (fst (GenerateSession s rng k corr base))"
proof -
  have "keyed (gs_out (gen_start cfg ((\<lambda>eid. NewSessionStartedEnvelope eid src corr sid base) # map (check_in cfg corr base) ds) base))" for cfg src sid ds
    by (auto simp: keyed_def gen_start_def check_in_def session_keys_def session_envelopes Let_def)
  from keyed_loop [OF this] show ?thesis
    unfolding GenerateSession_def Let_def
    by (auto simp: keyed_def session_keys_def session_envelopes Let_def split: prod.splits)
qed

lemmas routing_keys = SessionStartedRoutingKey_def DriverCheckedInRoutingKey_def LapRecordedRoutingKey_def ScannerOfflineRoutingKey_def
  ScannerOnlineRoutingKey_def SessionEndedRoutingKey_def PersonalRecordBrokenRoutingKey_def

lemma session_not_record: "b \<in> set (fst (GenerateSession s rng k corr base)) \<Longrightarrow> Type (b eid) \<noteq> PersonalRecordBrokenRoutingKey"
proof -
  assume "b \<in> set (fst (GenerateSession s rng k corr base))"
  then have "Type (b eid) \<in> session_keys" using keyed_GenerateSession by (auto simp: keyed_def)
  then show ?thesis by (auto simp: session_keys_def routing_keys)
qed

text \<open>C36: the events of a session reach the outbox in order and without gaps. However statements fail and
  whenever the context is cancelled: apart from \<open>personal_record.broken\<close> rows, the rows that emitting
  a generated session appends to the outbox are, one for one and in order, the first \<open>n\<close> events of
  the session, each under its key with its encoding and pending; and when the emission completes,
  these are all of them.\<close>

theorem session_events_in_order:
  "case emit_session cd v cfg (fst (GenerateSession s rng k corr base)) st ora w of (x, w') \<Rightarrow>
     \<exists>n new. n \<le> length (fst (GenerateSession s rng k corr base)) \<and> outbox (db w') = outbox (db w) @ new
       \<and> list_all2 (\<lambda>b r. \<exists>eid. row_of cd (b eid) r) (take n (fst (GenerateSession s rng k corr base)))
           (filter (\<lambda>r. RoutingKey r \<noteq> PersonalRecordBrokenRoutingKey) new)
       \<and> (case x of Inr (Some st') \<Rightarrow> n = length (fst (GenerateSession s rng k corr base)) | _ \<Rightarrow> True)"
  using emit_session_rows [of "fst (GenerateSession s rng k corr base)"] session_not_record by (fastforce split: prod.splits)

end
