(* ===== verification/Leaderboard_Store.thy ===== *)
theory Leaderboard_Store
  imports Consumer_Spine "HOL-Library.Multiset"
begin

text \<open>
  The Leaderboard's read model: the standings rules (services/leaderboard/internal/domain/standings.go)
  and the store (internal/persistence/store.go) over its tables inbox, sessions and standings. The
  SQL statements are translated to operations on the tables. The theorems: the tables stay
  well-formed, a session's life cycle only moves forward, and the standings refine the abstract
  specification that keeps, per session and driver, the first of the fastest laps applied.
\<close>

section \<open>services/leaderboard/internal/domain/standings.go\<close>

record Lap =
  l_MasterID :: string
  l_LapTimeMs :: int
  l_At :: string
  l_Seq :: int

record DriverBest =
  MasterID :: string
  BestLapMs :: int
  BestLapAt :: string
  BestLapSeq :: int

record RankedRow =
  Position :: int
  rk_MasterID :: string
  rk_BestLapMs :: int
  IsFastest :: bool

definition ImprovesBest :: "DriverBest option \<Rightarrow> Lap \<Rightarrow> bool" where
  "ImprovesBest prev lap = (case prev of None \<Rightarrow> True | Some b \<Rightarrow> l_LapTimeMs lap < BestLapMs b)"

text \<open>The comparison of \<open>sort.SliceStable\<close>, as the code writes it.\<close>

definition rank_less :: "DriverBest \<Rightarrow> DriverBest \<Rightarrow> bool" where
  "rank_less a b =
     (if BestLapMs a \<noteq> BestLapMs b then BestLapMs a < BestLapMs b
      else if BestLapAt a \<noteq> BestLapAt b then BestLapAt a < BestLapAt b
      else BestLapSeq a < BestLapSeq b)"

text \<open>A stable sort by a strict weak order: insert each element after the ones it does not precede.\<close>

fun insert_stable :: "('a \<Rightarrow> 'a \<Rightarrow> bool) \<Rightarrow> 'a \<Rightarrow> 'a list \<Rightarrow> 'a list" where
  "insert_stable lt x [] = [x]"
| "insert_stable lt x (y # ys) = (if lt y x then y # insert_stable lt x ys else x # y # ys)"

definition SliceStable :: "('a \<Rightarrow> 'a \<Rightarrow> bool) \<Rightarrow> 'a list \<Rightarrow> 'a list" where
  "SliceStable lt xs = foldr (insert_stable lt) xs []"

definition Rank :: "DriverBest list \<Rightarrow> RankedRow list" where
  "Rank bests =
     (let sorted = SliceStable rank_less bests
      in map (\<lambda>i. \<lparr>Position = int i + 1, rk_MasterID = MasterID (sorted ! i), rk_BestLapMs = BestLapMs (sorted ! i),
                   IsFastest = (i = 0)\<rparr>) [0..<length sorted])"

definition ShortMasterID :: "string \<Rightarrow> string" where
  "ShortMasterID masterID =
     (let i = length (takeWhile (\<lambda>c. c \<noteq> CHR ''-'') masterID)
      in if CHR ''-'' \<in> set masterID \<and> i > 0 then take i masterID else masterID)"

section \<open>The tables\<close>

datatype session_status = StatusImplicit | StatusActive | StatusFinished

text \<open>The life cycle's order: implicit, active, finished.\<close>

fun status_rank :: "session_status \<Rightarrow> nat" where
  "status_rank StatusImplicit = 0"
| "status_rank StatusActive = 1"
| "status_rank StatusFinished = 2"

instantiation session_status :: linorder
begin

definition less_eq_session_status :: "session_status \<Rightarrow> session_status \<Rightarrow> bool" where
  "a \<le> b \<longleftrightarrow> status_rank a \<le> status_rank b"

definition less_session_status :: "session_status \<Rightarrow> session_status \<Rightarrow> bool" where
  "a < b \<longleftrightarrow> status_rank a < status_rank b"

instance
proof
  fix x y :: session_status
  show "x \<le> y \<Longrightarrow> y \<le> x \<Longrightarrow> x = y"
    by (cases x; cases y) (simp_all add: less_eq_session_status_def)
qed (auto simp: less_eq_session_status_def less_session_status_def)

end

record SessionRow =
  ss_id :: string
  ss_epoch :: int
  ss_status :: session_status
  ss_started_at :: "string option"
  ss_ended_at :: "string option"

record StandingRow =
  sd_session_id :: string
  sd_best :: DriverBest
  sd_display_name :: "string option"

text \<open>\<open>ingest_seq\<close> is the handler's in-memory counter \<open>seq\<close>, kept beside the tables.\<close>

record leaderboard_db = inbox_db +
  sessions :: "SessionRow list"
  standings :: "StandingRow list"
  ingest_seq :: int

section \<open>services/leaderboard/internal/persistence/store.go\<close>

definition hasSeen :: "string \<Rightarrow> (leaderboard_db, bool) io" where
  "hasSeen i = InboxHasSeen i"

definition markSeen :: "string \<Rightarrow> string \<Rightarrow> string \<Rightarrow> (leaderboard_db, unit) io" where
  "markSeen i eventType processedAt = InboxMarkSeen i eventType processedAt"

definition NULLIF_empty :: "string \<Rightarrow> string option" where
  "NULLIF_empty s = (if s = '''' then None else Some s)"

definition COALESCE :: "'a option \<Rightarrow> 'a \<Rightarrow> 'a option" where
  "COALESCE x y = (case x of None \<Rightarrow> Some y | Some _ \<Rightarrow> x)"

definition known :: "leaderboard_db \<Rightarrow> string \<Rightarrow> bool" where
  "known d s \<longleftrightarrow> s \<in> ss_id ` set (sessions d)"

definition next_epoch :: "leaderboard_db \<Rightarrow> int" where
  "next_epoch d = (if sessions d = [] then 0 else Max (set (map ss_epoch (sessions d)))) + 1"

definition ensureSession :: "string \<Rightarrow> session_status \<Rightarrow> string \<Rightarrow> string \<Rightarrow> (leaderboard_db, bool) io" where
  "ensureSession sessionID initialStatus startedAt endedAt = execE (\<lambda>d.
     if known d sessionID then Inr (d, False)
     else Inr (d\<lparr>sessions := sessions d @ [\<lparr>ss_id = sessionID, ss_epoch = next_epoch d, ss_status = initialStatus,
            ss_started_at = NULLIF_empty startedAt, ss_ended_at = NULLIF_empty endedAt\<rparr>]\<rparr>, True))"

definition best_of :: "leaderboard_db \<Rightarrow> string \<Rightarrow> string \<Rightarrow> DriverBest option" where
  "best_of d s m = map_option sd_best
     (find (\<lambda>r. sd_session_id r = s \<and> MasterID (sd_best r) = m) (standings d))"

definition getBest :: "string \<Rightarrow> string \<Rightarrow> (leaderboard_db, DriverBest option) io" where
  "getBest sessionID masterID = queryE (\<lambda>d. best_of d sessionID masterID)"

text \<open>\<open>INSERT \<dots> ON CONFLICT(session_id, master_id) DO UPDATE\<close>: the display name is kept.\<close>

definition upsertBest :: "string \<Rightarrow> DriverBest \<Rightarrow> (leaderboard_db, unit) io" where
  "upsertBest sessionID b = execE (\<lambda>d.
     if (\<exists>r \<in> set (standings d). sd_session_id r = sessionID \<and> MasterID (sd_best r) = MasterID b)
     then Inr (d\<lparr>standings := upd_where (\<lambda>r. sd_session_id r = sessionID \<and> MasterID (sd_best r) = MasterID b)
                  (\<lambda>r. r\<lparr>sd_best := b\<rparr>) (standings d)\<rparr>, ())
     else Inr (d\<lparr>standings := standings d @ [\<lparr>sd_session_id = sessionID, sd_best = b, sd_display_name = None\<rparr>]\<rparr>, ()))"

text \<open>The results of the three operations are (applied, duplicate).\<close>

definition ApplyLap :: "string \<Rightarrow> string \<Rightarrow> string \<Rightarrow> string \<Rightarrow> Lap \<Rightarrow> (leaderboard_db, bool \<times> bool) io" where
  "ApplyLap envelopeID eventType processedAt sessionID lap = WithinTx (
     bindE (hasSeen envelopeID) (\<lambda>seen.
       if seen then retE (False, True)
       else bindE (ensureSession sessionID StatusImplicit '''' '''') (\<lambda>created.
            bindE (getBest sessionID (l_MasterID lap)) (\<lambda>prev.
            bindE (if ImprovesBest prev lap
                   then bindE (upsertBest sessionID \<lparr>MasterID = l_MasterID lap, BestLapMs = l_LapTimeMs lap,
                                 BestLapAt = l_At lap, BestLapSeq = l_Seq lap\<rparr>) (\<lambda>_. retE True)
                   else retE False) (\<lambda>applied.
            bindE (markSeen envelopeID eventType processedAt) (\<lambda>_.
            retE (applied \<or> created, False)))))))"

definition reconcile_started :: "string \<Rightarrow> string \<Rightarrow> (leaderboard_db, nat) io" where
  "reconcile_started sessionID startedAt = execE (\<lambda>d.
     let hit = (\<lambda>r. ss_id r = sessionID \<and> (ss_status r = StatusImplicit \<or> ss_started_at r = None))
     in Inr (d\<lparr>sessions := upd_where hit
               (\<lambda>r. r\<lparr>ss_status := (if ss_status r = StatusImplicit then StatusActive else ss_status r),
                       ss_started_at := COALESCE (ss_started_at r) startedAt\<rparr>) (sessions d)\<rparr>,
             length (filter hit (sessions d))))"

definition ApplySessionStarted :: "string \<Rightarrow> string \<Rightarrow> string \<Rightarrow> string \<Rightarrow> string \<Rightarrow> (leaderboard_db, bool \<times> bool) io" where
  "ApplySessionStarted envelopeID eventType processedAt sessionID startedAt = WithinTx (
     bindE (hasSeen envelopeID) (\<lambda>seen.
       if seen then retE (False, True)
       else bindE (ensureSession sessionID StatusActive startedAt '''') (\<lambda>created.
            bindE (if created then retE True
                   else bindE (reconcile_started sessionID startedAt) (\<lambda>n. retE (n > 0))) (\<lambda>applied.
            bindE (markSeen envelopeID eventType processedAt) (\<lambda>_.
            retE (applied, False))))))"

definition reconcile_ended :: "string \<Rightarrow> string \<Rightarrow> (leaderboard_db, nat) io" where
  "reconcile_ended sessionID endedAt = execE (\<lambda>d.
     let hit = (\<lambda>r. ss_id r = sessionID \<and> (ss_status r \<noteq> StatusFinished \<or> ss_ended_at r = None))
     in Inr (d\<lparr>sessions := upd_where hit
               (\<lambda>r. r\<lparr>ss_status := StatusFinished, ss_ended_at := COALESCE (ss_ended_at r) endedAt\<rparr>) (sessions d)\<rparr>,
             length (filter hit (sessions d))))"

definition ApplySessionEnded :: "string \<Rightarrow> string \<Rightarrow> string \<Rightarrow> string \<Rightarrow> string \<Rightarrow> (leaderboard_db, bool \<times> bool) io" where
  "ApplySessionEnded envelopeID eventType processedAt sessionID endedAt = WithinTx (
     bindE (hasSeen envelopeID) (\<lambda>seen.
       if seen then retE (False, True)
       else bindE (ensureSession sessionID StatusFinished '''' endedAt) (\<lambda>created.
            bindE (if created then retE True
                   else bindE (reconcile_ended sessionID endedAt) (\<lambda>n. retE (n > 0))) (\<lambda>applied.
            bindE (markSeen envelopeID eventType processedAt) (\<lambda>_.
            retE (applied, False))))))"

record Board =
  bd_SessionID :: string
  bd_Status :: session_status
  bd_StartedAt :: string
  bd_EndedAt :: string
  bd_Bests :: "DriverBest list"

definition current_session :: "leaderboard_db \<Rightarrow> SessionRow option" where
  "current_session d = (case sort_key (\<lambda>r. - ss_epoch r) (sessions d) of [] \<Rightarrow> None | r # _ \<Rightarrow> Some r)"

definition bests_of :: "leaderboard_db \<Rightarrow> string \<Rightarrow> DriverBest list" where
  "bests_of d s = sort_key (\<lambda>b. (BestLapMs b, BestLapAt b, BestLapSeq b))
     (map sd_best (filter (\<lambda>r. sd_session_id r = s) (standings d)))"

definition str_of :: "string option \<Rightarrow> string" where
  "str_of x = (case x of None \<Rightarrow> '''' | Some s \<Rightarrow> s)"

definition CurrentBoard :: "(leaderboard_db, Board option) io" where
  "CurrentBoard = WithinTx (
     bindE (queryE current_session) (\<lambda>row. case row of
       None \<Rightarrow> retE None
     | Some r \<Rightarrow> bindE (queryE (\<lambda>d. bests_of d (ss_id r))) (\<lambda>bests.
         retE (Some \<lparr>bd_SessionID = ss_id r, bd_Status = ss_status r, bd_StartedAt = str_of (ss_started_at r),
                     bd_EndedAt = str_of (ss_ended_at r), bd_Bests = bests\<rparr>))))"

definition MaxSeq :: "(leaderboard_db, int) io" where
  "MaxSeq = queryE (\<lambda>d. if standings d = [] then 0 else Max (set (map (BestLapSeq \<circ> sd_best) (standings d))))"

section \<open>What the operations do to the tables\<close>

definition lapBest :: "Lap \<Rightarrow> DriverBest" where
  "lapBest lap = \<lparr>MasterID = l_MasterID lap, BestLapMs = l_LapTimeMs lap, BestLapAt = l_At lap, BestLapSeq = l_Seq lap\<rparr>"

definition ensure_db :: "string \<Rightarrow> session_status \<Rightarrow> string \<Rightarrow> string \<Rightarrow> leaderboard_db \<Rightarrow> leaderboard_db" where
  "ensure_db s st sa ea d = (if known d s then d
     else d\<lparr>sessions := sessions d @ [\<lparr>ss_id = s, ss_epoch = next_epoch d, ss_status = st,
            ss_started_at = NULLIF_empty sa, ss_ended_at = NULLIF_empty ea\<rparr>]\<rparr>)"

definition put_best :: "string \<Rightarrow> DriverBest \<Rightarrow> leaderboard_db \<Rightarrow> leaderboard_db" where
  "put_best s b d =
     (if (\<exists>r \<in> set (standings d). sd_session_id r = s \<and> MasterID (sd_best r) = MasterID b)
      then d\<lparr>standings := upd_where (\<lambda>r. sd_session_id r = s \<and> MasterID (sd_best r) = MasterID b)
                  (\<lambda>r. r\<lparr>sd_best := b\<rparr>) (standings d)\<rparr>
      else d\<lparr>standings := standings d @ [\<lparr>sd_session_id = s, sd_best = b, sd_display_name = None\<rparr>]\<rparr>)"

definition promote :: "string \<Rightarrow> SessionRow \<Rightarrow> SessionRow" where
  "promote a r = r\<lparr>ss_status := (if ss_status r = StatusImplicit then StatusActive else ss_status r),
                  ss_started_at := COALESCE (ss_started_at r) a\<rparr>"

definition finish :: "string \<Rightarrow> SessionRow \<Rightarrow> SessionRow" where
  "finish a r = r\<lparr>ss_status := StatusFinished, ss_ended_at := COALESCE (ss_ended_at r) a\<rparr>"

text \<open>The events the projection consumes, and their meaning on the tables.\<close>

datatype lb_event = ELap string Lap | EStarted string string | EEnded string string

fun event_db :: "lb_event \<Rightarrow> leaderboard_db \<Rightarrow> leaderboard_db" where
  "event_db (ELap s lap) d =
     (let d1 = ensure_db s StatusImplicit '''' '''' d
      in if ImprovesBest (best_of d s (l_MasterID lap)) lap then put_best s (lapBest lap) d1 else d1)"
| "event_db (EStarted s a) d =
     (if known d s then d\<lparr>sessions := upd_where (\<lambda>r. ss_id r = s) (promote a) (sessions d)\<rparr>
      else ensure_db s StatusActive a '''' d)"
| "event_db (EEnded s a) d =
     (if known d s then d\<lparr>sessions := upd_where (\<lambda>r. ss_id r = s) (finish a) (sessions d)\<rparr>
      else ensure_db s StatusFinished '''' a d)"

fun apply_event :: "string \<Rightarrow> string \<Rightarrow> string \<Rightarrow> lb_event \<Rightarrow> (leaderboard_db, bool \<times> bool) io" where
  "apply_event i ty at (ELap s lap) = ApplyLap i ty at s lap"
| "apply_event i ty at (EStarted s a) = ApplySessionStarted i ty at s a"
| "apply_event i ty at (EEnded s a) = ApplySessionEnded i ty at s a"

lemma known_simps [simp]: "known (d\<lparr>inbox := x\<rparr>) s = known d s" "known (d\<lparr>standings := y\<rparr>) s = known d s"
  by (simp_all add: known_def)

lemma best_of_simps [simp]:
  "best_of (d\<lparr>inbox := x\<rparr>) s m = best_of d s m" "best_of (d\<lparr>sessions := y\<rparr>) s m = best_of d s m"
  by (simp_all add: best_of_def)

lemma best_of_ensure [simp]: "best_of (ensure_db s st sa ea d) s' m = best_of d s' m"
  by (simp add: ensure_db_def)

lemma ensureSession_Inr: "ensureSession s st sa ea ora w = (Inr c, w') \<Longrightarrow>
   c = (\<not> known (db w) s) \<and> db w' = ensure_db s st sa ea (db w)"
  by (auto simp: ensureSession_def execE_def ensure_db_def split: if_splits)

lemma getBest_Inr: "getBest s m ora w = (Inr b, w') \<Longrightarrow> b = best_of (db w) s m \<and> db w' = db w"
  by (auto simp: getBest_def queryE_def split: if_splits)

lemma upsertBest_Inr: "upsertBest s b ora w = (Inr u, w') \<Longrightarrow> db w' = put_best s b (db w)"
  by (auto simp: upsertBest_def execE_def put_best_def split: if_splits)

lemma reconcile_started_Inr: "reconcile_started s a ora w = (Inr n, w') \<Longrightarrow>
   db w' = (db w)\<lparr>sessions := upd_where (\<lambda>r. ss_id r = s) (promote a) (sessions (db w))\<rparr>"
  by (auto simp: reconcile_started_def execE_def upd_where_def promote_def COALESCE_def Let_def
      split: if_splits option.splits)

lemma reconcile_ended_Inr: "reconcile_ended s a ora w = (Inr n, w') \<Longrightarrow>
   db w' = (db w)\<lparr>sessions := upd_where (\<lambda>r. ss_id r = s) (finish a) (sessions (db w))\<rparr>"
  by (auto simp: reconcile_ended_def execE_def upd_where_def finish_def COALESCE_def Let_def
      split: if_splits option.splits)

text \<open>The three operations are the shared transaction around a body of their own.\<close>

fun event_body :: "lb_event \<Rightarrow> (leaderboard_db, bool \<times> bool) io" where
  "event_body (ELap s lap) =
     bindE (ensureSession s StatusImplicit '''' '''') (\<lambda>created.
     bindE (getBest s (l_MasterID lap)) (\<lambda>prev.
     bindE (if ImprovesBest prev lap then bindE (upsertBest s (lapBest lap)) (\<lambda>_. retE True) else retE False) (\<lambda>applied.
     retE (applied \<or> created, False))))"
| "event_body (EStarted s a) =
     bindE (ensureSession s StatusActive a '''') (\<lambda>created.
     bindE (if created then retE True else bindE (reconcile_started s a) (\<lambda>n. retE (n > 0))) (\<lambda>applied.
     retE (applied, False)))"
| "event_body (EEnded s a) =
     bindE (ensureSession s StatusFinished '''' a) (\<lambda>created.
     bindE (if created then retE True else bindE (reconcile_ended s a) (\<lambda>n. retE (n > 0))) (\<lambda>applied.
     retE (applied, False)))"

lemma apply_event_once: "apply_event i ty at ev = once i ty at (False, True) (event_body ev)"
  by (cases ev) (simp_all add: once_def ApplyLap_def ApplySessionStarted_def ApplySessionEnded_def hasSeen_def
      markSeen_def bindE_assoc lapBest_def cong: if_cong)

lemma event_body_Inr: "event_body ev ora w = (Inr r, w') \<Longrightarrow> \<not> snd r \<and> db w' = event_db ev (db w)"
  by (cases ev)
    (auto simp: bindE_eq_Inr retE_def Let_def ensure_db_def split: if_splits
      dest!: ensureSession_Inr getBest_Inr upsertBest_Inr reconcile_started_Inr reconcile_ended_Inr)

lemma quiet_event_body [quiet_intros]: "quiet (event_body ev)"
  by (cases ev) (auto intro!: quiet_intros simp: ensureSession_def getBest_def upsertBest_def reconcile_started_def
      reconcile_ended_def)

lemma inbox_event [simp]: "inbox (event_db ev d) = inbox d"
  by (cases ev) (simp_all add: Let_def ensure_db_def put_best_def)

lemma apply_event_cases:
  assumes "apply_event i ty at ev ora w = (r, w')"
  obtains (failed) e where "r = Inl e" "db w' = db w"
  | (duplicate) "r = Inr (False, True)" "seen (db w) i" "db w' = db w"
  | (applied) a where "r = Inr (a, False)" "\<not> seen (db w) i"
      "db w' = (event_db ev (db w))\<lparr>inbox := inbox (db w) @ [\<lparr>in_id = i, in_type = ty, in_processed_at = at\<rparr>]\<rparr>"
proof (cases r)
  case (Inl e)
  with assms have "once i ty at (False, True) (event_body ev) ora w = (Inl e, w')" by (simp add: apply_event_once)
  then show ?thesis using Inl failed by (auto dest: once_Inl)
next
  case (Inr p)
  with assms have "once i ty at (False, True) (event_body ev) ora w = (Inr p, w')" by (simp add: apply_event_once)
  from once_Inr [OF this] show ?thesis
  proof (elim disjE conjE exE)
    fix u
    assume u: "\<not> seen (db w) i" "event_body ev ora (tock (tock w)) = (Inr p, u)"
      "db w' = (db u)\<lparr>inbox := inbox (db u) @ [\<lparr>in_id = i, in_type = ty, in_processed_at = at\<rparr>]\<rparr>"
    then have "\<not> snd p" "db u = event_db ev (db w)" using event_body_Inr [OF u(2)] by auto
    then show ?thesis using applied [of "fst p"] u(1,3) Inr by (cases p) (auto simp: seen_def)
  qed (use duplicate Inr in auto)
qed

section \<open>Well-formed tables\<close>

text \<open>The keys of the migrations, and that every standing belongs to a session.\<close>

definition lb_ok :: "leaderboard_db \<Rightarrow> bool" where
  "lb_ok d \<longleftrightarrow> distinct (map ss_id (sessions d)) \<and> distinct (map ss_epoch (sessions d))
     \<and> distinct (map (\<lambda>r. (sd_session_id r, MasterID (sd_best r))) (standings d))
     \<and> sd_session_id ` set (standings d) \<subseteq> ss_id ` set (sessions d)"

lemma next_epoch_fresh: "r \<in> set (sessions d) \<Longrightarrow> ss_epoch r < next_epoch d"
  by (force simp: next_epoch_def intro: Max_ge)

lemma lb_ok_ensure: "lb_ok d \<Longrightarrow> lb_ok (ensure_db s st sa ea d)"
  by (auto simp: lb_ok_def ensure_db_def known_def dest!: next_epoch_fresh)

lemma known_ensure [simp]: "known (ensure_db s st sa ea d) s' \<longleftrightarrow> known d s' \<or> s' = s"
  by (auto simp: ensure_db_def known_def)

lemma known_subset: "sd_session_id ` set (standings d) \<subseteq> ss_id ` set (sessions d) \<longleftrightarrow>
    (\<forall>r \<in> set (standings d). known d (sd_session_id r))"
  by (auto simp: known_def)

lemma lb_ok_put: "lb_ok d \<Longrightarrow> known d s \<Longrightarrow> lb_ok (put_best s b d)"
proof (cases "\<exists>r \<in> set (standings d). sd_session_id r = s \<and> MasterID (sd_best r) = MasterID b")
  case True
  assume ok: "lb_ok d"
  let ?q = "\<lambda>r. sd_session_id r = s \<and> MasterID (sd_best r) = MasterID b"
  have "map (\<lambda>r. (sd_session_id r, MasterID (sd_best r))) (upd_where ?q (\<lambda>r. r\<lparr>sd_best := b\<rparr>) rs)
      = map (\<lambda>r. (sd_session_id r, MasterID (sd_best r))) rs" for rs :: "StandingRow list"
    by (induction rs) auto
  then show ?thesis using ok unfolding put_best_def if_P [OF True]
    by (auto simp: lb_ok_def set_upd_where)
next
  case False
  assume "lb_ok d" "known d s"
  with False show ?thesis by (auto simp: lb_ok_def put_best_def known_def)
qed

lemma lb_ok_upd_sessions:
  assumes "lb_ok d" "\<And>r. ss_id (f r) = ss_id r" "\<And>r. ss_epoch (f r) = ss_epoch r"
  shows "lb_ok (d\<lparr>sessions := upd_where p f (sessions d)\<rparr>)"
proof -
  have "ss_id ` set (upd_where p f (sessions d)) = ss_id ` set (sessions d)"
    using assms(2) by (metis list.set_map map_upd_where)
  then show ?thesis using assms by (simp add: lb_ok_def map_upd_where)
qed

lemma lb_ok_event: "lb_ok d \<Longrightarrow> lb_ok (event_db ev d)"
  by (cases ev) (auto simp: Let_def lb_ok_ensure lb_ok_put promote_def finish_def intro!: lb_ok_upd_sessions)

lemma lb_ok_inbox [simp]: "lb_ok (d\<lparr>inbox := x\<rparr>) = lb_ok d"
  by (simp add: lb_ok_def)

section \<open>Forward only\<close>

text \<open>
  \<open>forward d d'\<close>: every session of \<open>d\<close> is still there with its epoch, its status did not move
  back, timestamps once set are kept; every standing of \<open>d\<close> is still there and no slower.
\<close>

definition session_le :: "SessionRow \<Rightarrow> SessionRow \<Rightarrow> bool" where
  "session_le r r' \<longleftrightarrow> ss_id r' = ss_id r \<and> ss_epoch r' = ss_epoch r \<and> ss_status r \<le> ss_status r'
     \<and> (ss_started_at r \<noteq> None \<longrightarrow> ss_started_at r' = ss_started_at r)
     \<and> (ss_ended_at r \<noteq> None \<longrightarrow> ss_ended_at r' = ss_ended_at r)"

definition forward :: "leaderboard_db \<Rightarrow> leaderboard_db \<Rightarrow> bool" where
  "forward d d' \<longleftrightarrow> (\<forall>r \<in> set (sessions d). \<exists>r' \<in> set (sessions d'). session_le r r')
     \<and> (\<forall>s m b. best_of d s m = Some b \<longrightarrow> (\<exists>b'. best_of d' s m = Some b' \<and> BestLapMs b' \<le> BestLapMs b))"

lemma session_le_refl [simp]: "session_le r r"
  by (simp add: session_le_def)

lemma session_le_same: "r \<in> A \<Longrightarrow> \<exists>r' \<in> A. session_le r r'"
  using session_le_refl by blast

lemma session_le_trans: "session_le a b \<Longrightarrow> session_le b c \<Longrightarrow> session_le a c"
  by (auto simp: session_le_def)

lemma forward_refl [simp]: "forward d d"
  by (auto simp: forward_def intro: session_le_same)

lemma forward_trans: "forward a b \<Longrightarrow> forward b c \<Longrightarrow> forward a c"
  unfolding forward_def by (meson session_le_trans order_trans)

lemma forward_inbox [simp]: "forward d (d'\<lparr>inbox := x\<rparr>) = forward d d'"
  by (simp add: forward_def)

lemma best_of_put: "best_of (put_best s b d) s' m' = (if s' = s \<and> m' = MasterID b then Some b else best_of d s' m')"
proof -
  let ?q = "\<lambda>r. sd_session_id r = s \<and> MasterID (sd_best r) = MasterID b"
  have hit: "\<exists>r \<in> set rs. ?q r \<Longrightarrow>
      map_option sd_best (find ?q (upd_where ?q (\<lambda>r. r\<lparr>sd_best := b\<rparr>) rs)) = Some b" for rs
    by (induction rs) auto
  have other: "\<not> (s' = s \<and> m' = MasterID b) \<Longrightarrow>
      map_option sd_best (find (\<lambda>r. sd_session_id r = s' \<and> MasterID (sd_best r) = m') (upd_where ?q (\<lambda>r. r\<lparr>sd_best := b\<rparr>) rs))
      = map_option sd_best (find (\<lambda>r. sd_session_id r = s' \<and> MasterID (sd_best r) = m') rs)" for rs
    by (induction rs) auto
  have app: "find p (rs @ [x]) = (case find p rs of None \<Rightarrow> if p x then Some x else None | Some y \<Rightarrow> Some y)"
    for p :: "StandingRow \<Rightarrow> bool" and rs x
    by (induction rs) auto
  have none: "\<not> (\<exists>r \<in> set rs. ?q r) \<Longrightarrow> find ?q rs = None" for rs
    by (auto simp: find_None_iff)
  show ?thesis
    using hit [of "standings d"] other [of "standings d"] none [of "standings d"]
    by (auto simp: best_of_def put_best_def app split: option.splits)
qed

lemma forward_ensure [simp]: "forward d (ensure_db s st sa ea d)"
  by (auto simp: forward_def ensure_db_def intro: session_le_same)

lemma forward_upd_sessions:
  assumes "\<And>r. session_le r (f r)"
  shows "forward d (d\<lparr>sessions := upd_where p f (sessions d)\<rparr>)"
proof -
  have "\<exists>r' \<in> set (upd_where p f (sessions d)). session_le r r'" if "r \<in> set (sessions d)" for r
    using that assms [of r] unfolding set_upd_where by (intro bexI [of _ "if p r then f r else r"]) auto
  then show ?thesis by (simp add: forward_def)
qed

lemma status_order [simp]: "StatusImplicit \<le> x" "x \<le> StatusFinished" for x :: session_status
  by (cases x; simp add: less_eq_session_status_def)+

lemma forward_put:
  assumes "ImprovesBest (best_of d s (l_MasterID lap)) lap"
  shows "forward d (put_best s (lapBest lap) d)"
proof -
  have "sessions (put_best s (lapBest lap) d) = sessions d" by (simp add: put_best_def)
  then show ?thesis
    using assms unfolding forward_def best_of_put
    by (auto simp: lapBest_def ImprovesBest_def split: option.splits intro: session_le_same)
qed

lemma forward_event: "forward d (event_db ev d)"
proof (cases ev)
  case (ELap s lap)
  have "forward d (put_best s (lapBest lap) (ensure_db s StatusImplicit '''' '''' d))"
    if "ImprovesBest (best_of d s (l_MasterID lap)) lap"
    by (rule forward_trans [OF forward_ensure forward_put]) (use that in simp)
  then show ?thesis using ELap by (simp add: Let_def)
next
  case (EStarted s a)
  have "session_le r (promote a r)" for r by (auto simp: session_le_def promote_def COALESCE_def)
  then show ?thesis using EStarted by (simp add: forward_upd_sessions)
next
  case (EEnded s a)
  have "session_le r (finish a r)" for r by (auto simp: session_le_def finish_def COALESCE_def)
  then show ?thesis using EEnded by (simp add: forward_upd_sessions)
qed

section \<open>A stream of events\<close>

text \<open>
  The consumer applies a stream of events, each under its envelope id. An operation that returns an
  error leaves no effect (the message goes to the retry queue). The result is the list of events
  whose application committed as the first of its envelope.
\<close>

type_synonym tagged = "string \<times> string \<times> string \<times> lb_event"

fun apply_all :: "tagged list \<Rightarrow> (leaderboard_db, lb_event list) io" where
  "apply_all [] = retE []"
| "apply_all ((i, ty, at, ev) # es) = tryE (apply_event i ty at ev) (\<lambda>r.
     bindE (apply_all es) (\<lambda>evs. retE (case r of
         Inl e \<Rightarrow> evs
       | Inr (applied, duplicate) \<Rightarrow> if duplicate then evs else ev # evs)))"

lemma event_db_inbox [simp]: "event_db ev (d\<lparr>inbox := x\<rparr>) = (event_db ev d)\<lparr>inbox := x\<rparr>"
  by (cases ev) (auto simp: Let_def ensure_db_def put_best_def next_epoch_def)

lemma foldl_event_inbox [simp]:
  "foldl (\<lambda>d ev. event_db ev d) (d\<lparr>inbox := x\<rparr>) evs = (foldl (\<lambda>d ev. event_db ev d) d evs)\<lparr>inbox := x\<rparr>"
  by (induction evs arbitrary: d) simp_all

lemma apply_all_run:
  "\<exists>evs w' x. apply_all es ora w = (Inr evs, w') \<and> db w' = (foldl (\<lambda>d ev. event_db ev d) (db w) evs)\<lparr>inbox := x\<rparr>"
proof (induction es arbitrary: w)
  case Nil
  then show ?case by (auto simp: retE_def intro!: exI [of _ "inbox (db w)"])
next
  case (Cons e es)
  obtain i ty at ev where e: "e = (i, ty, at, ev)" by (metis prod_cases4)
  obtain r w1 where r: "apply_event i ty at ev ora w = (r, w1)" by fastforce
  obtain evs w' x where rest: "apply_all es ora w1 = (Inr evs, w')"
    "db w' = (foldl (\<lambda>d ev. event_db ev d) (db w1) evs)\<lparr>inbox := x\<rparr>" using Cons.IH by blast
  have run: "apply_all (e # es) ora w = (Inr (case r of Inl e \<Rightarrow> evs
       | Inr (applied, duplicate) \<Rightarrow> if duplicate then evs else ev # evs), w')"
    using r rest(1) by (simp add: e tryE_def bindE_def retE_def)
  from r show ?case
  proof (cases rule: apply_event_cases)
    case (applied a)
    then show ?thesis using run rest(2) by auto
  qed (use run rest(2) in auto)
qed

section \<open>The specification\<close>

text \<open>
  What the board promises, as a function of the events alone: a driver's best in a session is the
  first of the fastest laps, the session's status is the furthest one any event implies, and the
  current session is the one seen last for the first time.
\<close>

fun laps_of :: "string \<Rightarrow> string \<Rightarrow> lb_event list \<Rightarrow> Lap list" where
  "laps_of s m [] = []"
| "laps_of s m (ELap s' lap # evs) =
     (if s' = s \<and> l_MasterID lap = m then lap # laps_of s m evs else laps_of s m evs)"
| "laps_of s m (ev # evs) = laps_of s m evs"

definition fastest :: "Lap list \<Rightarrow> Lap" where
  "fastest ls = hd (filter (\<lambda>l. \<forall>l' \<in> set ls. l_LapTimeMs l \<le> l_LapTimeMs l') ls)"

definition spec_best :: "string \<Rightarrow> string \<Rightarrow> lb_event list \<Rightarrow> DriverBest option" where
  "spec_best s m evs = (if laps_of s m evs = [] then None else Some (lapBest (fastest (laps_of s m evs))))"

fun ev_session :: "lb_event \<Rightarrow> string" where
  "ev_session (ELap s lap) = s"
| "ev_session (EStarted s a) = s"
| "ev_session (EEnded s a) = s"

fun ev_status :: "lb_event \<Rightarrow> session_status" where
  "ev_status (ELap s lap) = StatusImplicit"
| "ev_status (EStarted s a) = StatusActive"
| "ev_status (EEnded s a) = StatusFinished"

definition spec_status :: "string \<Rightarrow> lb_event list \<Rightarrow> session_status option" where
  "spec_status s evs = (case filter (\<lambda>ev. ev_session ev = s) evs of
     [] \<Rightarrow> None | e # es \<Rightarrow> Some (fold (\<lambda>ev st. max (ev_status ev) st) es (ev_status e)))"

text \<open>The sessions in the order they were first seen.\<close>

definition first_seen :: "lb_event list \<Rightarrow> string list" where
  "first_seen evs = fold (\<lambda>ev acc. if ev_session ev \<in> set acc then acc else acc @ [ev_session ev]) evs []"

lemma laps_of_snoc: "laps_of s m (evs @ [ev]) = laps_of s m evs @ laps_of s m [ev]"
  by (induction s m evs rule: laps_of.induct) auto

lemma fastest_mem:
  "ls \<noteq> [] \<Longrightarrow> fastest ls \<in> set ls \<and> (\<forall>l \<in> set ls. l_LapTimeMs (fastest ls) \<le> l_LapTimeMs l)"
proof -
  assume "ls \<noteq> []"
  then have "Min (l_LapTimeMs ` set ls) \<in> l_LapTimeMs ` set ls" by (intro Min_in) auto
  then obtain l where "l \<in> set ls" "l_LapTimeMs l = Min (l_LapTimeMs ` set ls)" by auto
  then have "filter (\<lambda>l. \<forall>l' \<in> set ls. l_LapTimeMs l \<le> l_LapTimeMs l') ls \<noteq> []"
    by (auto simp: filter_empty_conv intro!: bexI [of _ l])
  then show ?thesis unfolding fastest_def using hd_in_set by fastforce
qed

lemma fastest_snoc:
  "fastest (ls @ [l]) = (if ls = [] \<or> l_LapTimeMs l < l_LapTimeMs (fastest ls) then l else fastest ls)"
proof (cases "ls = []")
  case True
  then show ?thesis by (simp add: fastest_def)
next
  case False
  note f = fastest_mem [OF False]
  show ?thesis
  proof (cases "l_LapTimeMs l < l_LapTimeMs (fastest ls)")
    case True
    then have "filter (\<lambda>k. \<forall>l' \<in> set (ls @ [l]). l_LapTimeMs k \<le> l_LapTimeMs l') ls = []"
      using f by (fastforce simp: filter_empty_conv)
    then show ?thesis using True f by (fastforce simp: fastest_def)
  next
    case False
    then have "filter (\<lambda>k. \<forall>l' \<in> set (ls @ [l]). l_LapTimeMs k \<le> l_LapTimeMs l') ls
        = filter (\<lambda>k. \<forall>l' \<in> set ls. l_LapTimeMs k \<le> l_LapTimeMs l') ls"
      using f by (intro filter_cong) force+
    moreover have "filter (\<lambda>k. \<forall>l' \<in> set ls. l_LapTimeMs k \<le> l_LapTimeMs l') ls \<noteq> []"
      using f by (auto simp: filter_empty_conv)
    ultimately show ?thesis using False \<open>ls \<noteq> []\<close> unfolding fastest_def by simp
  qed
qed

lemma spec_best_snoc:
  "spec_best s m (evs @ [ev]) = (case ev of
     ELap s' lap \<Rightarrow> if s' = s \<and> l_MasterID lap = m \<and> ImprovesBest (spec_best s m evs) lap
       then Some (lapBest lap) else spec_best s m evs
   | _ \<Rightarrow> spec_best s m evs)"
  by (cases ev) (auto simp: spec_best_def laps_of_snoc fastest_snoc ImprovesBest_def lapBest_def)

lemma spec_status_snoc:
  "spec_status s (evs @ [ev]) = (if ev_session ev = s
     then Some (case spec_status s evs of None \<Rightarrow> ev_status ev | Some st \<Rightarrow> max (ev_status ev) st)
     else spec_status s evs)"
  by (auto simp: spec_status_def split: list.splits)

lemma first_seen_snoc:
  "first_seen (evs @ [ev]) = (if ev_session ev \<in> set (first_seen evs) then first_seen evs
     else first_seen evs @ [ev_session ev])"
  by (simp add: first_seen_def)

definition status_of :: "leaderboard_db \<Rightarrow> string \<Rightarrow> session_status option" where
  "status_of d s = map_option ss_status (find (\<lambda>r. ss_id r = s) (sessions d))"

lemma find_snoc: "find p (xs @ [x]) = (case find p xs of None \<Rightarrow> if p x then Some x else None | Some y \<Rightarrow> Some y)"
  by (induction xs) auto

lemma find_upd_where:
  "(\<And>r. k (f r) = k r) \<Longrightarrow> find (\<lambda>r. k r = s) (upd_where (\<lambda>r. k r = s') f rs)
     = map_option (\<lambda>r. if s = s' then f r else r) (find (\<lambda>r. k r = s) rs)"
  by (induction rs) auto

lemma known_find: "known d s \<longleftrightarrow> find (\<lambda>r. ss_id r = s) (sessions d) \<noteq> None"
  by (force simp: known_def find_None_iff)

lemma known_status: "known d s \<longleftrightarrow> status_of d s \<noteq> None"
  by (simp add: known_find status_of_def)

lemma status_of_event:
  "status_of (event_db ev d) s = (if ev_session ev = s
     then Some (case status_of d s of None \<Rightarrow> ev_status ev | Some st \<Rightarrow> max (ev_status ev) st)
     else status_of d s)"
proof -
  have ens: "status_of (ensure_db s' st sa ea d) s
      = (if known d s then status_of d s else if s = s' then Some st else None)" for s' st sa ea
    by (auto simp: ensure_db_def status_of_def find_snoc known_find split: option.splits)
  have put: "status_of (put_best s' b d') s = status_of d' s" for s' b d'
    by (simp add: status_of_def put_best_def)
  have pro: "max StatusActive x = (if x = StatusImplicit then StatusActive else x)" "max StatusFinished x = StatusFinished"
    "max StatusImplicit x = x" for x :: session_status
    by (cases x; simp add: max_def less_eq_session_status_def)+
  show ?thesis
  proof (cases ev)
    case (ELap s' lap)
    then show ?thesis by (auto simp: Let_def put ens known_status pro split: option.splits)
  next
    case (EStarted s' a)
    then show ?thesis
      by (auto simp: ens known_status pro, auto simp: status_of_def find_upd_where promote_def pro option.map_comp comp_def
          split: option.splits)
  next
    case (EEnded s' a)
    then show ?thesis
      by (auto simp: ens known_status pro, auto simp: status_of_def find_upd_where finish_def pro option.map_comp comp_def
          split: option.splits)
  qed
qed

lemma best_of_event:
  "best_of (event_db ev d) s m = (case ev of
     ELap s' lap \<Rightarrow> if s' = s \<and> l_MasterID lap = m \<and> ImprovesBest (best_of d s m) lap
       then Some (lapBest lap) else best_of d s m
   | _ \<Rightarrow> best_of d s m)"
  by (cases ev) (auto simp: Let_def best_of_put lapBest_def)

lemma sessions_event:
  "map ss_id (sessions (event_db ev d)) = (if known d (ev_session ev) then map ss_id (sessions d)
     else map ss_id (sessions d) @ [ev_session ev])
   \<and> map ss_epoch (sessions (event_db ev d)) = (if known d (ev_session ev) then map ss_epoch (sessions d)
     else map ss_epoch (sessions d) @ [next_epoch d])"
  by (cases ev) (auto simp: Let_def ensure_db_def put_best_def map_upd_where promote_def finish_def)

definition empty_board :: "leaderboard_db \<Rightarrow> bool" where
  "empty_board d \<longleftrightarrow> sessions d = [] \<and> standings d = []"

lemma next_epoch_upto: "map ss_epoch (sessions d) = map int [1..<Suc n] \<Longrightarrow> next_epoch d = int (Suc n)"
proof -
  assume a: "map ss_epoch (sessions d) = map int [1..<Suc n]"
  show ?thesis
  proof (cases n)
    case (Suc k)
    then have "sessions d \<noteq> []" using a by auto
    moreover have "Max (set (map ss_epoch (sessions d))) = int n"
      unfolding a using Suc by (intro Max_eqI) auto
    ultimately show ?thesis by (simp add: next_epoch_def)
  qed (use a in \<open>simp add: next_epoch_def\<close>)
qed

lemma events_refine:
  assumes "empty_board d"
  defines "D \<equiv> \<lambda>evs. foldl (\<lambda>d ev. event_db ev d) d evs"
  shows "best_of (D evs) s m = spec_best s m evs" and "status_of (D evs) s = spec_status s evs"
    and "map ss_id (sessions (D evs)) = first_seen evs"
    and "map ss_epoch (sessions (D evs)) = map int [1..<Suc (length (first_seen evs))]"
proof -
  show "best_of (D evs) s m = spec_best s m evs"
  proof (induction evs rule: rev_induct)
    case Nil
    then show ?case using assms(1) by (simp add: D_def best_of_def empty_board_def spec_best_def)
  next
    case (snoc ev evs)
    then show ?case by (simp add: D_def best_of_event spec_best_snoc split: lb_event.splits)
  qed
  show "status_of (D evs) s = spec_status s evs"
  proof (induction evs rule: rev_induct)
    case Nil
    then show ?case using assms(1) by (simp add: D_def status_of_def empty_board_def spec_status_def)
  next
    case (snoc ev evs)
    then show ?case by (simp add: D_def status_of_event spec_status_snoc)
  qed
  have "map ss_id (sessions (D evs)) = first_seen evs
      \<and> map ss_epoch (sessions (D evs)) = map int [1..<Suc (length (first_seen evs))]"
  proof (induction evs rule: rev_induct)
    case Nil
    then show ?case using assms(1) by (simp add: D_def empty_board_def first_seen_def)
  next
    case (snoc ev evs)
    have "known (D evs) (ev_session ev) \<longleftrightarrow> ev_session ev \<in> set (first_seen evs)"
      using snoc by (simp add: known_def flip: list.set_map)
    then show ?case using snoc sessions_event [of ev "D evs"] next_epoch_upto [of "D evs" "length (first_seen evs)"]
      by (simp add: D_def first_seen_snoc)
  qed
  then show "map ss_id (sessions (D evs)) = first_seen evs"
    "map ss_epoch (sessions (D evs)) = map int [1..<Suc (length (first_seen evs))]" by auto
qed

section \<open>Theorems\<close>

lemma foldl_event_ok: "lb_ok d \<Longrightarrow> lb_ok (foldl (\<lambda>d ev. event_db ev d) d evs)"
  by (induction evs arbitrary: d) (simp_all add: lb_ok_event)

lemma foldl_event_forward: "forward d (foldl (\<lambda>d ev. event_db ev d) d evs)"
proof (induction evs rule: rev_induct)
  case (snoc ev evs)
  then show ?case using forward_trans [OF snoc forward_event [of _ ev]] by simp
qed simp

text \<open>C12: the read model stays well-formed and only moves forward. Whatever stream of laps, starts and
  ends is applied, in whatever order, with redeliveries and with statements that fail, the keys of
  the tables stay unique and every standing keeps its session; no session disappears, changes
  its epoch, falls back from finished to active or from active to implicit, or loses a
  timestamp it had; and no driver's best lap gets slower or is lost.\<close>

theorem leaderboard_forward_only:
  assumes "lb_ok (db w)" and "apply_all es ora w = (r, w')"
  shows "lb_ok (db w') \<and> forward (db w) (db w')"
proof -
  from apply_all_run [of es ora w] assms(2) obtain evs x where
    "db w' = (foldl (\<lambda>d ev. event_db ev d) (db w) evs)\<lparr>inbox := x\<rparr>" by auto
  then show ?thesis using foldl_event_ok [OF assms(1)] foldl_event_forward by simp
qed

definition demo_board :: "leaderboard_db world" where
  "demo_board = \<lparr>db = \<lparr>inbox = [], sessions = [], standings = [], ingest_seq = 0\<rparr>, tick = 0, trace = []\<rparr>"

definition demo_ok :: env_oracle where
  "demo_ok = \<lparr>o_fault = \<lambda>_. False, o_clk = \<lambda>_. 0, o_uuid = \<lambda>_. ''u'', o_done = \<lambda>_. False, o_send = \<lambda>_. True\<rparr>"

definition demo_lap :: "int \<Rightarrow> string \<Rightarrow> int \<Rightarrow> lb_event" where
  "demo_lap ms at n = ELap ''s'' \<lparr>l_MasterID = ''m'', l_LapTimeMs = ms, l_At = at, l_Seq = n\<rparr>"

theorem leaderboard_forward_only_witness:
  "let w' = snd (apply_all [(''1'', ''session.ended'', ''t'', EEnded ''s'' ''9''), (''2'', ''session.started'', ''t'', EStarted ''s'' ''1'')]
              demo_ok demo_board)
   in lb_ok (db w') \<and> forward (db demo_board) (db w')"
proof -
  have "lb_ok (db demo_board)" by (simp add: demo_board_def lb_ok_def)
  from leaderboard_forward_only [OF this prod.collapse [symmetric]] show ?thesis unfolding Let_def .
qed

lemma sort_key_head:
  assumes "sort_key f xs = r # rs"
  shows "r \<in> set xs \<and> (\<forall>x \<in> set xs. f r \<le> f x)"
proof -
  have s: "set (sort_key f xs) = set xs" by simp
  have "sorted (map f (r # rs))" using sorted_sort_key [of f xs] assms by simp
  then have "\<forall>x \<in> set (r # rs). f r \<le> f x" by auto
  then show ?thesis using s unfolding assms by (metis list.set_intros(1))
qed

lemma current_session_last:
  assumes "map ss_epoch (sessions d) = map int [1..<Suc n]"
  shows "map_option ss_id (current_session d) = (if sessions d = [] then None else Some (ss_id (last (sessions d))))"
proof (cases "sort_key (\<lambda>r. - ss_epoch r) (sessions d)")
  case Nil
  then have "sessions d = []" by (metis length_0_conv length_sort)
  then show ?thesis by (simp add: current_session_def)
next
  case (Cons r rs)
  from sort_key_head [OF this] have r: "r \<in> set (sessions d)" "\<And>x. x \<in> set (sessions d) \<Longrightarrow> ss_epoch x \<le> ss_epoch r"
    by auto
  then have ne: "sessions d \<noteq> []" by auto
  have len: "length (sessions d) = n" using arg_cong [OF assms, of length] by simp
  from r(1) obtain i where i: "i < n" "r = sessions d ! i" using len by (metis in_set_conv_nth)
  have ep: "ss_epoch (sessions d ! k) = int (Suc k)" if "k < n" for k
    using arg_cong [OF assms, of "\<lambda>l. l ! k"] that len by (simp del: upt_Suc)
  have "ss_epoch (sessions d ! (n - 1)) \<le> ss_epoch r" using r(2) i(1) len by simp
  then have "i = n - 1" using ep [of i] ep [of "n - 1"] i by auto
  then show ?thesis using Cons i ne len by (simp add: current_session_def last_conv_nth)
qed

text \<open>C13: the store implements its specification. From an empty board, whatever stream is applied and
  whatever fails on the way, the tables are the function of the committed events that the
  specification names: per session and driver the first of the fastest laps, per session the
  furthest status any of its events implies, so a late or replayed start never reopens a finished
  session and laps before the start are kept; and the current board is the session seen last for
  the first time.\<close>

theorem leaderboard_refines_spec:
  assumes "empty_board (db w)"
  shows "\<exists>evs w'. apply_all es ora w = (Inr evs, w')
    \<and> (\<forall>s m. best_of (db w') s m = spec_best s m evs)
    \<and> (\<forall>s. status_of (db w') s = spec_status s evs)
    \<and> map ss_id (sessions (db w')) = first_seen evs
    \<and> map_option ss_id (current_session (db w')) = (if first_seen evs = [] then None else Some (last (first_seen evs)))"
proof -
  from apply_all_run [of es ora w] obtain evs w' x where
    run: "apply_all es ora w = (Inr evs, w')" "db w' = (foldl (\<lambda>d ev. event_db ev d) (db w) evs)\<lparr>inbox := x\<rparr>" by auto
  note ref = events_refine [OF assms, of evs]
  have ids: "map ss_id (sessions (db w')) = first_seen evs" using ref(3) run(2) by simp
  moreover have "map_option ss_id (current_session (db w'))
      = (if first_seen evs = [] then None else Some (last (first_seen evs)))"
    using current_session_last [of "db w'" "length (first_seen evs)"] ref(4) run(2) ids
    by (auto simp: last_map simp flip: ids)
  ultimately show ?thesis using run ref(1,2) by (auto simp: status_of_def)
qed

theorem leaderboard_refines_spec_witness:
  "\<exists>evs w'. apply_all [(''1'', ''l'', ''t'', demo_lap 900 ''a'' 1), (''2'', ''l'', ''t'', demo_lap 800 ''b'' 2),
        (''2'', ''l'', ''t'', demo_lap 800 ''b'' 3), (''3'', ''e'', ''t'', EEnded ''s'' ''z'')] demo_ok demo_board = (Inr evs, w')
     \<and> best_of (db w') ''s'' ''m'' = spec_best ''s'' ''m'' evs \<and> status_of (db w') ''s'' = spec_status ''s'' evs"
proof -
  have "empty_board (db demo_board)" by (simp add: demo_board_def empty_board_def)
  from leaderboard_refines_spec [OF this] show ?thesis by blast
qed

section \<open>Exactly once\<close>

text \<open>The events of a stream, each envelope id the first time only.\<close>

fun firsts :: "string set \<Rightarrow> tagged list \<Rightarrow> lb_event list" where
  "firsts ids [] = []"
| "firsts ids ((i, ty, at, ev) # es) = (if i \<in> ids then firsts ids es else ev # firsts (insert i ids) es)"

lemma goes_event_body: "no_fault ora \<Longrightarrow> goes ora (event_body ev)"
  by (cases ev) (auto intro!: goes_intros simp: ensureSession_def getBest_def upsertBest_def reconcile_started_def
      reconcile_ended_def Let_def)

lemma apply_event_no_fault:
  assumes "no_fault ora"
  obtains r w' where "apply_event i ty at ev ora w = (Inr r, w')"
proof -
  let ?u = "tock (tock w)"
  obtain r v where v: "event_body ev ora ?u = (Inr r, v)" using goes_event_body [OF assms] by (rule goesE)
  have "inbox (db v) = inbox (db w)" using event_body_Inr [OF v] by simp
  then have "\<exists>r v'. bindE (InboxHasSeen i) (\<lambda>s. if s then retE (False, True)
      else bindE (event_body ev) (\<lambda>r. bindE (InboxMarkSeen i ty at) (\<lambda>_. retE r))) ora (tock w) = (Inr r, v')"
    using assms v
    by (auto simp: no_fault_def bindE_def InboxHasSeen_def queryE_def InboxMarkSeen_def execE_def retE_def seen_def)
  then show ?thesis
    using that goes_WithinTx [OF assms] unfolding apply_event_once once_def by metis
qed

text \<open>The rows a stream adds to the inbox: one per envelope id that is new, the first time it comes.\<close>

fun first_rows :: "string set \<Rightarrow> tagged list \<Rightarrow> InboxRow list" where
  "first_rows ids [] = []"
| "first_rows ids ((i, ty, at, ev) # es) =
     (if i \<in> ids then first_rows ids es else \<lparr>in_id = i, in_type = ty, in_processed_at = at\<rparr> # first_rows (insert i ids) es)"

text \<open>C14: every event counts exactly once. While no statement fails, a stream with redeliveries
  (at-least-once delivery) leaves exactly the tables that applying each envelope's event once, when it
  first comes, leaves: the sessions and standings are the fold of these events, the inbox has one new row
  for each of these envelopes, and a redelivery, of an envelope of this stream or of an earlier one, changes
  nothing. The answers (applied or duplicate) say the same.\<close>

theorem leaderboard_exactly_once:
  assumes "no_fault ora"
  shows "\<exists>w'. apply_all es ora w = (Inr (firsts {i. seen (db w) i} es), w')
    \<and> db w' = (foldl (\<lambda>d ev. event_db ev d) (db w) (firsts {i. seen (db w) i} es))
                \<lparr>inbox := inbox (db w) @ first_rows {i. seen (db w) i} es\<rparr>"
proof (induction es arbitrary: w)
  case Nil
  then show ?case by (simp add: retE_def)
next
  case (Cons e es)
  obtain i ty at ev where e: "e = (i, ty, at, ev)" by (metis prod_cases4)
  obtain r w1 where r: "apply_event i ty at ev ora w = (Inr r, w1)"
    using apply_event_no_fault [OF assms] by blast
  obtain w' where rest: "apply_all es ora w1 = (Inr (firsts {i. seen (db w1) i} es), w')"
    "db w' = (foldl (\<lambda>d ev. event_db ev d) (db w1) (firsts {i. seen (db w1) i} es))\<lparr>inbox := inbox (db w1) @ first_rows {i. seen (db w1) i} es\<rparr>"
    using Cons.IH by blast
  from r show ?case
  proof (cases rule: apply_event_cases)
    case duplicate
    then show ?thesis using r rest by (simp add: e tryE_def bindE_def retE_def)
  next
    case (applied a)
    then have "{i. seen (db w1) i} = insert i {i. seen (db w) i}" by (auto simp: seen_def)
    then show ?thesis using applied r rest by (simp add: e tryE_def bindE_def retE_def)
  qed simp
qed

theorem leaderboard_exactly_once_witness:
  "\<exists>w'. apply_all [(''1'', ''l'', ''t'', demo_lap 900 ''a'' 1), (''1'', ''l'', ''t'', demo_lap 800 ''a'' 2)] demo_ok demo_board
     = (Inr [demo_lap 900 ''a'' 1], w') \<and> map in_id (inbox (db w')) = [''1''] \<and> map_option BestLapMs (best_of (db w') ''s'' ''m'') = Some 900"
proof -
  have ok: "no_fault demo_ok" by (simp add: demo_ok_def no_fault_def)
  have none: "{i. seen (db demo_board) i} = {}" by (simp add: seen_def demo_board_def)
  have best: "map_option BestLapMs (best_of (event_db (demo_lap 900 ''a'' 1) (db demo_board)) ''s'' ''m'') = Some 900" by code_simp
  from leaderboard_exactly_once [OF ok, of "[(''1'', ''l'', ''t'', demo_lap 900 ''a'' 1), (''1'', ''l'', ''t'', demo_lap 800 ''a'' 2)]" demo_board] best
  show ?thesis unfolding none by (auto simp: demo_board_def)
qed

section \<open>Standings\<close>

text \<open>The key the comparison orders by.\<close>

definition rank_key :: "DriverBest \<Rightarrow> int \<times> string \<times> int" where
  "rank_key b = (BestLapMs b, BestLapAt b, BestLapSeq b)"

lemma rank_less_key: "rank_less a b \<longleftrightarrow> rank_key a < rank_key b"
  by (auto simp: rank_less_def rank_key_def)

lemma insert_stable_key: "insert_stable (\<lambda>a b. k a < k b) x ys = insort_key k x ys" for k :: "'a \<Rightarrow> 'b::linorder"
  by (induction ys) (auto simp: not_le)

lemma SliceStable_key: "SliceStable (\<lambda>a b. k a < k b) xs = sort_key k xs" for k :: "'a \<Rightarrow> 'b::linorder"
  by (simp add: SliceStable_def sort_key_def insert_stable_key [abs_def])

lemma sort_key_mset_eq:
  assumes "inj_on k (set ys)" "set xs = set ys" "mset xs = mset ys"
  shows "sort_key k xs = sort_key k ys"
proof -
  have "sort (map k zs) = map k (sort_key k zs)" for zs
    by (rule properties_for_sort) simp_all
  moreover have "sort (map k xs) = sort (map k ys)" using assms(3) by (intro properties_for_sort) simp_all
  ultimately have "map k (sort_key k xs) = map k (sort_key k ys)" by metis
  then show ?thesis using assms by (intro map_inj_on [of k]) (auto simp: inj_on_def)
qed

lemma SliceStable_rank: "SliceStable rank_less bests = sort_key rank_key bests"
  by (simp add: rank_less_key [abs_def] SliceStable_key)

text \<open>C15: the standings are the drivers ordered by best lap, then by the time it was set, then by
  ingest order: \<open>Rank\<close> returns one row per driver, numbered from 1, the first and only the first
  flagged fastest; the row order is sorted by the code's own comparison; and it does not depend
  on the order of the input when no two drivers agree in all three keys.\<close>

theorem Rank_correct:
  "\<exists>sorted_bests. mset sorted_bests = mset bests \<and> sorted (map rank_key sorted_bests)
     \<and> Rank bests = map (\<lambda>(i, b). \<lparr>Position = int i + 1, rk_MasterID = MasterID b, rk_BestLapMs = BestLapMs b,
                                   IsFastest = (i = 0)\<rparr>) (enumerate 0 sorted_bests)
     \<and> (distinct (map rank_key bests) \<longrightarrow> (\<forall>bests'. mset bests' = mset bests \<longrightarrow> Rank bests' = Rank bests))"
proof -
  have rows: "Rank bs = map (\<lambda>(i, b). \<lparr>Position = int i + 1, rk_MasterID = MasterID b, rk_BestLapMs = BestLapMs b,
      IsFastest = (i = 0)\<rparr>) (enumerate 0 (sort_key rank_key bs))" for bs
    unfolding Rank_def Let_def SliceStable_rank by (rule nth_equalityI) (simp_all add: nth_enumerate_eq del: upt_Suc)
  have "Rank bests' = Rank bests" if "distinct (map rank_key bests)" "mset bests' = mset bests" for bests'
  proof -
    have "inj_on rank_key (set bests)" "set bests' = set bests"
      using that by (auto simp: distinct_map dest: mset_eq_setD)
    then have "sort_key rank_key bests' = sort_key rank_key bests"
      using that(2) by (intro sort_key_mset_eq)
    then show ?thesis by (simp add: rows)
  qed
  then show ?thesis using rows [of bests] by (intro exI [of _ "sort_key rank_key bests"]) auto
qed

theorem Rank_correct_witness:
  "Rank [\<lparr>MasterID = ''x'', BestLapMs = 800, BestLapAt = ''t2'', BestLapSeq = 4\<rparr>,
         \<lparr>MasterID = ''y'', BestLapMs = 800, BestLapAt = ''t1'', BestLapSeq = 9\<rparr>]
   = Rank [\<lparr>MasterID = ''y'', BestLapMs = 800, BestLapAt = ''t1'', BestLapSeq = 9\<rparr>,
           \<lparr>MasterID = ''x'', BestLapMs = 800, BestLapAt = ''t2'', BestLapSeq = 4\<rparr>]"
  (is "Rank [?x, ?y] = Rank [?y, ?x]")
proof -
  have d: "distinct (map rank_key [?y, ?x])" by (simp add: rank_key_def)
  have m: "mset [?x, ?y] = mset [?y, ?x]" by (simp add: add_mset_commute)
  from Rank_correct [of "[?y, ?x]"] d have "\<forall>bests'. mset bests' = mset [?y, ?x] \<longrightarrow> Rank bests' = Rank [?y, ?x]"
    by blast
  with m show ?thesis by blast
qed

text \<open>The comments say that a driver's \<open>BestLapAt\<close> is the FIRST time the best was achieved. It is the first
  ingested: when two equal laps arrive in the wrong order (a retry of the first one), the board
  keeps the later crossing time, and with it the driver loses the tie-break against a driver
  who set the same time in between.\<close>

lemma late_retry_loses_tie:
  "let w' = snd (apply_all
        [(''1'', ''l'', ''t'', ELap ''s'' \<lparr>l_MasterID = ''m'', l_LapTimeMs = 800, l_At = ''t3'', l_Seq = 1\<rparr>),
         (''2'', ''l'', ''t'', ELap ''s'' \<lparr>l_MasterID = ''n'', l_LapTimeMs = 800, l_At = ''t2'', l_Seq = 2\<rparr>),
         (''3'', ''l'', ''t'', ELap ''s'' \<lparr>l_MasterID = ''m'', l_LapTimeMs = 800, l_At = ''t1'', l_Seq = 3\<rparr>)] demo_ok demo_board)
   in map_option BestLapAt (best_of (db w') ''s'' ''m'') = Some ''t3''
      \<and> map rk_MasterID (Rank (bests_of (db w') ''s'')) = [''n'', ''m'']"
  by code_simp

section \<open>The served board\<close>

text \<open>C17: the board that is served is consistent: when \<open>CurrentBoard\<close> returns a board it is that of the
  session with the highest epoch, with exactly this session's standings, already in the order of
  \<open>Rank\<close>, whose ranking therefore only numbers the rows; the tables are not changed. With no
  session there is no board.\<close>

theorem CurrentBoard_correct:
  assumes "CurrentBoard ora w = (Inr b, w')"
  shows "db w' = db w \<and> (case b of
      None \<Rightarrow> sessions (db w) = []
    | Some bd \<Rightarrow> (\<exists>r \<in> set (sessions (db w)). (\<forall>r' \<in> set (sessions (db w)). ss_epoch r' \<le> ss_epoch r)
        \<and> bd_SessionID bd = ss_id r \<and> bd_Status bd = ss_status r
        \<and> mset (bd_Bests bd) = mset (map sd_best (filter (\<lambda>x. sd_session_id x = ss_id r) (standings (db w))))
        \<and> map rk_MasterID (Rank (bd_Bests bd)) = map MasterID (bd_Bests bd)))"
proof -
  from WithinTx_Inr [OF assms [unfolded CurrentBoard_def]] obtain u where
    u: "bindE (queryE current_session) (\<lambda>row. case row of
         None \<Rightarrow> retE None
       | Some r \<Rightarrow> bindE (queryE (\<lambda>d. bests_of d (ss_id r))) (\<lambda>bests.
           retE (Some \<lparr>bd_SessionID = ss_id r, bd_Status = ss_status r, bd_StartedAt = str_of (ss_started_at r),
                       bd_EndedAt = str_of (ss_ended_at r), bd_Bests = bests\<rparr>))) ora (tock w) = (Inr b, u)" "db w' = db u"
    by blast
  have ids: "map rk_MasterID (Rank bs) = map MasterID (sort_key rank_key bs)" for bs
    unfolding Rank_def Let_def SliceStable_rank by (rule nth_equalityI) (simp_all del: upt_Suc)
  have srt: "sort_key rank_key (bests_of d s) = bests_of d s" for d s
    by (rule sort_key_id_if_sorted) (simp add: bests_of_def rank_key_def [abs_def])
  show ?thesis
  proof (cases "current_session (db w)")
    case None
    then have "sort_key (\<lambda>r. - ss_epoch r) (sessions (db w)) = []"
      by (simp add: current_session_def split: list.splits)
    then have "sessions (db w) = []" by (metis length_0_conv length_sort)
    then show ?thesis using u None by (auto simp: io_defs split: if_splits)
  next
    case (Some r)
    then obtain rs where "sort_key (\<lambda>r. - ss_epoch r) (sessions (db w)) = r # rs"
      by (auto simp: current_session_def split: list.splits)
    from sort_key_head [OF this] have r: "r \<in> set (sessions (db w))" "\<forall>r' \<in> set (sessions (db w)). ss_epoch r' \<le> ss_epoch r"
      by auto
    have "db u = db w" and b: "b = Some \<lparr>bd_SessionID = ss_id r, bd_Status = ss_status r,
        bd_StartedAt = str_of (ss_started_at r), bd_EndedAt = str_of (ss_ended_at r), bd_Bests = bests_of (db w) (ss_id r)\<rparr>"
      using u(1) Some by (auto simp: io_defs split: if_splits)
    then show ?thesis using r u(2) ids [of "bests_of (db w) (ss_id r)"] srt
      by (auto simp: bests_of_def intro!: bexI [of _ r])
  qed
qed

theorem CurrentBoard_correct_witness:
  "\<exists>b w'. CurrentBoard demo_ok demo_board = (Inr b, w') \<and> db w' = db demo_board"
proof -
  have run: "CurrentBoard demo_ok demo_board = (Inr None, snd (CurrentBoard demo_ok demo_board))"
    by (simp add: CurrentBoard_def io_defs demo_ok_def demo_board_def current_session_def)
  from CurrentBoard_correct [OF run] run show ?thesis by blast
qed

end
