(* ===== verification/Leaderboard_Service.thy ===== *)
theory Leaderboard_Service
  imports Leaderboard_Store
begin

text \<open>
  The Leaderboard's consumer (services/leaderboard/internal/consumer/consumer.go): validate, decode,
  dispatch on the type, guard the session id, apply through the store and settle the delivery. The
  handler is an interpretation of the delivery spine.
\<close>

section \<open>The handler\<close>

record LeaderboardHandler = Sinks +
  lb_Validate :: "bytes \<Rightarrow> error option"
  lb_Notify :: bool               \<comment> \<open>is \<open>Notify\<close> set?\<close>

definition leaderboard_park :: "LeaderboardHandler \<Rightarrow> Delivery \<Rightarrow> string \<Rightarrow> (leaderboard_db, unit) io" where
  "leaderboard_park h d reason =
     (if \<not> sk_Park h then nack d False
      else bindE sendE (\<lambda>ok. bindE (emitE (ParkPub (dv_Body d) reason ok)) (\<lambda>_.
        if \<not> ok then nack d True
        else bindE (emitE (Alert ''message_parked'')) (\<lambda>_. ack d))))"

definition leaderboard_retryOrPark :: "LeaderboardHandler \<Rightarrow> Delivery \<Rightarrow> (leaderboard_db, unit) io" where
  "leaderboard_retryOrPark h d =
     (let dec = leaderboard_NextRetry (RetryCount d) (sk_Policy h)
      in if Park dec then leaderboard_park h d ''retries-exhausted''
         else if \<not> sk_Retry h then nack d True
         else bindE sendE (\<lambda>ok. bindE (emitE (RetryPub (dv_Body d) (DelayMs dec) (NextRetries dec) ok)) (\<lambda>_.
           if \<not> ok then nack d True else ack d)))"

definition settle :: "LeaderboardHandler \<Rightarrow> Delivery \<Rightarrow> error + bool \<times> bool \<Rightarrow> (leaderboard_db, bool) io" where
  "settle h d r =
     (case r of
        Inl err \<Rightarrow> bindE (leaderboard_retryOrPark h d) (\<lambda>_. retE False)
      | Inr (applied, duplicate) \<Rightarrow>
          bindE (ack d) (\<lambda>_.
            if duplicate then retE False
            else bindE (whenE (applied \<and> lb_Notify h) (emitE Kicked)) (\<lambda>_. retE True)))"

definition sessionIDOK :: "LeaderboardHandler \<Rightarrow> Delivery \<Rightarrow> string \<Rightarrow> (leaderboard_db, bool) io" where
  "sessionIDOK h d sessionID =
     (if TrimSpace sessionID \<noteq> '''' then retE True
      else bindE (leaderboard_park h d ''blank-session-id'') (\<lambda>_. retE False))"

definition next_seq :: "(leaderboard_db, int) io" where
  "next_seq = memE (\<lambda>d. let n = wrap64 (ingest_seq d + 1) in (d\<lparr>ingest_seq := n\<rparr>, n))"

definition processLap :: "json_codec \<Rightarrow> LeaderboardHandler \<Rightarrow> Delivery \<Rightarrow> IncomingEnvelope \<Rightarrow> (leaderboard_db, unit) io" where
  "processLap cd h d env =
     (case DecodeLapRecorded cd env of
        Inl err \<Rightarrow> leaderboard_park h d ''undecodable-data''
      | Inr data \<Rightarrow>
          bindE (sessionIDOK h d (lap_SessionID data)) (\<lambda>ok.
          if \<not> ok then retE ()
          else bindE next_seq (\<lambda>seq. bindE nowE (\<lambda>now.
            tryE (ApplyLap (ID env) (Type env) (FormatWireTime now) (lap_SessionID data)
                    \<lparr>l_MasterID = lap_MasterID data, l_LapTimeMs = lap_LapTimeMs data, l_At = lap_At data, l_Seq = seq\<rparr>)
              (\<lambda>r. bindE (settle h d r) (\<lambda>_. retE ()))))))"

definition processSessionStarted ::
  "json_codec \<Rightarrow> LeaderboardHandler \<Rightarrow> Delivery \<Rightarrow> IncomingEnvelope \<Rightarrow> (leaderboard_db, unit) io" where
  "processSessionStarted cd h d env =
     (case DecodeSessionStarted cd env of
        Inl err \<Rightarrow> leaderboard_park h d ''undecodable-data''
      | Inr data \<Rightarrow>
          bindE (sessionIDOK h d (st_SessionID data)) (\<lambda>ok.
          if \<not> ok then retE ()
          else bindE nowE (\<lambda>now.
            tryE (ApplySessionStarted (ID env) (Type env) (FormatWireTime now) (st_SessionID data) (st_StartedAt data))
              (\<lambda>r. bindE (settle h d r) (\<lambda>_. retE ())))))"

definition processSessionEnded ::
  "json_codec \<Rightarrow> LeaderboardHandler \<Rightarrow> Delivery \<Rightarrow> IncomingEnvelope \<Rightarrow> (leaderboard_db, unit) io" where
  "processSessionEnded cd h d env =
     (case DecodeSessionEnded cd env of
        Inl err \<Rightarrow> leaderboard_park h d ''undecodable-data''
      | Inr data \<Rightarrow>
          bindE (sessionIDOK h d (en_SessionID data)) (\<lambda>ok.
          if \<not> ok then retE ()
          else bindE nowE (\<lambda>now.
            tryE (ApplySessionEnded (ID env) (Type env) (FormatWireTime now) (en_SessionID data) (en_EndedAt data))
              (\<lambda>r. bindE (settle h d r) (\<lambda>_. retE ())))))"

definition leaderboard_Process :: "json_codec \<Rightarrow> LeaderboardHandler \<Rightarrow> Delivery \<Rightarrow> (leaderboard_db, unit) io" where
  "leaderboard_Process cd h d =
     (case lb_Validate h (dv_Body d) of
        Some err \<Rightarrow> leaderboard_park h d ''contract-invalid''
      | None \<Rightarrow>
          (case DecodeIncoming cd (dv_Body d) of
             Inl err \<Rightarrow> leaderboard_park h d ''undecodable-envelope''
           | Inr env \<Rightarrow>
               if Type env = LapRecordedRoutingKey then processLap cd h d env
               else if Type env = SessionStartedRoutingKey then processSessionStarted cd h d env
               else if Type env = SessionEndedRoutingKey then processSessionEnded cd h d env
               else ack d))"

text \<open>\<open>Run\<close> seeds the counter (main reads \<open>MaxSeq\<close> at startup) and loops.\<close>

definition leaderboard_Run :: "json_codec \<Rightarrow> LeaderboardHandler \<Rightarrow> int \<Rightarrow> consumer_event list \<Rightarrow> (leaderboard_db, unit) io" where
  "leaderboard_Run cd h startSeq evs =
     bindE (memE (\<lambda>d. (d\<lparr>ingest_seq := startSeq\<rparr>, ()))) (\<lambda>_. consumer_run (leaderboard_Process cd h) evs)"

section \<open>The spine\<close>

definition lb_tables :: "leaderboard_db \<Rightarrow> InboxRow list \<times> SessionRow list \<times> StandingRow list" where
  "lb_tables d = (inbox d, sessions d, standings d)"

text \<open>The messages the consumer acks without work: valid, decodable, of another type.\<close>

definition lb_ignores :: "json_codec \<Rightarrow> LeaderboardHandler \<Rightarrow> Delivery \<Rightarrow> bool" where
  "lb_ignores cd h d \<longleftrightarrow> lb_Validate h (dv_Body d) = None
     \<and> (\<exists>env. DecodeIncoming cd (dv_Body d) = Inr env
          \<and> Type env \<notin> {LapRecordedRoutingKey, SessionStartedRoutingKey, SessionEndedRoutingKey})"

lemma leaderboard_park_eq: "leaderboard_park h d reason = park h d reason"
  by (simp add: leaderboard_park_def park_def)

lemma leaderboard_retryOrPark_eq:
  "leaderboard_retryOrPark h d = retryOrPark leaderboard_NextRetry h d"
  by (simp add: leaderboard_retryOrPark_def retryOrPark_def leaderboard_park_eq Let_def cong: if_cong)

abbreviation lb_done :: "bool \<Rightarrow> LeaderboardHandler \<Rightarrow> Delivery \<Rightarrow> leaderboard_db world \<Rightarrow> leaderboard_db world \<Rightarrow> bool" where
  "lb_done ign h d w w' \<equiv> step_done ign (sk_Park h) lb_tables d w w'"

lemma leaderboard_park_done:
  "leaderboard_park h d reason ora w = (r, w') \<Longrightarrow> r = Inr () \<and> lb_done ign h d w w'"
  unfolding leaderboard_park_eq by (rule park_done)

lemma leaderboard_retry_done:
  "leaderboard_retryOrPark h d ora w = (r, w') \<Longrightarrow> r = Inr () \<and> lb_done ign h d w w'"
  unfolding leaderboard_retryOrPark_eq by (rule retryOrPark_done)

lemma apply_settle_done:
  assumes "tryE (apply_event i ty at ev) (\<lambda>r. bindE (settle h d r) (\<lambda>_. retE ())) ora w = (r, w')"
  shows "r = Inr () \<and> lb_done ign h d w w'"
proof (rule tryE_done)
  show "tryE (apply_event i ty at ev) (\<lambda>x. case x of Inl e \<Rightarrow> retryOrPark leaderboard_NextRetry h d
      | Inr a \<Rightarrow> bindE (ack d) (\<lambda>_. whenE (\<not> snd a \<and> fst a \<and> lb_Notify h) (emitE Kicked))) ora w = (r, w')"
    using assms by (auto simp: tryE_def settle_def bindE_def retE_def whenE_def ack_def emitE_def leaderboard_retryOrPark_eq
        split: sum.splits prod.splits if_splits dest: retryOrPark_done)
  show "commits lb_tables (apply_event i ty at ev)"
    unfolding apply_event_once by (rule once_commits [OF quiet_event_body])
qed simp

lemma sessionIDOK_run:
  assumes "bindE (sessionIDOK h d s) (\<lambda>ok. if \<not> ok then retE () else m) ora w = (r, w')"
    and "TrimSpace s \<noteq> '''' \<Longrightarrow> m ora w = (r, w') \<Longrightarrow> r = Inr () \<and> lb_done ign h d w w'"
  shows "r = Inr () \<and> lb_done ign h d w w'"
proof (cases "TrimSpace s = ''''")
  case True
  obtain r1 w1 where "leaderboard_park h d ''blank-session-id'' ora w = (r1, w1)" by fastforce
  with leaderboard_park_done [OF this] show ?thesis using assms(1) True
    by (auto simp: sessionIDOK_def bindE_def retE_def)
next
  case False
  then show ?thesis using assms by (simp add: sessionIDOK_def)
qed

lemma processLap_done:
  assumes "processLap cd h d env ora w = (r, w')"
  shows "r = Inr () \<and> lb_done ign h d w w'"
proof (cases "DecodeLapRecorded cd env")
  case (Inl e)
  then show ?thesis using assms leaderboard_park_done by (simp add: processLap_def)
next
  case (Inr data)
  show ?thesis
  proof (rule sessionIDOK_run)
    show "bindE (sessionIDOK h d (lap_SessionID data)) (\<lambda>ok. if \<not> ok then retE ()
          else bindE next_seq (\<lambda>seq. bindE nowE (\<lambda>now.
            tryE (ApplyLap (ID env) (Type env) (FormatWireTime now) (lap_SessionID data)
                    \<lparr>l_MasterID = lap_MasterID data, l_LapTimeMs = lap_LapTimeMs data, l_At = lap_At data, l_Seq = seq\<rparr>)
              (\<lambda>r. bindE (settle h d r) (\<lambda>_. retE ()))))) ora w = (r, w')"
      using assms Inr by (simp add: processLap_def)
    define n where "n = wrap64 (ingest_seq (db w) + 1)"
    define u where "u = tock (w\<lparr>db := (db w)\<lparr>ingest_seq := n\<rparr>\<rparr>)"
    assume "bindE next_seq (\<lambda>seq. bindE nowE (\<lambda>now.
            tryE (ApplyLap (ID env) (Type env) (FormatWireTime now) (lap_SessionID data)
                    \<lparr>l_MasterID = lap_MasterID data, l_LapTimeMs = lap_LapTimeMs data, l_At = lap_At data, l_Seq = seq\<rparr>)
              (\<lambda>r. bindE (settle h d r) (\<lambda>_. retE ())))) ora w = (r, w')"
    then have "tryE (apply_event (ID env) (Type env) (FormatWireTime (o_clk ora (tick w)))
        (ELap (lap_SessionID data) \<lparr>l_MasterID = lap_MasterID data, l_LapTimeMs = lap_LapTimeMs data, l_At = lap_At data, l_Seq = n\<rparr>))
        (\<lambda>r. bindE (settle h d r) (\<lambda>_. retE ())) ora u = (r, w')"
      by (simp add: bindE_def next_seq_def memE_def nowE_def Let_def u_def n_def)
    from apply_settle_done [OF this, of ign] show "r = Inr () \<and> lb_done ign h d w w'"
      by (auto simp: step_done_def u_def lb_tables_def)
  qed
qed

lemma processSessionStarted_done:
  assumes "processSessionStarted cd h d env ora w = (r, w')"
  shows "r = Inr () \<and> lb_done ign h d w w'"
proof (cases "DecodeSessionStarted cd env")
  case (Inl e)
  then show ?thesis using assms leaderboard_park_done by (simp add: processSessionStarted_def)
next
  case (Inr data)
  let ?m = "bindE nowE (\<lambda>now. tryE (ApplySessionStarted (ID env) (Type env) (FormatWireTime now) (st_SessionID data) (st_StartedAt data))
              (\<lambda>r. bindE (settle h d r) (\<lambda>_. retE ())))"
  show ?thesis
  proof (rule sessionIDOK_run [of h d "st_SessionID data" ?m])
    assume "?m ora w = (r, w')"
    then have "tryE (apply_event (ID env) (Type env) (FormatWireTime (o_clk ora (tick w)))
        (EStarted (st_SessionID data) (st_StartedAt data))) (\<lambda>r. bindE (settle h d r) (\<lambda>_. retE ())) ora (tock w) = (r, w')"
      by (simp add: bindE_def nowE_def)
    from apply_settle_done [OF this, of ign] show "r = Inr () \<and> lb_done ign h d w w'" by (simp add: step_done_def)
  qed (use assms Inr in \<open>simp add: processSessionStarted_def\<close>)
qed

lemma processSessionEnded_done:
  assumes "processSessionEnded cd h d env ora w = (r, w')"
  shows "r = Inr () \<and> lb_done ign h d w w'"
proof (cases "DecodeSessionEnded cd env")
  case (Inl e)
  then show ?thesis using assms leaderboard_park_done by (simp add: processSessionEnded_def)
next
  case (Inr data)
  let ?m = "bindE nowE (\<lambda>now. tryE (ApplySessionEnded (ID env) (Type env) (FormatWireTime now) (en_SessionID data) (en_EndedAt data))
              (\<lambda>r. bindE (settle h d r) (\<lambda>_. retE ())))"
  show ?thesis
  proof (rule sessionIDOK_run [of h d "en_SessionID data" ?m])
    assume "?m ora w = (r, w')"
    then have "tryE (apply_event (ID env) (Type env) (FormatWireTime (o_clk ora (tick w)))
        (EEnded (en_SessionID data) (en_EndedAt data))) (\<lambda>r. bindE (settle h d r) (\<lambda>_. retE ())) ora (tock w) = (r, w')"
      by (simp add: bindE_def nowE_def)
    from apply_settle_done [OF this, of ign] show "r = Inr () \<and> lb_done ign h d w w'" by (simp add: step_done_def)
  qed (use assms Inr in \<open>simp add: processSessionEnded_def\<close>)
qed

lemmas lb_steps_done = leaderboard_park_done processLap_done processSessionStarted_done processSessionEnded_done

lemma leaderboard_Process_done:
  assumes "leaderboard_Process cd h d ora w = (r, w')"
  shows "r = Inr () \<and> lb_done (lb_ignores cd h d) h d w w'"
proof (cases "lb_Validate h (dv_Body d)")
  case (Some e)
  then show ?thesis using assms lb_steps_done(1) by (simp add: leaderboard_Process_def)
next
  case valid: None
  show ?thesis
  proof (cases "DecodeIncoming cd (dv_Body d)")
    case (Inl e)
    then show ?thesis using assms valid lb_steps_done(1) by (simp add: leaderboard_Process_def)
  next
    case (Inr env)
    show ?thesis
    proof (cases "Type env \<in> {LapRecordedRoutingKey, SessionStartedRoutingKey, SessionEndedRoutingKey}")
      case True
      then show ?thesis using assms valid Inr lb_steps_done(2-4)
        by (auto simp: leaderboard_Process_def split: if_splits)
    next
      case False
      then have "lb_ignores cd h d" using valid Inr by (auto simp: lb_ignores_def)
      then show ?thesis using assms valid Inr False ignore_settles
        by (auto simp: leaderboard_Process_def ack_def emitE_def step_done_def)
    qed
  qed
qed

interpretation leaderboard_spine: delivery_spine "leaderboard_Process cd h" "lb_ignores cd h" "sk_Park h" lb_tables
  for cd h
  by unfold_locales (drule leaderboard_Process_done, auto simp: step_done_def)

text \<open>C18: the Leaderboard's consumer loses no message. For every run of \<open>Run\<close>, over any codec, validator,
  wiring and environment, the loop returns, and each delivery it took is settled by its own
  stretch of the trace, in order: exactly one ack or nack of that message; an ack only after the
  state change committed or the retry or the park of this message was published, unless the
  message has a type the board does not project; and never a nack without requeue while a
  parking sink is wired.\<close>

theorem leaderboard_Run_settles:
  "\<exists>w' trs. leaderboard_Run cd h startSeq evs ora w = (Inr (), w') \<and> trace w' = trace w @ concat trs
     \<and> list_all2 (\<lambda>d tr. settled (lb_ignores cd h d) (sk_Park h) (dv_Body d) tr) (taken evs) trs"
proof -
  let ?u = "w\<lparr>db := (db w)\<lparr>ingest_seq := startSeq\<rparr>\<rparr>"
  obtain r w' where run: "consumer_run (leaderboard_Process cd h) evs ora ?u = (r, w')" by fastforce
  from leaderboard_spine.run_settles [OF run] run show ?thesis
    by (auto simp: leaderboard_Run_def bindE_def memE_def)
qed

end
