(* ===== verification/Service_Config.thy ===== *)
theory Service_Config
  imports Identity_Service Simulator_Run Leaderboard_Service
begin

text \<open>
  The configuration of the three services (services/*/internal/config/config.go): every variable is
  read through \<open>getenv\<close> (a function here too, the empty string when unset), defaults are only
  taken for the optional ones, and the first value out of range is an error. The message of an
  error is reduced to the variable it names.
\<close>

section \<open>Reading variables\<close>

type_synonym getenv = "string \<Rightarrow> string"

definition andThen :: "error + 'a \<Rightarrow> ('a \<Rightarrow> error + 'b) \<Rightarrow> error + 'b" where
  "andThen r f = (case r of Inl e \<Rightarrow> Inl e | Inr a \<Rightarrow> f a)"

definition refuse :: "bool \<Rightarrow> string \<Rightarrow> error + 'a \<Rightarrow> error + 'a" where
  "refuse bad key r = (if bad then Inl (ConfigError key) else r)"

text \<open>\<open>strconv.Atoi\<close> and \<open>strconv.ParseInt(_, 10, 64)\<close>: an optional sign, at least one digit, 64 bits.\<close>

definition Atoi :: "string \<Rightarrow> int option" where
  "Atoi s =
     (let (neg, ds) = (case s of CHR ''-'' # t \<Rightarrow> (True, t) | CHR ''+'' # t \<Rightarrow> (False, t) | _ \<Rightarrow> (False, s));
          n = (if neg then - numOf ds else numOf ds)
      in if ds \<noteq> [] \<and> list_all isDigit ds \<and> in64 n then Some n else None)"

definition intEnv :: "getenv \<Rightarrow> string \<Rightarrow> int \<Rightarrow> error + int" where
  "intEnv getenv key def =
     (let raw = TrimSpace (getenv key)
      in if raw = '''' then Inr def
         else (case Atoi raw of None \<Rightarrow> Inl (ConfigError key) | Some n \<Rightarrow> Inr n))"

definition firstNonEmpty :: "string \<Rightarrow> string \<Rightarrow> string" where
  "firstNonEmpty v def = (if TrimSpace v = '''' then def else v)"

definition requiredVars :: "string list" where
  "requiredVars = [''RABBITMQ_HOST'', ''RABBITMQ_PORT'', ''RABBITMQ_USER'', ''RABBITMQ_PASSWORD'']"

fun join :: "string \<Rightarrow> string list \<Rightarrow> string" where
  "join sep [] = ''''"
| "join sep [x] = x"
| "join sep (x # y # zs) = x @ sep @ join sep (y # zs)"

definition missing :: "getenv \<Rightarrow> string list" where
  "missing getenv = filter (\<lambda>k. TrimSpace (getenv k) = '''') requiredVars"

section \<open>What the three configurations share\<close>

record Config =
  RabbitHost :: string
  RabbitPort :: string
  RabbitUser :: string
  RabbitPassword :: string
  RabbitVHost :: string
  HeartbeatInterval :: int
  ShutdownTimeout :: int
  LogLevel :: string
  ServiceName :: string
  LivenessFile :: string
  DBPath :: string
  InstanceID :: string
  ContractDir :: string
  ConsumePrefetch :: int
  DLQMaxAttempts :: int
  DLQRetryBaseMs :: int
  DLQRetryMultiplier :: int
  DLQRetryMaxMs :: int

definition cfg_Policy :: "'a Config_scheme \<Rightarrow> Policy" where
  "cfg_Policy cfg = \<lparr>MaxAttempts = DLQMaxAttempts cfg, BaseMs = DLQRetryBaseMs cfg, Multiplier = DLQRetryMultiplier cfg, MaxMs = DLQRetryMaxMs cfg\<rparr>"

section \<open>services/identity\<close>

record IdentityConfig = Config +
  ic_SourceExchange :: string
  ic_OutboxPollInterval :: int

definition identity_Load :: "getenv \<Rightarrow> error + IdentityConfig" where
  "identity_Load getenv =
     refuse (missing getenv \<noteq> []) (join '', '' (missing getenv)) (
     andThen (intEnv getenv ''HEARTBEAT_INTERVAL_MS'' 1000) (\<lambda>interval. refuse (interval \<le> 0) ''HEARTBEAT_INTERVAL_MS'' (
     andThen (intEnv getenv ''SHUTDOWN_TIMEOUT_MS'' 5000) (\<lambda>shutdown. refuse (shutdown \<le> 0) ''SHUTDOWN_TIMEOUT_MS'' (
     andThen (intEnv getenv ''OUTBOX_POLL_INTERVAL_MS'' 200) (\<lambda>pollInterval. refuse (pollInterval \<le> 0) ''OUTBOX_POLL_INTERVAL_MS'' (
     andThen (intEnv getenv ''CONSUME_PREFETCH'' 16) (\<lambda>prefetch. refuse (prefetch \<le> 0) ''CONSUME_PREFETCH'' (
     andThen (intEnv getenv ''DLQ_MAX_ATTEMPTS'' 5) (\<lambda>dlqMaxAttempts. refuse (dlqMaxAttempts < 1) ''DLQ_MAX_ATTEMPTS'' (
     andThen (intEnv getenv ''DLQ_RETRY_BASE_MS'' 1000) (\<lambda>dlqBaseMs. refuse (dlqBaseMs \<le> 0) ''DLQ_RETRY_BASE_MS'' (
     andThen (intEnv getenv ''DLQ_RETRY_MULTIPLIER'' 2) (\<lambda>dlqMultiplier. refuse (dlqMultiplier < 1) ''DLQ_RETRY_MULTIPLIER'' (
     andThen (intEnv getenv ''DLQ_RETRY_MAX_MS'' 60000) (\<lambda>dlqMaxMs. refuse (dlqMaxMs < dlqBaseMs) ''DLQ_RETRY_MAX_MS'' (
     Inr \<lparr>RabbitHost = getenv ''RABBITMQ_HOST'', RabbitPort = getenv ''RABBITMQ_PORT'', RabbitUser = getenv ''RABBITMQ_USER'',
          RabbitPassword = getenv ''RABBITMQ_PASSWORD'', RabbitVHost = firstNonEmpty (getenv ''RABBITMQ_VHOST'') ''/'',
          HeartbeatInterval = interval, ShutdownTimeout = shutdown, LogLevel = firstNonEmpty (getenv ''LOG_LEVEL'') ''info'',
          ServiceName = firstNonEmpty (getenv ''SERVICE_NAME'') ''identity'',
          LivenessFile = firstNonEmpty (getenv ''LIVENESS_FILE'') ''/tmp/pitwall-identity.live'',
          DBPath = firstNonEmpty (getenv ''DB_PATH'') ''/data/identity.db'', InstanceID = getenv ''INSTANCE_ID'', ContractDir = getenv ''CONTRACT_DIR'',
          ConsumePrefetch = prefetch, DLQMaxAttempts = dlqMaxAttempts, DLQRetryBaseMs = dlqBaseMs, DLQRetryMultiplier = dlqMultiplier,
          DLQRetryMaxMs = dlqMaxMs, ic_SourceExchange = firstNonEmpty (getenv ''SOURCE_EXCHANGE'') ''frontend.events'',
          ic_OutboxPollInterval = pollInterval\<rparr>)))))))))))))))))"

section \<open>services/leaderboard\<close>

record LeaderboardConfig = Config +
  lc_HTTPAddr :: string
  lc_TimingExchange :: string

definition leaderboard_Load :: "getenv \<Rightarrow> error + LeaderboardConfig" where
  "leaderboard_Load getenv =
     refuse (missing getenv \<noteq> []) (join '', '' (missing getenv)) (
     andThen (intEnv getenv ''HEARTBEAT_INTERVAL_MS'' 1000) (\<lambda>interval. refuse (interval \<le> 0) ''HEARTBEAT_INTERVAL_MS'' (
     andThen (intEnv getenv ''SHUTDOWN_TIMEOUT_MS'' 5000) (\<lambda>shutdown.
     andThen (intEnv getenv ''CONSUME_PREFETCH'' 16) (\<lambda>prefetch. refuse (prefetch \<le> 0) ''CONSUME_PREFETCH'' (
     andThen (intEnv getenv ''DLQ_MAX_ATTEMPTS'' 5) (\<lambda>dlqMaxAttempts. refuse (dlqMaxAttempts < 1) ''DLQ_MAX_ATTEMPTS'' (
     andThen (intEnv getenv ''DLQ_RETRY_BASE_MS'' 1000) (\<lambda>dlqBaseMs. refuse (dlqBaseMs \<le> 0) ''DLQ_RETRY_BASE_MS'' (
     andThen (intEnv getenv ''DLQ_RETRY_MULTIPLIER'' 2) (\<lambda>dlqMultiplier. refuse (dlqMultiplier < 1) ''DLQ_RETRY_MULTIPLIER'' (
     andThen (intEnv getenv ''DLQ_RETRY_MAX_MS'' 60000) (\<lambda>dlqMaxMs. refuse (dlqMaxMs < dlqBaseMs) ''DLQ_RETRY_MAX_MS'' (
     Inr \<lparr>RabbitHost = getenv ''RABBITMQ_HOST'', RabbitPort = getenv ''RABBITMQ_PORT'', RabbitUser = getenv ''RABBITMQ_USER'',
          RabbitPassword = getenv ''RABBITMQ_PASSWORD'', RabbitVHost = firstNonEmpty (getenv ''RABBITMQ_VHOST'') ''/'',
          HeartbeatInterval = interval, ShutdownTimeout = shutdown, LogLevel = firstNonEmpty (getenv ''LOG_LEVEL'') ''info'',
          ServiceName = firstNonEmpty (getenv ''SERVICE_NAME'') ''leaderboard'',
          LivenessFile = firstNonEmpty (getenv ''LIVENESS_FILE'') ''/tmp/pitwall-leaderboard.live'',
          DBPath = firstNonEmpty (getenv ''DB_PATH'') ''/data/leaderboard.db'', InstanceID = getenv ''INSTANCE_ID'', ContractDir = getenv ''CONTRACT_DIR'',
          ConsumePrefetch = prefetch, DLQMaxAttempts = dlqMaxAttempts, DLQRetryBaseMs = dlqBaseMs, DLQRetryMultiplier = dlqMultiplier,
          DLQRetryMaxMs = dlqMaxMs, lc_HTTPAddr = firstNonEmpty (getenv ''HTTP_ADDR'') '':8080'',
          lc_TimingExchange = firstNonEmpty (getenv ''TIMING_EXCHANGE'') ''timing.events''\<rparr>))))))))))))))"

section \<open>services/timing\<close>

text \<open>
  \<open>strings.ToLower\<close> only meets comparisons with the words of \<open>boolEnv\<close>. No character outside ASCII is
  lowered to one of their letters, so lowering ASCII letters decides the same comparisons.
\<close>

definition boolEnv :: "getenv \<Rightarrow> string \<Rightarrow> bool \<Rightarrow> error + bool" where
  "boolEnv getenv key def =
     (let raw = TrimSpace (getenv key); low = map ascii_lower raw
      in if raw = '''' then Inr def
         else if low = ''true'' \<or> low = ''1'' then Inr True
         else if low = ''false'' \<or> low = ''0'' then Inr False
         else Inl (ConfigError key))"

text \<open>The problems collected so far are threaded through; each is the variable it names.\<close>

definition requireBounded :: "getenv \<Rightarrow> string \<Rightarrow> int \<Rightarrow> string list \<Rightarrow> int \<times> string list" where
  "requireBounded getenv key least problems =
     (let raw = TrimSpace (getenv key)
      in if raw = '''' then (0, problems @ [key])
         else (case Atoi raw of
             None \<Rightarrow> (0, problems @ [key])
           | Some n \<Rightarrow> if n < least then (0, problems @ [key]) else (n, problems)))"

definition requirePositive :: "getenv \<Rightarrow> string \<Rightarrow> string list \<Rightarrow> int \<times> string list" where
  "requirePositive getenv key problems = requireBounded getenv key 1 problems"

definition requireNonNegative :: "getenv \<Rightarrow> string \<Rightarrow> string list \<Rightarrow> int \<times> string list" where
  "requireNonNegative getenv key problems = requireBounded getenv key 0 problems"

record TimingConfig = Config +
  tc_OutboxPollInterval :: int
  SimulatorEnabled :: bool
  SimDrivers :: int
  SimLapMeanMs :: int
  SimLapStddevMs :: int
  SimSessionLaps :: int
  SimTickMs :: int
  SimSessionGapMs :: int
  SimSeed :: int
  SimSeedSet :: bool
  tc_MinLapTimeMs :: int
  SimTransponders :: int
  tc_UnknownTokenScans :: int
  SimScannerOutageLaps :: int
  SimOutOfSessionLaps :: int

definition loadSeed :: "getenv \<Rightarrow> TimingConfig \<Rightarrow> error + TimingConfig" where
  "loadSeed getenv cfg =
     (let raw = TrimSpace (getenv ''SIM_SEED'')
      in if raw = '''' then Inr cfg
         else (case Atoi raw of None \<Rightarrow> Inl (ConfigError ''SIM_SEED'') | Some seed \<Rightarrow> Inr (cfg\<lparr>SimSeed := seed, SimSeedSet := True\<rparr>)))"

text \<open>The optional knobs, read once the required ones have been found clean.\<close>

definition loadKnobs :: "getenv \<Rightarrow> TimingConfig \<Rightarrow> error + TimingConfig" where
  "loadKnobs getenv cfg =
     andThen (intEnv getenv ''SIM_TRANSPONDERS'' 0) (\<lambda>transponders. refuse (transponders < 0 \<or> transponders > SimDrivers cfg) ''SIM_TRANSPONDERS'' (
     andThen (intEnv getenv ''SIM_UNKNOWN_TOKEN_SCANS'' 0) (\<lambda>unknownTokenScans. refuse (unknownTokenScans < 0) ''SIM_UNKNOWN_TOKEN_SCANS'' (
     andThen (intEnv getenv ''SIM_SCANNER_OUTAGE_LAPS'' 0) (\<lambda>outageLaps. refuse (outageLaps < 0) ''SIM_SCANNER_OUTAGE_LAPS'' (
     refuse (outageLaps \<ge> SimSessionLaps cfg) ''SIM_SCANNER_OUTAGE_LAPS'' (
     andThen (intEnv getenv ''SIM_OUT_OF_SESSION_LAPS'' 0) (\<lambda>outOfSessionLaps. refuse (outOfSessionLaps < 0) ''SIM_OUT_OF_SESSION_LAPS'' (
     andThen (intEnv getenv ''SIM_TICK_MS'' 250) (\<lambda>tick. refuse (tick < 0) ''SIM_TICK_MS'' (
     andThen (intEnv getenv ''SIM_SESSION_GAP_MS'' 5000) (\<lambda>gap. refuse (gap < 0) ''SIM_SESSION_GAP_MS'' (
     loadSeed getenv (cfg\<lparr>SimTransponders := transponders, tc_UnknownTokenScans := unknownTokenScans, SimScannerOutageLaps := outageLaps,
       SimOutOfSessionLaps := outOfSessionLaps, SimTickMs := tick, SimSessionGapMs := gap\<rparr>))))))))))))))"

definition loadSimulator :: "getenv \<Rightarrow> TimingConfig \<Rightarrow> error + TimingConfig" where
  "loadSimulator getenv cfg =
     andThen (boolEnv getenv ''SIMULATOR_ENABLED'' False) (\<lambda>enabled.
       if \<not> enabled then Inr (cfg\<lparr>SimulatorEnabled := enabled\<rparr>)
       else
         let (drivers, problems) = requirePositive getenv ''SIM_DRIVERS'' [];
             (mean, problems) = requirePositive getenv ''SIM_LAP_MEAN_MS'' problems;
             (stddev, problems) = requireNonNegative getenv ''SIM_LAP_STDDEV_MS'' problems;
             (laps, problems) = requirePositive getenv ''SIM_SESSION_LAPS'' problems;
             (minLap, problems) = requirePositive getenv ''MIN_LAP_TIME_MS'' problems
         in refuse (problems \<noteq> []) (join ''; '' problems) (
            refuse (minLap \<ge> mean) ''MIN_LAP_TIME_MS'' (
            loadKnobs getenv (cfg\<lparr>SimulatorEnabled := enabled, SimDrivers := drivers, SimLapMeanMs := mean, SimLapStddevMs := stddev,
              SimSessionLaps := laps, tc_MinLapTimeMs := minLap\<rparr>))))"

definition timing_Load :: "getenv \<Rightarrow> error + TimingConfig" where
  "timing_Load getenv =
     refuse (missing getenv \<noteq> []) (join '', '' (missing getenv)) (
     andThen (intEnv getenv ''HEARTBEAT_INTERVAL_MS'' 1000) (\<lambda>interval. refuse (interval \<le> 0) ''HEARTBEAT_INTERVAL_MS'' (
     andThen (intEnv getenv ''SHUTDOWN_TIMEOUT_MS'' 5000) (\<lambda>shutdown.
     andThen (intEnv getenv ''OUTBOX_POLL_INTERVAL_MS'' 200) (\<lambda>pollInterval. refuse (pollInterval \<le> 0) ''OUTBOX_POLL_INTERVAL_MS'' (
     andThen (intEnv getenv ''CONSUME_PREFETCH'' 16) (\<lambda>prefetch. refuse (prefetch \<le> 0) ''CONSUME_PREFETCH'' (
     andThen (intEnv getenv ''DLQ_MAX_ATTEMPTS'' 5) (\<lambda>dlqMaxAttempts. refuse (dlqMaxAttempts < 1) ''DLQ_MAX_ATTEMPTS'' (
     andThen (intEnv getenv ''DLQ_RETRY_BASE_MS'' 1000) (\<lambda>dlqBaseMs. refuse (dlqBaseMs \<le> 0) ''DLQ_RETRY_BASE_MS'' (
     andThen (intEnv getenv ''DLQ_RETRY_MULTIPLIER'' 2) (\<lambda>dlqMultiplier. refuse (dlqMultiplier < 1) ''DLQ_RETRY_MULTIPLIER'' (
     andThen (intEnv getenv ''DLQ_RETRY_MAX_MS'' 60000) (\<lambda>dlqMaxMs. refuse (dlqMaxMs < dlqBaseMs) ''DLQ_RETRY_MAX_MS'' (
     loadSimulator getenv
       \<lparr>RabbitHost = getenv ''RABBITMQ_HOST'', RabbitPort = getenv ''RABBITMQ_PORT'', RabbitUser = getenv ''RABBITMQ_USER'',
        RabbitPassword = getenv ''RABBITMQ_PASSWORD'', RabbitVHost = firstNonEmpty (getenv ''RABBITMQ_VHOST'') ''/'',
        HeartbeatInterval = interval, ShutdownTimeout = shutdown, LogLevel = firstNonEmpty (getenv ''LOG_LEVEL'') ''info'',
        ServiceName = firstNonEmpty (getenv ''SERVICE_NAME'') ''timing'',
        LivenessFile = firstNonEmpty (getenv ''LIVENESS_FILE'') ''/tmp/pitwall-timing.live'',
        DBPath = firstNonEmpty (getenv ''DB_PATH'') ''/data/timing.db'', InstanceID = getenv ''INSTANCE_ID'', ContractDir = getenv ''CONTRACT_DIR'',
        ConsumePrefetch = prefetch, DLQMaxAttempts = dlqMaxAttempts, DLQRetryBaseMs = dlqBaseMs, DLQRetryMultiplier = dlqMultiplier,
        DLQRetryMaxMs = dlqMaxMs, tc_OutboxPollInterval = pollInterval, SimulatorEnabled = False, SimDrivers = 0, SimLapMeanMs = 0,
        SimLapStddevMs = 0, SimSessionLaps = 0, SimTickMs = 0, SimSessionGapMs = 0, SimSeed = 0, SimSeedSet = False, tc_MinLapTimeMs = 0,
        SimTransponders = 0, tc_UnknownTokenScans = 0, SimScannerOutageLaps = 0, SimOutOfSessionLaps = 0\<rparr>))))))))))))))))"

text \<open>The simulator's configuration as \<open>main.go\<close> builds it; a duration is a product on 64 bits.\<close>

definition simulatorConfig :: "TimingConfig \<Rightarrow> SimConfig" where
  "simulatorConfig cfg =
     \<lparr>sc_Drivers = SimDrivers cfg, sc_Transponders = SimTransponders cfg, sc_LapMeanMs = SimLapMeanMs cfg, sc_LapStddevMs = SimLapStddevMs cfg,
      sc_SessionLaps = SimSessionLaps cfg, sc_MinLapTimeMs = tc_MinLapTimeMs cfg, sc_Tick = wrap64 (SimTickMs cfg * 1000000),
      sc_SessionGap = wrap64 (SimSessionGapMs cfg * 1000000), sc_Source = ServiceName cfg, sc_UnknownTokenScans = tc_UnknownTokenScans cfg,
      sc_ScannerOutageLaps = SimScannerOutageLaps cfg, sc_OutOfSessionLaps = SimOutOfSessionLaps cfg, sc_ObservePR = True,
      sc_OpenOutage = True, sc_CloseOutage = True\<rparr>"

section \<open>What an accepted configuration guarantees\<close>

lemma andThen_Inr: "andThen r f = Inr c \<longleftrightarrow> (\<exists>a. r = Inr a \<and> f a = Inr c)"
  by (simp add: andThen_def split: sum.splits)

lemma refuse_Inr: "refuse bad key r = Inr c \<longleftrightarrow> \<not> bad \<and> r = Inr c"
  by (simp add: refuse_def)

lemma Atoi_in64: "Atoi s = Some n \<Longrightarrow> in64 n"
  by (auto simp: Atoi_def Let_def split: prod.splits if_splits)

lemma intEnv_in64: "intEnv g key d = Inr n \<Longrightarrow> in64 d \<Longrightarrow> in64 n"
  by (auto simp: intEnv_def Let_def dest: Atoi_in64 split: option.splits if_splits)

lemma intEnv_default: "TrimSpace (g key) = '''' \<Longrightarrow> intEnv g key d = Inr d"
  by (simp add: intEnv_def)

lemma requireBounded_clean:
  "requireBounded g key k ps = (n, []) \<longleftrightarrow> ps = [] \<and> k \<le> n \<and> Atoi (TrimSpace (g key)) = Some n"
  by (auto simp: requireBounded_def Let_def Atoi_def split: option.splits)

definition common_ok :: "'a Config_scheme \<Rightarrow> bool" where
  "common_ok cfg \<longleftrightarrow> policy_ok (cfg_Policy cfg) \<and> 0 < HeartbeatInterval cfg \<and> 0 < ConsumePrefetch cfg
     \<and> list_all (\<lambda>s. TrimSpace s \<noteq> '''') [RabbitHost cfg, RabbitPort cfg, RabbitUser cfg, RabbitPassword cfg]"

definition simulator_ok :: "TimingConfig \<Rightarrow> bool" where
  "simulator_ok cfg \<longleftrightarrow> 1 \<le> SimDrivers cfg \<and> 0 \<le> SimLapStddevMs cfg \<and> 1 \<le> tc_MinLapTimeMs cfg \<and> tc_MinLapTimeMs cfg < SimLapMeanMs cfg
     \<and> 0 \<le> SimTransponders cfg \<and> SimTransponders cfg \<le> SimDrivers cfg \<and> 0 \<le> tc_UnknownTokenScans cfg
     \<and> 0 \<le> SimScannerOutageLaps cfg \<and> SimScannerOutageLaps cfg < SimSessionLaps cfg \<and> 0 \<le> SimOutOfSessionLaps cfg
     \<and> 0 \<le> SimTickMs cfg \<and> 0 \<le> SimSessionGapMs cfg"

lemma missing_none: "missing g = [] \<longleftrightarrow> list_all (\<lambda>k. TrimSpace (g k) \<noteq> '''') requiredVars"
  by (simp add: missing_def filter_empty_conv list_all_iff)

lemmas load_steps = andThen_Inr refuse_Inr missing_none requiredVars_def

lemma loadSeed_keeps:
  assumes "loadSeed g cfg = Inr c"
  shows "\<exists>s b. c = cfg\<lparr>SimSeed := s, SimSeedSet := b\<rparr>"
proof (cases "TrimSpace (g ''SIM_SEED'') = ''''")
  case True
  then have "c = cfg\<lparr>SimSeed := SimSeed cfg, SimSeedSet := SimSeedSet cfg\<rparr>" using assms by (simp add: loadSeed_def)
  then show ?thesis by blast
qed (use assms in \<open>auto simp: loadSeed_def Let_def split: option.splits\<close>)

lemma loadKnobs_ok:
  assumes "loadKnobs g cfg = Inr c" and "1 \<le> SimDrivers cfg" "0 \<le> SimLapStddevMs cfg" "1 \<le> tc_MinLapTimeMs cfg"
    "tc_MinLapTimeMs cfg < SimLapMeanMs cfg"
  shows "simulator_ok c \<and> Config.truncate c = Config.truncate cfg \<and> SimulatorEnabled c = SimulatorEnabled cfg
    \<and> tc_OutboxPollInterval c = tc_OutboxPollInterval cfg"
  using assms unfolding loadKnobs_def load_steps simulator_ok_def
  by (elim exE conjE) (drule loadSeed_keeps, elim exE, simp add: Config.defs)

lemma loadSimulator_ok:
  assumes "loadSimulator g cfg = Inr c"
  shows "(SimulatorEnabled c \<longrightarrow> simulator_ok c) \<and> Config.truncate c = Config.truncate cfg \<and> tc_OutboxPollInterval c = tc_OutboxPollInterval cfg"
proof -
  have "Config.truncate c = Config.truncate cfg \<and> \<not> SimulatorEnabled c \<and> tc_OutboxPollInterval c = tc_OutboxPollInterval cfg
    \<or> (\<exists>d m s l n. 1 \<le> d \<and> 0 \<le> s \<and> 1 \<le> n \<and> n < m
         \<and> loadKnobs g (cfg\<lparr>SimulatorEnabled := True, SimDrivers := d, SimLapMeanMs := m, SimLapStddevMs := s, SimSessionLaps := l, tc_MinLapTimeMs := n\<rparr>) = Inr c)"
    using assms
    by (auto simp: loadSimulator_def load_steps requirePositive_def requireNonNegative_def requireBounded_clean Config.defs Let_def
        split: if_splits prod.splits)
  then show ?thesis using loadKnobs_ok [of g _ c] by (fastforce simp: Config.defs)
qed

lemma cfg_Policy_truncate: "cfg_Policy (Config.truncate c) = cfg_Policy c"
  by (simp add: cfg_Policy_def Config.defs)

lemma common_ok_truncate: "Config.truncate c = Config.truncate c' \<Longrightarrow> common_ok c \<longleftrightarrow> common_ok c'"
  unfolding common_ok_def cfg_Policy_truncate [of c, symmetric] cfg_Policy_truncate [of c', symmetric]
  by (simp add: Config.defs)

text \<open>The four knobs are within 64 bits because \<open>Atoi\<close> and the defaults are.\<close>

lemma common_okI:
  assumes "intEnv g ''DLQ_MAX_ATTEMPTS'' 5 = Inr (DLQMaxAttempts c)" "\<not> DLQMaxAttempts c < 1"
    and "\<not> DLQRetryBaseMs c \<le> 0"
    and "intEnv g ''DLQ_RETRY_MULTIPLIER'' 2 = Inr (DLQRetryMultiplier c)" "\<not> DLQRetryMultiplier c < 1"
    and "intEnv g ''DLQ_RETRY_MAX_MS'' 60000 = Inr (DLQRetryMaxMs c)" "\<not> DLQRetryMaxMs c < DLQRetryBaseMs c"
    and "\<not> HeartbeatInterval c \<le> 0" "\<not> ConsumePrefetch c \<le> 0"
    and "list_all (\<lambda>s. TrimSpace s \<noteq> '''') [RabbitHost c, RabbitPort c, RabbitUser c, RabbitPassword c]"
  shows "common_ok c"
proof -
  have "in64 (DLQMaxAttempts c)" "in64 (DLQRetryMultiplier c)" "in64 (DLQRetryMaxMs c)"
    using assms(1,4,6) by (auto dest!: intEnv_in64 simp: in64_def [of 5] in64_def [of 2] in64_def [of 60000])
  then show ?thesis using assms unfolding common_ok_def policy_ok_def cfg_Policy_def by simp
qed

lemma andThenE: "andThen r f = Inr c \<Longrightarrow> (\<And>a. r = Inr a \<Longrightarrow> f a = Inr c \<Longrightarrow> P) \<Longrightarrow> P"
  by (auto simp: andThen_Inr)

lemma refuseE: "refuse bad key r = Inr c \<Longrightarrow> (\<not> bad \<Longrightarrow> r = Inr c \<Longrightarrow> P) \<Longrightarrow> P"
  by (simp add: refuse_Inr)

lemma missingE: "\<not> missing g \<noteq> [] \<Longrightarrow> list_all (\<lambda>s. TrimSpace s \<noteq> '''') [g ''RABBITMQ_HOST'', g ''RABBITMQ_PORT'', g ''RABBITMQ_USER'', g ''RABBITMQ_PASSWORD'']"
  by (simp add: missing_none requiredVars_def)

lemma acceptE: "Inr a = (Inr c :: error + 'a) \<Longrightarrow> (c = a \<Longrightarrow> P) \<Longrightarrow> P"
  by simp

lemma identity_Load_ok:
  "identity_Load g = Inr c \<Longrightarrow> common_ok c \<and> 0 < ShutdownTimeout c \<and> 0 < ic_OutboxPollInterval c"
  unfolding identity_Load_def
  by (elim andThenE refuseE, drule missingE, erule acceptE, erule ssubst, intro conjI common_okI [of g]) simp_all

lemma leaderboard_Load_ok:
  "leaderboard_Load g = Inr c \<Longrightarrow> common_ok c"
  unfolding leaderboard_Load_def
  by (elim andThenE refuseE, drule missingE, erule acceptE, erule ssubst, intro common_okI [of g]) simp_all

lemma loadSimulator_carries:
  assumes "loadSimulator g cfg = Inr c" "common_ok cfg" "\<not> tc_OutboxPollInterval cfg \<le> 0"
  shows "common_ok c \<and> 0 < tc_OutboxPollInterval c \<and> (SimulatorEnabled c \<longrightarrow> simulator_ok c)"
  using loadSimulator_ok [OF assms(1)] common_ok_truncate [of c cfg] assms(2,3) by simp

lemma timing_Load_ok:
  "timing_Load g = Inr c \<Longrightarrow> common_ok c \<and> 0 < tc_OutboxPollInterval c \<and> (SimulatorEnabled c \<longrightarrow> simulator_ok c)"
  unfolding timing_Load_def
  by (elim andThenE refuseE, drule missingE, erule loadSimulator_carries, intro common_okI [of g]) simp_all

text \<open>Everything optional left out.\<close>

definition bare_env :: "getenv \<Rightarrow> bool" where
  "bare_env g \<longleftrightarrow> missing g = [] \<and> list_all (\<lambda>k. TrimSpace (g k) = '''')
     [''HEARTBEAT_INTERVAL_MS'', ''SHUTDOWN_TIMEOUT_MS'', ''OUTBOX_POLL_INTERVAL_MS'', ''CONSUME_PREFETCH'', ''DLQ_MAX_ATTEMPTS'',
      ''DLQ_RETRY_BASE_MS'', ''DLQ_RETRY_MULTIPLIER'', ''DLQ_RETRY_MAX_MS'', ''SIMULATOR_ENABLED'']"

lemma bare_env_loads:
  assumes "bare_env g"
  shows "(\<exists>c. identity_Load g = Inr c) \<and> (\<exists>c. leaderboard_Load g = Inr c) \<and> (\<exists>c. timing_Load g = Inr c \<and> \<not> SimulatorEnabled c)"
  using assms unfolding bare_env_def identity_Load_def leaderboard_Load_def timing_Load_def loadSimulator_def boolEnv_def
  by (simp add: andThen_def refuse_def intEnv_default)

lemma missing_refused:
  "missing g \<noteq> [] \<Longrightarrow> identity_Load g = Inl (ConfigError (join '', '' (missing g)))
     \<and> leaderboard_Load g = Inl (ConfigError (join '', '' (missing g))) \<and> timing_Load g = Inl (ConfigError (join '', '' (missing g)))"
  by (simp add: identity_Load_def leaderboard_Load_def timing_Load_def refuse_def)

text \<open>The simulator built from an accepted configuration: the first drivers carry the transponders.\<close>

lemma simulator_drivers:
  assumes "simulator_ok c"
  shows "int (length (sim_drivers (NewSimulator (simulatorConfig c)))) = SimDrivers c
    \<and> int (length (filter (\<lambda>d. d_method d = CheckInMethodTransponder) (sim_drivers (NewSimulator (simulatorConfig c))))) = SimTransponders c"
proof -
  let ?m = "\<lambda>i. int i < SimTransponders c"
  have m: "CheckInMethodQR \<noteq> CheckInMethodTransponder" by (simp add: CheckInMethodQR_def CheckInMethodTransponder_def)
  have "filter ?m [0..<nat (SimDrivers c)] = [0..<nat (SimTransponders c)]"
  proof -
    have "[0..<nat (SimDrivers c)] = [0..<nat (SimTransponders c)] @ [nat (SimTransponders c)..<nat (SimDrivers c)]"
      using assms upt_add_eq_append [of 0 "nat (SimTransponders c)" "nat (SimDrivers c) - nat (SimTransponders c)"]
      by (simp add: simulator_ok_def nat_mono)
    moreover have "filter ?m [0..<nat (SimTransponders c)] = [0..<nat (SimTransponders c)]" by (rule filter_True) auto
    moreover have "filter ?m [nat (SimTransponders c)..<nat (SimDrivers c)] = []" by (rule filter_False) auto
    ultimately show ?thesis by simp
  qed
  then show ?thesis using assms m
    by (simp add: NewSimulator_def simulatorConfig_def simulator_ok_def filter_map o_def new_driver_def if_distrib Let_def cong: if_cong)
qed

lemma TrimSpace_plain:
  assumes "list_all (\<lambda>c. 32 < (of_char c :: nat) \<and> (of_char c :: nat) < 128) s"
  shows "TrimSpace s = s"
proof -
  have d: "dropWhile P t = t" if "\<forall>c\<in>set t. \<not> P c" for P and t :: string
    using that by (cases t) auto
  have "\<forall>c\<in>set s. c \<notin> set ascii_spaces" and "is_ascii s"
    using assms by (auto simp: list_all_iff ascii_spaces_def is_ascii_def of_char_of)
  then show ?thesis by (simp add: TrimSpace_ascii d)
qed

definition demo_vars :: "(string \<times> string) list" where
  "demo_vars = [(''RABBITMQ_HOST'', ''bus''), (''RABBITMQ_PORT'', ''5672''), (''RABBITMQ_USER'', ''pit''), (''RABBITMQ_PASSWORD'', ''wall''),
     (''SIMULATOR_ENABLED'', ''true''), (''SIM_DRIVERS'', ''3''), (''SIM_LAP_MEAN_MS'', ''42000''), (''SIM_LAP_STDDEV_MS'', ''900''),
     (''SIM_SESSION_LAPS'', ''10''), (''MIN_LAP_TIME_MS'', ''20000''), (''SIM_TRANSPONDERS'', ''2''), (''SIM_SCANNER_OUTAGE_LAPS'', ''4'')]"

definition demo_getenv :: getenv where
  "demo_getenv k = (case map_of demo_vars k of None \<Rightarrow> '''' | Some v \<Rightarrow> v)"

lemma load_run: "andThen (Inr a) f = f a" "andThen (Inl e) f = Inl e" "refuse False key r = r" "refuse True key r = Inl (ConfigError key)"
  by (simp_all add: andThen_def refuse_def)

lemma load_cong: "r = r' \<Longrightarrow> andThen r f = andThen r' f" "bad = bad' \<Longrightarrow> refuse bad key q = refuse bad' key q"
  by simp_all

lemmas demo_eval = load_run intEnv_def boolEnv_def missing_def requiredVars_def requirePositive_def requireNonNegative_def requireBounded_def
  TrimSpace_plain Atoi_def isDigit_def numOf_def digitVal_def in64_def ascii_lower_def Let_def demo_getenv_def demo_vars_def

lemma demo_Load: "case timing_Load demo_getenv of Inl e \<Rightarrow> False | Inr c \<Rightarrow> SimulatorEnabled c \<and> SimDrivers c = 3 \<and> SimTransponders c = 2"
  unfolding timing_Load_def by (simp add: loadSimulator_def loadKnobs_def loadSeed_def demo_eval cong: load_cong)

text \<open>
  The checks do not cover the products the program forms from the accepted values: an interval above
  \<open>2^63 / 10^6\<close> milliseconds is a negative \<open>time.Duration\<close>, which \<open>time.NewTicker\<close> refuses with a panic,
  and a multiplier can make the backoff wrap to zero.
\<close>

lemma accepted_interval_can_wrap:
  "\<exists>g c. timing_Load g = Inr c \<and> 0 < HeartbeatInterval c \<and> wrap64 (HeartbeatInterval c * 1000000) < 0"
proof -
  let ?g = "\<lambda>k. if k = ''HEARTBEAT_INTERVAL_MS'' then ''9223372036855'' else if k \<in> set requiredVars then ''x'' else ''''"
  have "case timing_Load ?g of Inl e \<Rightarrow> False | Inr c \<Rightarrow> HeartbeatInterval c = 9223372036855"
    unfolding timing_Load_def by (simp add: loadSimulator_def demo_eval cong: load_cong)
  then obtain c where "timing_Load ?g = Inr c" "HeartbeatInterval c = 9223372036855" by (auto split: sum.splits)
  then show ?thesis by (intro exI [of _ ?g] exI [of _ c]) (simp add: wrap64_def)
qed

lemma accepted_backoff_can_wrap:
  "\<exists>g c. leaderboard_Load g = Inr c \<and> (\<forall>n. backoffMs (int (Suc n)) (cfg_Policy c) = 0)"
proof -
  let ?g = "\<lambda>k. if k \<in> set requiredVars then ''x'' else if k = ''DLQ_RETRY_BASE_MS'' \<or> k = ''DLQ_RETRY_MULTIPLIER'' then ''4294967296''
    else if k = ''DLQ_RETRY_MAX_MS'' then ''1099511627776'' else ''''"
  have "case leaderboard_Load ?g of Inl e \<Rightarrow> False | Inr c \<Rightarrow> cfg_Policy c = wrapping_policy"
    unfolding leaderboard_Load_def by (simp add: cfg_Policy_def wrapping_policy_def demo_eval cong: load_cong)
  then obtain c where "leaderboard_Load ?g = Inr c" "cfg_Policy c = wrapping_policy" by (auto split: sum.splits)
  then show ?thesis using wrapping_policy_backoff by (intro exI [of _ ?g] exI [of _ c]) auto
qed

text \<open>C37: what \<open>Load\<close> checks, and what it does not. When it accepts, the retry policy has at least one attempt,
  a positive base, a multiplier of at least 1 and a ceiling not below the base; the heartbeat interval,
  the prefetch and the poll interval are positive and no broker credential is blank; an enabled
  simulator has at least one driver, a minimum lap below the mean, no more transponders than drivers
  and an outage shorter than the session, and the simulator built from it has exactly that many
  drivers and transponders. A blank required variable is refused by all three services with an error
  that names exactly the blank ones. With only the required variables set, all three accept, with the
  simulator off. These are checks of sign and order only. The products formed from the accepted values
  are not bounded: there is an accepted positive heartbeat interval whose \<open>time.Duration\<close> is negative,
  and an accepted retry policy under which every delay after the first is zero.\<close>

theorem accepted_configuration:
  "(identity_Load g = Inr ic \<longrightarrow> common_ok ic \<and> 0 < ShutdownTimeout ic \<and> 0 < ic_OutboxPollInterval ic)
   \<and> (leaderboard_Load g = Inr lc \<longrightarrow> common_ok lc)
   \<and> (timing_Load g = Inr tc \<longrightarrow> common_ok tc \<and> 0 < tc_OutboxPollInterval tc
        \<and> (SimulatorEnabled tc \<longrightarrow> simulator_ok tc
             \<and> int (length (sim_drivers (NewSimulator (simulatorConfig tc)))) = SimDrivers tc
             \<and> int (length (filter (\<lambda>d. d_method d = CheckInMethodTransponder) (sim_drivers (NewSimulator (simulatorConfig tc))))) = SimTransponders tc))
   \<and> (missing g \<noteq> [] \<longrightarrow> identity_Load g = Inl (ConfigError (join '', '' (missing g)))
        \<and> leaderboard_Load g = Inl (ConfigError (join '', '' (missing g))) \<and> timing_Load g = Inl (ConfigError (join '', '' (missing g))))
   \<and> (bare_env g \<longrightarrow> (\<exists>c. identity_Load g = Inr c) \<and> (\<exists>c. leaderboard_Load g = Inr c) \<and> (\<exists>c. timing_Load g = Inr c \<and> \<not> SimulatorEnabled c))
   \<and> (\<exists>g c. timing_Load g = Inr c \<and> 0 < HeartbeatInterval c \<and> wrap64 (HeartbeatInterval c * 1000000) < 0)
   \<and> (\<exists>g c. leaderboard_Load g = Inr c \<and> (\<forall>n. backoffMs (int (Suc n)) (cfg_Policy c) = 0))"
  using accepted_interval_can_wrap accepted_backoff_can_wrap
    identity_Load_ok leaderboard_Load_ok timing_Load_ok simulator_drivers missing_refused bare_env_loads by (intro conjI) metis+

theorem accepted_configuration_witness:
  "\<exists>tc. timing_Load demo_getenv = Inr tc \<and> simulator_ok tc \<and> length (sim_drivers (NewSimulator (simulatorConfig tc))) = 3"
proof -
  obtain tc where "timing_Load demo_getenv = Inr tc" "SimulatorEnabled tc" "SimDrivers tc = 3"
    using demo_Load by (auto split: sum.splits)
  with accepted_configuration [of demo_getenv _ _ tc] show ?thesis by auto
qed

end
