(* ===== verification/Bus_Supervisor.thy ===== *)
theory Bus_Supervisor
  imports Dlq_Topology
begin

text \<open>
  The connection to the broker (libs/go-pitwall/messaging/supervisor.go, publisher.go, consumer.go):
  the supervisor that re-dials with a capped backoff, as a step relation over the points where its
  loop waits; the consumer's bus and the publisher, which open one connection after the other and
  declare their topology on each; the pump. The broker is a parameter that may answer each attempt
  differently. A connection is known by its number, which stands for the channel that closes when
  it dies.
\<close>

section \<open>The supervisor\<close>

record backoffPolicy =
  bp_base :: int
  bp_max :: int

text \<open>Durations are nanoseconds in 64 bits.\<close>

definition defaultBackoff :: backoffPolicy where
  "defaultBackoff = \<lparr>bp_base = 500 * 1000000, bp_max = 5 * 1000000000\<rparr>"

definition backoffPolicy_next :: "backoffPolicy \<Rightarrow> int \<Rightarrow> int" where
  "backoffPolicy_next p cur =
     (let n = wrap64 (cur * 2);
          n = (if n > bp_max p then bp_max p else n)
      in if n < bp_base p then bp_base p else n)"

text \<open>
  Where \<open>Run\<close> stands: at the top of the loop, in the select of a failed dial, in the select of a
  healthy connection, or returned. What it does is logged: a call of \<open>onState\<close>, a wait, the line
  that says it is connected.
\<close>

datatype run_point = AtTop | Waiting | Serving nat | Returned

datatype sup_out = Told bool | Waited int | Connected nat

record 'c supervisor =
  sv_backoff :: backoffPolicy
  sv_onState :: bool            \<comment> \<open>is there a callback\<close>
  sv_connected :: bool
  sv_at :: run_point
  sv_cur :: int                 \<comment> \<open>the local \<open>backoff\<close> of \<open>Run\<close>\<close>
  sv_conn :: 'c                 \<comment> \<open>what the connect function captures\<close>
  sv_tries :: nat
  sv_done :: bool               \<comment> \<open>the context is cancelled\<close>
  sv_log :: "sup_out list"

definition newSupervisor :: "backoffPolicy \<Rightarrow> bool \<Rightarrow> 'c \<Rightarrow> 'c supervisor" where
  "newSupervisor backoff onState c =
     \<lparr>sv_backoff = backoff, sv_onState = onState, sv_connected = False, sv_at = AtTop, sv_cur = bp_base backoff,
      sv_conn = c, sv_tries = 0, sv_done = False, sv_log = []\<rparr>"

definition setState :: "bool \<Rightarrow> 'c supervisor \<Rightarrow> 'c supervisor" where
  "setState connected s =
     (if sv_connected s = connected then s
      else s\<lparr>sv_connected := connected, sv_log := sv_log s @ (if sv_onState s then [Told connected] else [])\<rparr>)"

definition dial_failed :: "'c \<Rightarrow> 'c supervisor \<Rightarrow> 'c supervisor" where
  "dial_failed c s =
     (let s = setState False (s\<lparr>sv_conn := c, sv_tries := Suc (sv_tries s)\<rparr>)
      in s\<lparr>sv_at := Waiting, sv_log := sv_log s @ [Waited (sv_cur s)]\<rparr>)"

definition dial_done :: "'c \<Rightarrow> nat \<Rightarrow> 'c supervisor \<Rightarrow> 'c supervisor" where
  "dial_done c g s =
     (let s = setState True (s\<lparr>sv_conn := c, sv_tries := Suc (sv_tries s), sv_cur := bp_base (sv_backoff s)\<rparr>)
      in s\<lparr>sv_at := Serving g, sv_log := sv_log s @ [Connected g]\<rparr>)"

text \<open>
  The connect function answers the \<open>k\<close>-th attempt. When the context is done and another case of a
  select is ready too, Go may take either; so may a step.
\<close>

inductive sup_step :: "(nat \<Rightarrow> 'c \<Rightarrow> (error + nat) \<times> 'c) \<Rightarrow> 'c supervisor \<Rightarrow> 'c supervisor \<Rightarrow> bool" for connect where
  cancel: "sup_step connect s (s\<lparr>sv_done := True\<rparr>)"
| stop: "sv_at s = AtTop \<Longrightarrow> sv_done s \<Longrightarrow> sup_step connect s (s\<lparr>sv_at := Returned\<rparr>)"
| dial_fails: "sv_at s = AtTop \<Longrightarrow> \<not> sv_done s \<Longrightarrow> connect (sv_tries s) (sv_conn s) = (Inl e, c) \<Longrightarrow> sup_step connect s (dial_failed c s)"
| dials: "sv_at s = AtTop \<Longrightarrow> \<not> sv_done s \<Longrightarrow> connect (sv_tries s) (sv_conn s) = (Inr g, c) \<Longrightarrow> sup_step connect s (dial_done c g s)"
| timer: "sv_at s = Waiting \<Longrightarrow> sup_step connect s (s\<lparr>sv_cur := backoffPolicy_next (sv_backoff s) (sv_cur s), sv_at := AtTop\<rparr>)"
| stop_waiting: "sv_at s = Waiting \<Longrightarrow> sv_done s \<Longrightarrow> sup_step connect s (s\<lparr>sv_at := Returned\<rparr>)"
| lost: "sv_at s = Serving g \<Longrightarrow> sup_step connect s ((setState False s)\<lparr>sv_at := AtTop\<rparr>)"
| stop_serving: "sv_at s = Serving g \<Longrightarrow> sv_done s \<Longrightarrow> sup_step connect s (s\<lparr>sv_at := Returned\<rparr>)"

code_pred (modes: i \<Rightarrow> i \<Rightarrow> i \<Rightarrow> bool, i \<Rightarrow> i \<Rightarrow> o \<Rightarrow> bool) sup_step .

section \<open>What the supervisor reports\<close>

fun told :: "sup_out list \<Rightarrow> bool list" where
  "told [] = []"
| "told (Told b # out) = b # told out"
| "told (_ # out) = told out"

text \<open>The waits since the last healthy connection.\<close>

definition waits :: "sup_out list \<Rightarrow> int list" where
  "waits out = foldl (\<lambda>ws x. case x of Waited d \<Rightarrow> ws @ [d] | Connected g \<Rightarrow> [] | Told b \<Rightarrow> ws) [] out"

lemma told_append [simp]: "told (xs @ ys) = told xs @ told ys"
  by (induction xs rule: told.induct) auto

lemma waits_snoc [simp]:
  "waits (out @ [Waited d]) = waits out @ [d]" "waits (out @ [Connected g]) = []" "waits (out @ [Told b]) = waits out" "waits [] = []"
  by (simp_all add: waits_def)

text \<open>The delay before attempt \<open>k + 1\<close> of an outage.\<close>

definition redial_delay :: "backoffPolicy \<Rightarrow> nat \<Rightarrow> int" where
  "redial_delay p k = min (bp_base p * 2 ^ k) (bp_max p)"

definition backoff_ok :: "backoffPolicy \<Rightarrow> bool" where
  "backoff_ok p \<longleftrightarrow> 0 < bp_base p \<and> bp_base p \<le> bp_max p \<and> bp_max p * 2 < 2 ^ 63"

lemma defaultBackoff_ok: "backoff_ok defaultBackoff"
  by (simp add: backoff_ok_def defaultBackoff_def)

lemma redial_delay_0: "backoff_ok p \<Longrightarrow> redial_delay p 0 = bp_base p"
  by (simp add: redial_delay_def backoff_ok_def)

lemma backoff_next_delay:
  assumes "backoff_ok p"
  shows "backoffPolicy_next p (redial_delay p k) = redial_delay p (Suc k)"
proof -
  have b: "0 < bp_base p" "bp_base p \<le> bp_max p" "bp_max p * 2 < 2 ^ 63" using assms by (simp_all add: backoff_ok_def)
  have one: "1 \<le> (2 :: int) ^ k" by simp
  then have "\<not> (2 :: int) ^ k * 2 < 1" by linarith
  moreover have g: "bp_base p \<le> bp_base p * 2 ^ k" using b(1) one by simp
  moreover have r: "0 < redial_delay p k" "redial_delay p k \<le> bp_max p" using b g by (simp_all add: redial_delay_def)
  moreover have "in64 (redial_delay p k * 2)" using b r by (simp add: in64_def)
  ultimately show ?thesis using b by (auto simp: backoffPolicy_next_def redial_delay_def min_def)
qed

text \<open>
  The invariant: the reports alternate, beginning with a connection, and the last one is the state;
  the waits of the current outage follow the schedule and the local backoff is the next one.
\<close>

definition alternating :: "nat \<Rightarrow> bool list" where
  "alternating n = map even [0..<n]"

definition sup_inv :: "backoffPolicy \<Rightarrow> bool \<Rightarrow> 'c supervisor \<Rightarrow> bool" where
  "sup_inv p cb s \<longleftrightarrow> sv_backoff s = p \<and> sv_onState s = cb
     \<and> (\<exists>n. told (sv_log s) = (if cb then alternating n else []) \<and> sv_connected s = odd n)
     \<and> waits (sv_log s) = map (redial_delay p) [0..<length (waits (sv_log s))]
     \<and> (case sv_at s of
          AtTop \<Rightarrow> \<not> sv_connected s \<and> sv_cur s = redial_delay p (length (waits (sv_log s)))
        | Waiting \<Rightarrow> \<not> sv_connected s \<and> (\<exists>k. length (waits (sv_log s)) = Suc k \<and> sv_cur s = redial_delay p k)
        | Serving g \<Rightarrow> sv_connected s \<and> waits (sv_log s) = [] \<and> sv_cur s = bp_base p
        | Returned \<Rightarrow> sv_done s)"

lemma alternating_Suc: "alternating (Suc n) = alternating n @ [even n]"
  by (simp add: alternating_def)

lemma setState_fields [simp]:
  "sv_backoff (setState b s) = sv_backoff s" "sv_onState (setState b s) = sv_onState s" "sv_connected (setState b s) = b"
  "sv_cur (setState b s) = sv_cur s" "sv_conn (setState b s) = sv_conn s" "sv_done (setState b s) = sv_done s"
  "waits (sv_log (setState b s)) = waits (sv_log s)" "sv_at (setState b s) = sv_at s" "sv_tries (setState b s) = sv_tries s"
  by (auto simp: setState_def)

lemma setState_told:
  assumes "told (sv_log s) = (if cb then alternating n else [])" "sv_connected s = odd n" "sv_onState s = cb"
  shows "\<exists>n. told (sv_log (setState b s)) = (if cb then alternating n else []) \<and> b = odd n"
proof (cases "sv_connected s = b")
  case False
  then show ?thesis using assms by (intro exI [of _ "Suc n"]) (auto simp: setState_def alternating_Suc)
qed (use assms in \<open>auto simp: setState_def\<close>)

lemma sup_inv_step:
  assumes "sup_step connect s s'" "sup_inv p cb s" "backoff_ok p"
  shows "sup_inv p cb s'"
proof -
  obtain n where n: "told (sv_log s) = (if cb then alternating n else [])" "sv_connected s = odd n" "sv_onState s = cb"
    using assms(2) by (auto simp: sup_inv_def)
  from assms(1) show ?thesis
  proof cases
    case (dial_fails e c)
    then show ?thesis using assms(2) setState_told [of "s\<lparr>sv_conn := c, sv_tries := Suc (sv_tries s)\<rparr>" cb n False] n
      by (simp add: sup_inv_def dial_failed_def Let_def)
  next
    case (dials g c)
    then show ?thesis using assms(2)
        setState_told [of "s\<lparr>sv_conn := c, sv_tries := Suc (sv_tries s), sv_cur := bp_base (sv_backoff s)\<rparr>" cb n True] n
      by (simp add: sup_inv_def dial_done_def Let_def)
  next
    case timer
    then show ?thesis using assms(2,3) by (auto simp: sup_inv_def backoff_next_delay)
  next
    case (lost g)
    then show ?thesis using assms(2,3) setState_told [of s cb n False] n by (simp add: sup_inv_def redial_delay_0)
  qed (use assms(2) in \<open>auto simp: sup_inv_def split: run_point.splits\<close>)
qed

lemma sup_inv_reach:
  assumes "(sup_step connect)\<^sup>*\<^sup>* (newSupervisor p cb c) s" "backoff_ok p"
  shows "sup_inv p cb s"
  using assms(1)
proof induction
  case base
  then show ?case using assms(2) by (auto simp: sup_inv_def newSupervisor_def alternating_def redial_delay_0 intro: exI [of _ 0])
qed (rule sup_inv_step [OF _ _ assms(2)])

text \<open>The loop is never stuck, and it comes back as soon as an attempt succeeds.\<close>

lemma sup_moves:
  assumes "sv_at s \<noteq> Returned"
  shows "\<exists>s'. sup_step connect s s' \<and> sv_at s' \<noteq> sv_at s"
proof (cases "sv_at s")
  case AtTop
  show ?thesis
  proof (cases "sv_done s")
    case False
    obtain r c where "connect (sv_tries s) (sv_conn s) = (r, c)" by fastforce
    then show ?thesis using AtTop False sup_step.dial_fails [of s connect _ c] sup_step.dials [of s connect _ c]
      by (cases r) (force simp: dial_failed_def dial_done_def Let_def)+
  qed (use AtTop sup_step.stop [of s connect] in force)
next
  case Waiting
  then show ?thesis using sup_step.timer [of s connect] by force
next
  case (Serving g)
  then show ?thesis using sup_step.lost [of s g connect] by force
qed (use assms in simp)

lemma sup_reconnects:
  assumes "sv_at s = AtTop \<or> sv_at s = Waiting" "\<not> sv_done s" "connect (sv_tries s) (sv_conn s) = (Inr g, c)"
  shows "\<exists>s'. (sup_step connect)\<^sup>*\<^sup>* s s' \<and> sv_at s' = Serving g \<and> sv_conn s' = c"
proof -
  have top: "\<exists>s'. sup_step connect u s' \<and> sv_at s' = Serving g \<and> sv_conn s' = c"
    if "sv_at u = AtTop" "\<not> sv_done u" "connect (sv_tries u) (sv_conn u) = (Inr g, c)" for u
    using sup_step.dials [of u connect g c] that by (force simp: dial_done_def Let_def)
  show ?thesis
  proof (cases "sv_at s = AtTop")
    case True
    then show ?thesis using top [of s] assms by blast
  next
    case False
    then have w: "sv_at s = Waiting" using assms(1) by simp
    let ?u = "s\<lparr>sv_cur := backoffPolicy_next (sv_backoff s) (sv_cur s), sv_at := AtTop\<rparr>"
    from top [of ?u] assms(2,3) obtain s' where "sup_step connect ?u s'" "sv_at s' = Serving g" "sv_conn s' = c" by auto
    with sup_step.timer [OF w, of connect] show ?thesis by (intro exI [of _ s']) (simp add: converse_rtranclp_into_rtranclp r_into_rtranclp)
  qed
qed

text \<open>C38: Whatever the broker answers and whenever the context is cancelled, the supervisor reports each
  change exactly once: the calls of \<open>onState\<close> alternate, beginning with connected, and the last one is
  its state; it claims a connection exactly while it serves one. The waits of an outage are 500 ms
  doubled up to 5 s, beginning anew after every healthy connection. It only returns when the context
  is cancelled, it is never stuck before, and from an outage of any length it is back on the
  connection as soon as an attempt succeeds.\<close>

theorem supervisor_correct:
  assumes "(sup_step connect)\<^sup>*\<^sup>* (newSupervisor defaultBackoff True c0) s"
  shows "(\<exists>n. told (sv_log s) = alternating n \<and> sv_connected s = odd n)
    \<and> waits (sv_log s) = map (\<lambda>k. min (500000000 * 2 ^ k) 5000000000) [0..<length (waits (sv_log s))]
    \<and> (sv_at s = AtTop \<or> sv_at s = Waiting \<longrightarrow> \<not> sv_connected s) \<and> (sv_at s = Serving g \<longrightarrow> sv_connected s)
    \<and> (sv_at s = Returned \<longrightarrow> sv_done s)
    \<and> (sv_at s \<noteq> Returned \<longrightarrow> (\<exists>s'. sup_step connect s s' \<and> sv_at s' \<noteq> sv_at s))
    \<and> ((sv_at s = AtTop \<or> sv_at s = Waiting) \<and> \<not> sv_done s \<and> connect (sv_tries s) (sv_conn s) = (Inr g, c) \<longrightarrow>
         (\<exists>s'. (sup_step connect)\<^sup>*\<^sup>* s s' \<and> sv_at s' = Serving g \<and> sv_conn s' = c))"
proof (intro conjI)
  have inv: "sup_inv defaultBackoff True s" by (rule sup_inv_reach [OF assms defaultBackoff_ok])
  have d: "redial_delay defaultBackoff = (\<lambda>k. min (500000000 * 2 ^ k) 5000000000)"
    by (auto simp: redial_delay_def defaultBackoff_def)
  show "\<exists>n. told (sv_log s) = alternating n \<and> sv_connected s = odd n" using inv by (simp add: sup_inv_def)
  show "waits (sv_log s) = map (\<lambda>k. min (500000000 * 2 ^ k) 5000000000) [0..<length (waits (sv_log s))]"
    using inv unfolding d [symmetric] sup_inv_def by simp
  show "sv_at s = AtTop \<or> sv_at s = Waiting \<longrightarrow> \<not> sv_connected s" "sv_at s = Serving g \<longrightarrow> sv_connected s" "sv_at s = Returned \<longrightarrow> sv_done s"
    using inv by (auto simp: sup_inv_def)
qed (use sup_moves [of s connect] sup_reconnects [of s connect g c] in auto)

definition demo_flaky :: "nat \<Rightarrow> unit \<Rightarrow> (error + nat) \<times> unit" where
  "demo_flaky k u = (if k < 2 then Inl BrokerError else Inr k, u)"

definition demo_waiting :: "unit supervisor" where
  "demo_waiting = \<lparr>sv_backoff = defaultBackoff, sv_onState = True, sv_connected = False, sv_at = Waiting, sv_cur = 1000000000, sv_conn = (),
     sv_tries = 2, sv_done = False, sv_log = [Waited 500000000, Waited 1000000000]\<rparr>"

lemma demo_outage: "(sup_step demo_flaky)\<^sup>*\<^sup>* (newSupervisor defaultBackoff True ()) demo_waiting"
proof -
  let ?s0 = "newSupervisor defaultBackoff True ()"
  let ?s1 = "dial_failed () ?s0"
  let ?s2 = "?s1\<lparr>sv_cur := backoffPolicy_next (sv_backoff ?s1) (sv_cur ?s1), sv_at := AtTop\<rparr>"
  have "sup_step demo_flaky ?s0 ?s1" by (rule sup_step.dial_fails) (auto simp: newSupervisor_def demo_flaky_def)
  moreover have "sup_step demo_flaky ?s1 ?s2" by (rule sup_step.timer) (simp add: dial_failed_def Let_def)
  moreover have "sup_step demo_flaky ?s2 (dial_failed () ?s2)"
    by (rule sup_step.dial_fails) (auto simp: dial_failed_def Let_def newSupervisor_def setState_def demo_flaky_def)
  ultimately have "(sup_step demo_flaky)\<^sup>*\<^sup>* ?s0 (dial_failed () ?s2)" by (meson r_into_rtranclp rtranclp_trans)
  then show ?thesis
    by (simp add: dial_failed_def Let_def newSupervisor_def setState_def defaultBackoff_def backoffPolicy_next_def wrap64_def
        demo_waiting_def numeral_2_eq_2)
qed

theorem supervisor_correct_witness:
  "waits (sv_log demo_waiting) = [500000000, 1000000000] \<and> (\<exists>s'. (sup_step demo_flaky)\<^sup>*\<^sup>* demo_waiting s' \<and> sv_at s' = Serving 2)"
proof -
  have "waits (sv_log demo_waiting) = [500000000, 1000000000]" "sv_at demo_waiting = Waiting" "\<not> sv_done demo_waiting"
    "demo_flaky (sv_tries demo_waiting) (sv_conn demo_waiting) = (Inr 2, ())"
    by (simp_all add: demo_waiting_def waits_def demo_flaky_def)
  then show ?thesis using supervisor_correct [OF demo_outage, of 2 "()"] by blast
qed

end
