(* ===== verification/Bus_Links.thy ===== *)
theory Bus_Links
  imports Bus_Supervisor
begin

text \<open>
  The two connections a service keeps (libs/go-pitwall/messaging/consumer.go and publisher.go): the
  consumer's \<open>Bus\<close> and the \<open>Publisher\<close>, each with the function its supervisor calls for every new
  connection. What a supervisor promises of a connection it serves is proved once, in a locale, and
  interpreted for both.
\<close>

section \<open>One connection after the other\<close>

text \<open>The number of a connection counts the dials.\<close>

fun dials :: "amqp_call list \<Rightarrow> nat" where
  "dials [] = 0"
| "dials (Dial uri # calls) = Suc (dials calls)"
| "dials (_ # calls) = dials calls"

definition Bus_establish :: "broker \<Rightarrow> Bus \<Rightarrow> (error + nat) \<times> Bus" where
  "Bus_establish br b =
     (case issue br (Dial (link_uri b)) b of
        (Inl e, b1) \<Rightarrow> (Inl e, b1)
      | (Inr _, b1) \<Rightarrow>
          (case issue_all br [OpenChannel, ExchangeDeclare (link_exchange b) ''topic''] b1 of
             (Inl e, b2) \<Rightarrow> (Inl e, hush br CloseConn b2)
           | (Inr _, b2) \<Rightarrow>
               let closed = dials (link_calls b2)
               in (Inr closed, b2\<lparr>link_conn := True, link_ch := True, link_closed := Some closed\<rparr>)))"

definition DialConsumerBus :: "broker \<Rightarrow> string \<Rightarrow> string \<Rightarrow> amqp_call list \<Rightarrow> (error + unit) \<times> Bus" where
  "DialConsumerBus br uri ownExchange calls =
     (case Bus_establish br \<lparr>link_uri = uri, link_exchange = ownExchange, link_conn = False, link_ch = False, link_closed = None,
         link_calls = calls, bus_dlx = ''''\<rparr> of
        (Inl e, b) \<Rightarrow> (Inl e, b)
      | (Inr _, b) \<Rightarrow> (Inr (), b))"

definition consumeRaw :: "broker \<Rightarrow> string \<Rightarrow> Bus \<Rightarrow> (error + unit) \<times> Bus" where
  "consumeRaw br queueName b = (if \<not> link_ch b then (Inl ChannelGone, b) else issue br (Consume queueName) b)"

text \<open>The first error is returned, and both closes are tried.\<close>

definition Bus_Close :: "broker \<Rightarrow> Bus \<Rightarrow> (error + unit) \<times> Bus" where
  "Bus_Close br b =
     (let (r1, b1) = (if link_ch b then issue br CloseChannel b else (Inr (), b));
          (r2, b2) = (if link_conn b1 then issue br CloseConn b1 else (Inr (), b1))
      in (case r1 of Inl e \<Rightarrow> Inl e | Inr _ \<Rightarrow> r2, b2))"

text \<open>\<open>Consume\<close> starts the same consumer, with a channel of its own.\<close>

definition Bus_Consume :: "broker \<Rightarrow> string \<Rightarrow> Bus \<Rightarrow> (error + unit) \<times> Bus" where
  "Bus_Consume br queueName b = (if \<not> link_ch b then (Inl ChannelGone, b) else issue br (Consume queueName) b)"

text \<open>The closures of \<open>ConnectAndConsume\<close>; starting the pump is the accepted \<open>Consume\<close>.\<close>

definition subscribe :: "broker \<Rightarrow> ConsumerOptions \<Rightarrow> Bus \<Rightarrow> (error + unit) \<times> Bus" where
  "subscribe br opts b =
     (case DeclareDLQTopology br opts b of
        (Inl e, b1) \<Rightarrow> (Inl e, b1)
      | (Inr _, b1) \<Rightarrow> consumeRaw br (QueueName opts) b1)"

definition bus_connect :: "(nat \<Rightarrow> broker) \<Rightarrow> ConsumerOptions \<Rightarrow> nat \<Rightarrow> nat option \<times> Bus \<Rightarrow> (error + nat) \<times> nat option \<times> Bus" where
  "bus_connect brs opts k c =
     (case c of
        (Some adopted, b) \<Rightarrow> (Inr adopted, None, b)
      | (None, b) \<Rightarrow>
          (case Bus_establish (brs k) b of
             (Inl e, b1) \<Rightarrow> (Inl e, None, b1)
           | (Inr closed, b1) \<Rightarrow>
               (case subscribe (brs k) opts b1 of
                  (Inl e, b2) \<Rightarrow> (Inl e, None, snd (Bus_Close (brs k) b2))
                | (Inr _, b2) \<Rightarrow> (Inr closed, None, b2))))"

text \<open>The supervisor it starts, or the error.\<close>

definition ConnectAndConsume :: "broker \<Rightarrow> ConsumerOptions \<Rightarrow> bool \<Rightarrow> Bus \<Rightarrow> error + (nat option \<times> Bus) supervisor" where
  "ConnectAndConsume br opts onState b =
     (if link_closed b = None then Inl ChannelGone
      else (case subscribe br opts b of
              (Inl e, b1) \<Rightarrow> Inl e
            | (Inr _, b1) \<Rightarrow> Inr (newSupervisor defaultBackoff onState (link_closed b, b1))))"

definition Bus_Publish :: "Bus \<Rightarrow> bool \<Rightarrow> string \<Rightarrow> bytes \<Rightarrow> error + string \<times> string \<times> Publishing" where
  "Bus_Publish b sent routingKey body =
     (if \<not> link_ch b then Inl ChannelGone
      else if \<not> sent then Inl PublishError
      else Inr (link_exchange b, routingKey,
        \<lparr>ContentType = ''application/json'', DeliveryMode = 2, Body = body, Headers = None, Expiration = ''''\<rparr>))"

section \<open>The pump\<close>

text \<open>What its two selects take, in turn; \<open>Got\<close> says whether the delivery was taken or the context ended.\<close>

datatype 'd pump_event = PumpCancelled | RawClosed | Got 'd bool

fun pump :: "'d pump_event list \<Rightarrow> 'd list" where
  "pump [] = []"
| "pump (PumpCancelled # es) = []"
| "pump (RawClosed # es) = []"
| "pump (Got d taken # es) = (if taken then d # pump es else [])"

section \<open>The publisher\<close>

record Publisher = Link +
  pub_confirm :: bool

definition Publisher_establish :: "broker \<Rightarrow> Publisher \<Rightarrow> (error + nat) \<times> Publisher" where
  "Publisher_establish br p =
     (case issue br (Dial (link_uri p)) p of
        (Inl e, p1) \<Rightarrow> (Inl e, p1)
      | (Inr _, p1) \<Rightarrow>
          (case issue_all br [OpenChannel, ExchangeDeclare (link_exchange p) ''topic'', OpenChannel, Confirm] p1 of
             (Inl e, p2) \<Rightarrow> (Inl e, hush br CloseConn p2)
           | (Inr _, p2) \<Rightarrow>
               let closed = dials (link_calls p2)
               in (Inr closed, p2\<lparr>link_conn := True, link_ch := True, pub_confirm := True, link_closed := Some closed\<rparr>)))"

definition DialPublisher :: "broker \<Rightarrow> string \<Rightarrow> string \<Rightarrow> amqp_call list \<Rightarrow> (error + unit) \<times> Publisher" where
  "DialPublisher br uri exchange calls =
     (case Publisher_establish br \<lparr>link_uri = uri, link_exchange = exchange, link_conn = False, link_ch = False, link_closed = None,
         link_calls = calls, pub_confirm = False\<rparr> of
        (Inl e, p) \<Rightarrow> (Inl e, p)
      | (Inr _, p) \<Rightarrow> (Inr (), p))"

definition publisher_connect :: "(nat \<Rightarrow> broker) \<Rightarrow> nat \<Rightarrow> nat option \<times> Publisher \<Rightarrow> (error + nat) \<times> nat option \<times> Publisher" where
  "publisher_connect brs k c =
     (case c of
        (Some adopted, p) \<Rightarrow> (Inr adopted, None, p)
      | (None, p) \<Rightarrow> (case Publisher_establish (brs k) p of (r, p1) \<Rightarrow> (r, None, p1)))"

definition ConnectAndServe :: "bool \<Rightarrow> Publisher \<Rightarrow> error + (nat option \<times> Publisher) supervisor" where
  "ConnectAndServe onState p =
     (if link_closed p = None then Inl ChannelGone else Inr (newSupervisor defaultBackoff onState (link_closed p, p)))"

definition Publisher_Publish :: "Publisher \<Rightarrow> bool \<Rightarrow> string \<Rightarrow> bytes \<Rightarrow> error + string \<times> string \<times> Publishing" where
  "Publisher_Publish p sent routingKey body =
     (if \<not> link_ch p then Inl ChannelGone
      else if \<not> sent then Inl PublishError
      else Inr (link_exchange p, routingKey,
        \<lparr>ContentType = ''application/json'', DeliveryMode = 2, Body = body, Headers = None, Expiration = ''''\<rparr>))"

text \<open>What came back for a deferred confirmation: the broker's answer, or the error of the wait.\<close>

datatype confirmation = BrokerAck | BrokerNack | WaitError error

definition PublishConfirmed :: "Publisher \<Rightarrow> bool \<Rightarrow> confirmation \<Rightarrow> string \<Rightarrow> bytes \<Rightarrow> error + string \<times> string \<times> Publishing" where
  "PublishConfirmed p sent answer routingKey body =
     (if \<not> pub_confirm p then Inl ChannelGone
      else if \<not> sent then Inl PublishError
      else case answer of
        WaitError e \<Rightarrow> Inl e
      | BrokerNack \<Rightarrow> Inl PublishError
      | BrokerAck \<Rightarrow> Inr (link_exchange p, routingKey,
          \<lparr>ContentType = ''application/json'', DeliveryMode = 2, Body = body, Headers = None, Expiration = ''''\<rparr>))"

text \<open>The channel of its own that \<open>OpenConfirmChannel\<close> opens: its exchange, when the broker agreed.\<close>

definition OpenConfirmChannel :: "broker \<Rightarrow> Publisher \<Rightarrow> (error + string) \<times> Publisher" where
  "OpenConfirmChannel br p =
     (if \<not> link_conn p then (Inl ChannelGone, p)
      else case issue br OpenChannel p of
        (Inl e, p1) \<Rightarrow> (Inl e, p1)
      | (Inr _, p1) \<Rightarrow>
          (case issue br Confirm p1 of
             (Inl e, p2) \<Rightarrow> (Inl e, hush br CloseChannel p2)
           | (Inr _, p2) \<Rightarrow> (Inr (link_exchange p), p2)))"

definition ConfirmChannel_PublishConfirmed :: "string \<Rightarrow> bool \<Rightarrow> confirmation \<Rightarrow> string \<Rightarrow> bytes \<Rightarrow> error + string \<times> string \<times> Publishing" where
  "ConfirmChannel_PublishConfirmed exchange sent answer routingKey body =
     (if \<not> sent then Inl PublishError
      else case answer of
        WaitError e \<Rightarrow> Inl e
      | BrokerNack \<Rightarrow> Inl PublishError
      | BrokerAck \<Rightarrow> Inr (exchange, routingKey,
          \<lparr>ContentType = ''application/json'', DeliveryMode = 2, Body = body, Headers = None, Expiration = ''''\<rparr>))"

definition Publisher_Close :: "broker \<Rightarrow> Publisher \<Rightarrow> (error + unit) \<times> Publisher" where
  "Publisher_Close br p =
     (let (r1, p1) = (if pub_confirm p then issue br CloseChannel p else (Inr (), p));
          (r2, p2) = (if link_ch p1 then issue br CloseChannel p1 else (Inr (), p1));
          (r3, p3) = (if link_conn p2 then issue br CloseConn p2 else (Inr (), p2))
      in (case r1 of Inl e \<Rightarrow> Inl e | Inr _ \<Rightarrow> (case r2 of Inl e \<Rightarrow> Inl e | Inr _ \<Rightarrow> r3), p3))"

section \<open>What a served connection guarantees\<close>

text \<open>
  The contract between a supervisor and its connect function: \<open>held\<close> is what the function relies on,
  \<open>ready\<close> what a successful call establishes of connection \<open>g\<close>.
\<close>

locale supervised_link =
  fixes connect :: "nat \<Rightarrow> 'c \<Rightarrow> (error + nat) \<times> 'c"
    and held :: "'c \<Rightarrow> bool" and ready :: "nat \<Rightarrow> 'c \<Rightarrow> bool"
  assumes connect_ready: "held c \<Longrightarrow> connect k c = (Inr g, c') \<Longrightarrow> ready g c' \<and> held c'"
    and connect_held: "held c \<Longrightarrow> connect k c = (Inl e, c') \<Longrightarrow> held c'"
begin

lemma step_keeps:
  assumes "sup_step connect s s'" "held (sv_conn s)" "\<forall>g. sv_at s = Serving g \<longrightarrow> ready g (sv_conn s)"
  shows "held (sv_conn s') \<and> (\<forall>g. sv_at s' = Serving g \<longrightarrow> ready g (sv_conn s'))"
  using assms
proof cases
  case (dials g c)
  then show ?thesis using connect_ready [of "sv_conn s" "sv_tries s" g c] assms(2) by (simp add: dial_done_def Let_def)
next
  case (dial_fails e c)
  then show ?thesis using connect_held [of "sv_conn s" "sv_tries s" e c] assms(2) by (simp add: dial_failed_def Let_def)
qed (use assms in auto)

lemma serving_is_ready:
  assumes "(sup_step connect)\<^sup>*\<^sup>* (newSupervisor p cb c) s" "held c" "sv_at s = Serving g"
  shows "ready g (sv_conn s)"
proof -
  from assms(1) have "held (sv_conn s) \<and> (\<forall>g. sv_at s = Serving g \<longrightarrow> ready g (sv_conn s))"
  proof induction
    case base
    then show ?case using assms(2) by (simp add: newSupervisor_def)
  qed (use step_keeps in blast)
  then show ?thesis using assms(3) by blast
qed

end

lemma dials_append [simp]: "dials (xs @ ys) = dials xs + dials ys"
  by (induction xs rule: dials.induct) auto

lemma dials_none: "(\<And>uri. Dial uri \<notin> set xs) \<Longrightarrow> dials xs = 0"
  by (induction xs rule: dials.induct) auto

lemma issue_keeps:
  "issue br c b = (r, b') \<Longrightarrow> link_uri b' = link_uri b \<and> link_exchange b' = link_exchange b"
  by (auto simp: issue_def call_def split: prod.splits reply.splits)

lemma issue_snd [simp]: "link_uri (snd (issue br c b)) = link_uri b" "link_exchange (snd (issue br c b)) = link_exchange b"
  using issue_keeps [of br c b "fst (issue br c b)" "snd (issue br c b)"] by simp_all

lemma issue_all_keeps:
  "issue_all br cs b = (r, b') \<Longrightarrow> link_uri b' = link_uri b \<and> link_exchange b' = link_exchange b"
proof (induction cs arbitrary: b)
  case (Cons c cs)
  then show ?case by (auto split: prod.splits sum.splits dest!: issue_keeps)
qed simp

lemma hush_keeps [simp]: "link_uri (hush br c b) = link_uri b" "link_exchange (hush br c b) = link_exchange b"
  by (simp_all add: hush_def call_def split: reply.splits)

lemma Bus_establish_Inr:
  assumes "Bus_establish br b = (Inr g, b')"
  shows "b' = b\<lparr>link_calls := link_calls b @ [Dial (link_uri b), OpenChannel, ExchangeDeclare (link_exchange b) ''topic''],
      link_conn := True, link_ch := True, link_closed := Some g\<rparr> \<and> g = Suc (dials (link_calls b))"
  using assms unfolding Bus_establish_def Let_def
  by (auto simp del: issue_all.simps split: prod.splits sum.splits dest!: issue_Inr issue_all_Inr)

lemma Bus_establish_keeps:
  "Bus_establish br b = (r, b') \<Longrightarrow> link_uri b' = link_uri b \<and> link_exchange b' = link_exchange b"
  unfolding Bus_establish_def Let_def
  by (auto simp del: issue_all.simps split: prod.splits sum.splits dest!: issue_keeps issue_all_keeps)

lemma Publisher_establish_Inr:
  assumes "Publisher_establish br p = (Inr g, p')"
  shows "p' = p\<lparr>link_calls := link_calls p @ [Dial (link_uri p), OpenChannel, ExchangeDeclare (link_exchange p) ''topic'', OpenChannel, Confirm],
      link_conn := True, link_ch := True, pub_confirm := True, link_closed := Some g\<rparr> \<and> g = Suc (dials (link_calls p))"
  using assms unfolding Publisher_establish_def Let_def
  by (auto simp del: issue_all.simps split: prod.splits sum.splits dest!: issue_Inr issue_all_Inr)

lemma Publisher_establish_keeps:
  "Publisher_establish br p = (r, p') \<Longrightarrow> link_uri p' = link_uri p \<and> link_exchange p' = link_exchange p"
  unfolding Publisher_establish_def Let_def
  by (auto simp del: issue_all.simps split: prod.splits sum.splits dest!: issue_keeps issue_all_keeps)

lemma resilient_keeps:
  assumes "declareWorkQueueResilient br name args b = (r, b')"
  shows "link_uri b' = link_uri b \<and> link_exchange b' = link_exchange b"
  using assms unfolding declareWorkQueueResilient_def
  by (auto simp: call_def simp del: issue_all.simps split: if_splits prod.splits sum.splits reply.splits dest!: issue_keeps issue_all_keeps)

lemma DeclareDLQTopology_keeps:
  "DeclareDLQTopology br opts b = (r, b') \<Longrightarrow> link_uri b' = link_uri b \<and> link_exchange b' = link_exchange b"
  unfolding DeclareDLQTopology_def Let_def
  by (auto simp del: issue_all.simps split: if_splits prod.splits sum.splits dest!: issue_keeps issue_all_keeps resilient_keeps)

lemma subscribe_keeps:
  "subscribe br opts b = (r, b') \<Longrightarrow> link_uri b' = link_uri b \<and> link_exchange b' = link_exchange b"
  by (auto simp: subscribe_def consumeRaw_def split: if_splits prod.splits sum.splits dest!: issue_keeps DeclareDLQTopology_keeps)

lemma Bus_Close_keeps [simp]:
  "link_uri (snd (Bus_Close br b)) = link_uri b" "link_exchange (snd (Bus_Close br b)) = link_exchange b"
  by (simp_all add: Bus_Close_def Let_def split_beta)

definition dlq_declares :: "ConsumerOptions \<Rightarrow> amqp_call list" where
  "dlq_declares opts = [ExchangeDeclare (DLXExchange opts) ''direct'',
     QueueDeclare (RetryQueueName (QueueName opts))
       [(''x-dead-letter-exchange'', DLXExchange opts), (''x-dead-letter-routing-key'', dlqRedeliverRoutingKey)],
     QueueDeclare (ParkingQueueName (QueueName opts)) []]"

lemma subscribe_Inr:
  assumes "subscribe br opts b = (Inr u, b')"
  obtains topo where "b' = b\<lparr>link_calls := link_calls b @ topo @ [Consume (QueueName opts)], bus_dlx := DLXExchange opts\<rparr>"
    "\<And>uri. Dial uri \<notin> set topo" "set (dlq_declares opts) \<subseteq> set topo"
    "dlq_bindings opts \<union> {(QueueName opts, k, SourceExchange opts) |k. k \<in> set (RoutingKeys opts)} \<subseteq> bound (link_calls b')"
proof -
  obtain b1 where b1: "DeclareDLQTopology br opts b = (Inr (), b1)" and c: "issue br (Consume (QueueName opts)) b1 = (Inr u, b')"
    using assms by (auto simp: subscribe_def consumeRaw_def split: if_splits prod.splits sum.splits)
  have "\<exists>topo. b1 = b\<lparr>link_calls := link_calls b @ topo, bus_dlx := DLXExchange opts\<rparr> \<and> (\<forall>uri. Dial uri \<notin> set topo)
      \<and> set (dlq_declares opts) \<subseteq> set topo"
  proof (rule declare_Inr [OF b1], goal_cases)
    case (1 work)
    then show ?case by (intro exI conjI) (rule 1(5) [unfolded 1(1)], auto simp: dlq_declares_def)
  qed
  then obtain topo where t: "b1 = b\<lparr>link_calls := link_calls b @ topo, bus_dlx := DLXExchange opts\<rparr>" "\<And>uri. Dial uri \<notin> set topo"
    "set (dlq_declares opts) \<subseteq> set topo" by blast
  have "bound (link_calls b') = bound (link_calls b1)" using issue_Inr [OF c] by (simp add: bound_append)
  then show ?thesis using that [of topo] t issue_Inr [OF c] declare_bound(1) [OF b1] by simp
qed

text \<open>
  A bus is ready on connection \<open>g\<close>: it holds that connection's channel, the calls the broker accepted
  on it declare the own exchange and the whole dead-letter topology and end with the consumer, and
  every binding of the consumer is in place.
\<close>

definition bus_ready :: "string \<Rightarrow> string \<Rightarrow> ConsumerOptions \<Rightarrow> nat \<Rightarrow> Bus \<Rightarrow> bool" where
  "bus_ready uri ex opts g b \<longleftrightarrow> link_ch b \<and> link_closed b = Some g \<and> bus_dlx b = DLXExchange opts
     \<and> (\<exists>pre topo. link_calls b = pre @ [Dial uri, OpenChannel, ExchangeDeclare ex ''topic''] @ topo @ [Consume (QueueName opts)]
          \<and> g = Suc (dials pre) \<and> dials topo = 0 \<and> set (dlq_declares opts) \<subseteq> set topo)
     \<and> dlq_bindings opts \<union> {(QueueName opts, k, SourceExchange opts) |k. k \<in> set (RoutingKeys opts)} \<subseteq> bound (link_calls b)"

definition publisher_ready :: "string \<Rightarrow> string \<Rightarrow> nat \<Rightarrow> Publisher \<Rightarrow> bool" where
  "publisher_ready uri ex g p \<longleftrightarrow> link_ch p \<and> pub_confirm p \<and> link_closed p = Some g
     \<and> (\<exists>pre. link_calls p = pre @ [Dial uri, OpenChannel, ExchangeDeclare ex ''topic'', OpenChannel, Confirm] \<and> g = Suc (dials pre))"

text \<open>The closure of a connect function: an adopted connection is ready.\<close>

definition adoptable :: "(nat \<Rightarrow> 'a Link_scheme \<Rightarrow> bool) \<Rightarrow> string \<Rightarrow> string \<Rightarrow> nat option \<times> 'a Link_scheme \<Rightarrow> bool" where
  "adoptable rdy uri ex c \<longleftrightarrow> link_uri (snd c) = uri \<and> link_exchange (snd c) = ex \<and> (\<forall>g. fst c = Some g \<longrightarrow> rdy g (snd c))"

lemma establish_subscribe_ready:
  assumes "Bus_establish br b = (Inr g, b1)" "subscribe br' opts b1 = (Inr u, b2)"
  shows "bus_ready (link_uri b) (link_exchange b) opts g b2"
proof (rule subscribe_Inr [OF assms(2)])
  fix topo
  assume b2: "b2 = b1\<lparr>link_calls := link_calls b1 @ topo @ [Consume (QueueName opts)], bus_dlx := DLXExchange opts\<rparr>"
    and n: "\<And>uri. Dial uri \<notin> set topo" and dd: "set (dlq_declares opts) \<subseteq> set topo"
    and bd: "dlq_bindings opts \<union> {(QueueName opts, k, SourceExchange opts) |k. k \<in> set (RoutingKeys opts)} \<subseteq> bound (link_calls b2)"
  have b1: "b1 = b\<lparr>link_calls := link_calls b @ [Dial (link_uri b), OpenChannel, ExchangeDeclare (link_exchange b) ''topic''],
      link_conn := True, link_ch := True, link_closed := Some g\<rparr>" and g: "g = Suc (dials (link_calls b))"
    using Bus_establish_Inr [OF assms(1)] by simp_all
  have "link_calls b2 = link_calls b @ [Dial (link_uri b), OpenChannel, ExchangeDeclare (link_exchange b) ''topic''] @ topo @ [Consume (QueueName opts)]"
    by (simp add: b2 b1)
  moreover have "link_ch b2" "link_closed b2 = Some g" "bus_dlx b2 = DLXExchange opts" by (simp_all add: b2 b1)
  ultimately show ?thesis unfolding bus_ready_def using g dials_none [OF n] dd bd by blast
qed

lemma bus_connect_cases:
  assumes "bus_connect brs opts k c = (r, c')"
  obtains (adopt) g b where "c = (Some g, b)" "r = Inr g" "c' = (None, b)"
  | (fail) e where "r = Inl e" "fst c' = None" "link_uri (snd c') = link_uri (snd c)" "link_exchange (snd c') = link_exchange (snd c)"
  | (fresh) g b b1 b2 u where "c = (None, b)" "Bus_establish (brs k) b = (Inr g, b1)" "subscribe (brs k) opts b1 = (Inr u, b2)"
      "r = Inr g" "c' = (None, b2)"
proof (cases "fst c")
  case (Some g)
  then show ?thesis using assms adopt [of g "snd c"] by (cases c) (simp add: bus_connect_def)
next
  case None
  then obtain b where c: "c = (None, b)" by (cases c) auto
  obtain q b1 where q: "Bus_establish (brs k) b = (q, b1)" by fastforce
  obtain q' b2 where q': "subscribe (brs k) opts b1 = (q', b2)" by fastforce
  note keeps = Bus_establish_keeps [OF q] subscribe_keeps [OF q']
  show ?thesis
  proof (cases q)
    case (Inl e)
    then show ?thesis using assms fail [of e] keeps c q by (auto simp: bus_connect_def)
  next
    case g: (Inr g)
    show ?thesis
    proof (cases q')
      case (Inl e)
      then show ?thesis using assms fail [of e] keeps c q q' g by (auto simp: bus_connect_def)
    next
      case (Inr u)
      have "r = Inr g" "c' = (None, b2)" using assms by (simp_all add: bus_connect_def c q q' g Inr)
      with q q' show ?thesis unfolding g Inr by (rule fresh [OF c])
    qed
  qed
qed

interpretation bus_link: supervised_link "bus_connect brs opts" "adoptable (bus_ready uri ex opts) uri ex" "\<lambda>g c. bus_ready uri ex opts g (snd c)"
proof
  fix c k g c'
  assume a: "adoptable (bus_ready uri ex opts) uri ex c" and "bus_connect brs opts k c = (Inr g, c')"
  from this(2) show "bus_ready uri ex opts g (snd c') \<and> adoptable (bus_ready uri ex opts) uri ex c'"
  proof (cases rule: bus_connect_cases)
    case (fresh g' b b1 b2 u)
    then show ?thesis using a establish_subscribe_ready [OF fresh(2,3)] Bus_establish_keeps [OF fresh(2)] subscribe_keeps [OF fresh(3)]
      by (auto simp: adoptable_def)
  qed (use a in \<open>auto simp: adoptable_def\<close>)
next
  fix c k e c'
  assume a: "adoptable (bus_ready uri ex opts) uri ex c" and "bus_connect brs opts k c = (Inl e, c')"
  from this(2) show "adoptable (bus_ready uri ex opts) uri ex c'"
  proof (cases rule: bus_connect_cases)
    case (fail e')
    then show ?thesis using a by (simp add: adoptable_def)
  qed simp_all
qed

interpretation publisher_link: supervised_link "publisher_connect brs" "adoptable (publisher_ready uri ex) uri ex"
  "\<lambda>g c. publisher_ready uri ex g (snd c)"
proof
  fix c k g c'
  assume a: "adoptable (publisher_ready uri ex) uri ex c" and r: "publisher_connect brs k c = (Inr g, c')"
  show "publisher_ready uri ex g (snd c') \<and> adoptable (publisher_ready uri ex) uri ex c'"
  proof (cases "fst c")
    case (Some h)
    then show ?thesis using a r by (cases c) (auto simp: adoptable_def publisher_connect_def)
  next
    case None
    then obtain p p1 where "c = (None, p)" "Publisher_establish (brs k) p = (Inr g, p1)" "c' = (None, p1)"
      using r by (cases c) (auto simp: publisher_connect_def split: prod.splits)
    then show ?thesis using a Publisher_establish_Inr [of "brs k" p g p1] by (auto simp: adoptable_def publisher_ready_def)
  qed
next
  fix c k e c'
  assume "adoptable (publisher_ready uri ex) uri ex c" "publisher_connect brs k c = (Inl e, c')"
  then show "adoptable (publisher_ready uri ex) uri ex c'"
    by (cases c) (auto simp: adoptable_def publisher_connect_def split: option.splits prod.splits dest: Publisher_establish_keeps)
qed

text \<open>C39: Whenever the supervisor of a consumer reports a connection, the consumer is subscribed on it:
  the broker accepted, on that very connection, the own exchange, the whole dead-letter topology and
  the consumer, all bindings are in place, and retries and parks go to its DLX; also after any
  number of lost connections, failed dials and half-finished declarations, by a broker that may
  answer every attempt differently. Likewise a supervised publisher holds a confirm-mode channel of
  the connection it reports, and a confirmed publish returns success only when the broker acked it.\<close>

theorem supervised_links_are_ready:
  assumes "DialConsumerBus br0 uri ex calls = (Inr u, b0)" and "ConnectAndConsume br1 opts cb b0 = Inr s0"
    and "(sup_step (bus_connect brs opts))\<^sup>*\<^sup>* s0 s" and "sv_at s = Serving g"
    and "DialPublisher br2 uri' ex' calls' = (Inr u', p0)" and "ConnectAndServe cb' p0 = Inr t0"
    and "(sup_step (publisher_connect brs'))\<^sup>*\<^sup>* t0 t" and "sv_at t = Serving h"
  shows "bus_ready uri ex opts g (snd (sv_conn s)) \<and> publisher_ready uri' ex' h (snd (sv_conn t))
    \<and> (PublishConfirmed (snd (sv_conn t)) sent answer key body = Inr m \<longrightarrow> sent \<and> answer = BrokerAck \<and> fst m = link_exchange (snd (sv_conn t)))"
proof (intro conjI)
  obtain g0 where e: "Bus_establish br0 \<lparr>link_uri = uri, link_exchange = ex, link_conn = False, link_ch = False, link_closed = None,
         link_calls = calls, bus_dlx = ''''\<rparr> = (Inr g0, b0)"
    using assms(1) by (auto simp: DialConsumerBus_def split: prod.splits sum.splits)
  then have b0: "link_uri b0 = uri" "link_exchange b0 = ex" "link_closed b0 = Some g0" using Bus_establish_Inr [OF e] by simp_all
  obtain b1 where sb: "subscribe br1 opts b0 = (Inr (), b1)" and s0: "s0 = newSupervisor defaultBackoff cb (Some g0, b1)"
    using assms(2) b0(3) by (auto simp: ConnectAndConsume_def split: if_splits prod.splits sum.splits)
  have "adoptable (bus_ready uri ex opts) uri ex (Some g0, b1)"
    using establish_subscribe_ready [OF e sb] subscribe_keeps [OF sb] b0 by (simp add: adoptable_def)
  then show "bus_ready uri ex opts g (snd (sv_conn s))"
    by (rule bus_link.serving_is_ready [OF assms(3) [unfolded s0] _ assms(4)])
next
  obtain h0 where e: "Publisher_establish br2 \<lparr>link_uri = uri', link_exchange = ex', link_conn = False, link_ch = False, link_closed = None,
         link_calls = calls', pub_confirm = False\<rparr> = (Inr h0, p0)"
    using assms(5) by (auto simp: DialPublisher_def split: prod.splits sum.splits)
  note p0 = Publisher_establish_Inr [OF e]
  have t0: "t0 = newSupervisor defaultBackoff cb' (Some h0, p0)"
    using assms(6) p0 by (auto simp: ConnectAndServe_def split: if_splits)
  have "adoptable (publisher_ready uri' ex') uri' ex' (Some h0, p0)"
    using p0 by (simp add: adoptable_def publisher_ready_def)
  then show "publisher_ready uri' ex' h (snd (sv_conn t))"
    by (rule publisher_link.serving_is_ready [OF assms(7) [unfolded t0] _ assms(8)])
next
  show "PublishConfirmed (snd (sv_conn t)) sent answer key body = Inr m \<longrightarrow> sent \<and> answer = BrokerAck \<and> fst m = link_exchange (snd (sv_conn t))"
    by (auto simp: PublishConfirmed_def split: if_splits confirmation.splits)
qed

definition demo_opts :: ConsumerOptions where
  "demo_opts = \<lparr>SourceExchange = ''timing.events'', QueueName = ''leaderboard.lap-recorded'', RoutingKeys = [''lap.recorded''], Prefetch = 10,
     DLXExchange = ''leaderboard.dlx''\<rparr>"

definition demo_broker :: broker where
  "demo_broker calls c = Accept"

lemma demo_issue [simp]:
  "call demo_broker c b = (Accept, b\<lparr>link_calls := link_calls b @ [c]\<rparr>)" "issue demo_broker c b = (Inr (), b\<lparr>link_calls := link_calls b @ [c]\<rparr>)"
  by (simp_all add: issue_def call_def demo_broker_def)

text \<open>Adopting the first connection, losing it, and dialling again.\<close>

lemma sup_second_connection:
  assumes "connect 0 c = (Inr g, c1)" "connect 1 c1 = (Inr h, c2)"
  shows "\<exists>s. (sup_step connect)\<^sup>*\<^sup>* (newSupervisor p cb c) s \<and> sv_at s = Serving h \<and> sv_conn s = c2"
proof -
  let ?s0 = "newSupervisor p cb c"
  let ?s1 = "dial_done c1 g ?s0"
  let ?s2 = "(setState False ?s1)\<lparr>sv_at := AtTop\<rparr>"
  have "sup_step connect ?s0 ?s1" using assms by (intro sup_step.dials) (simp_all add: newSupervisor_def)
  moreover have "sup_step connect ?s1 ?s2" by (rule sup_step.lost [of _ g]) (simp add: dial_done_def Let_def)
  moreover have "sup_step connect ?s2 (dial_done c2 h ?s2)"
    using assms by (intro sup_step.dials) (simp_all add: newSupervisor_def dial_done_def Let_def)
  ultimately have "(sup_step connect)\<^sup>*\<^sup>* ?s0 (dial_done c2 h ?s2)" by (meson r_into_rtranclp rtranclp_trans)
  then show ?thesis by (intro exI [of _ "dial_done c2 h ?s2"]) (simp add: dial_done_def Let_def)
qed

theorem supervised_links_are_ready_witness:
  "\<exists>(s :: (nat option \<times> Bus) supervisor) (t :: (nat option \<times> Publisher) supervisor). sv_at s = Serving 2 \<and> bus_ready ''amqp://bus'' ''leaderboard.events'' demo_opts 2 (snd (sv_conn s))
     \<and> sv_at t = Serving 2 \<and> publisher_ready ''amqp://bus'' ''leaderboard.events'' 2 (snd (sv_conn t))"
proof -
  note run = Bus_establish_def subscribe_def consumeRaw_def DeclareDLQTopology_def declareWorkQueueResilient_def Let_def demo_opts_def
  let ?uri = "''amqp://bus''" and ?ex = "''leaderboard.events''"
  obtain b0 where b0: "DialConsumerBus demo_broker ?uri ?ex [] = (Inr (), b0)" by (simp add: DialConsumerBus_def Bus_establish_def Let_def)
  then have "b0 = snd (DialConsumerBus demo_broker ?uri ?ex [])" by simp
  then obtain b1 where s0: "ConnectAndConsume demo_broker demo_opts True b0 = Inr (newSupervisor defaultBackoff True (Some 1, b1))"
      and b1: "link_uri b1 = ?uri" "link_calls b1 = link_calls b1" "dials (link_calls b1) = 1"
    by (simp add: ConnectAndConsume_def DialConsumerBus_def run)
  have "bus_connect (\<lambda>k. demo_broker) demo_opts 0 (Some 1, b1) = (Inr 1, None, b1)" by (simp add: bus_connect_def)
  moreover obtain b2 where "bus_connect (\<lambda>k. demo_broker) demo_opts 1 (None, b1) = (Inr 2, None, b2)"
    using b1 by (simp add: bus_connect_def run)
  ultimately obtain s where s: "(sup_step (bus_connect (\<lambda>k. demo_broker) demo_opts))\<^sup>*\<^sup>* (newSupervisor defaultBackoff True (Some 1, b1)) s"
      "sv_at s = Serving 2"
    using sup_second_connection [of "bus_connect (\<lambda>k. demo_broker) demo_opts"] by blast
  obtain p0 where p0: "DialPublisher demo_broker ?uri ?ex [] = (Inr (), p0)" "link_closed p0 = Some 1" "dials (link_calls p0) = 1"
    by (simp add: DialPublisher_def Publisher_establish_def Let_def)
  then have t0: "ConnectAndServe True p0 = Inr (newSupervisor defaultBackoff True (Some 1, p0))" by (simp add: ConnectAndServe_def)
  have "publisher_connect (\<lambda>k. demo_broker) 0 (Some 1, p0) = (Inr 1, None, p0)" by (simp add: publisher_connect_def)
  moreover obtain p1 where "publisher_connect (\<lambda>k. demo_broker) 1 (None, p0) = (Inr 2, None, p1)"
    using p0 by (simp add: publisher_connect_def Publisher_establish_def Let_def)
  ultimately obtain t where t: "(sup_step (publisher_connect (\<lambda>k. demo_broker)))\<^sup>*\<^sup>* (newSupervisor defaultBackoff True (Some 1, p0)) t"
      "sv_at t = Serving 2"
    using sup_second_connection [of "publisher_connect (\<lambda>k. demo_broker)"] by blast
  from supervised_links_are_ready [OF b0 s0 s p0(1) t0 t] s(2) t(2) show ?thesis by blast
qed

section \<open>A dead-letter exchange of its own\<close>

text \<open>
  What a link asks of the broker only adds calls of a certain kind to the log. \<open>own_call\<close>: a binding to
  the consumer's DLX is one of its own three.
\<close>

definition grows :: "(amqp_call \<Rightarrow> bool) \<Rightarrow> 'a Link_scheme \<Rightarrow> 'b Link_scheme \<Rightarrow> bool" where
  "grows P b b' \<longleftrightarrow> (\<exists>cs. link_calls b' = link_calls b @ cs \<and> list_all P cs)"

lemma grows_refl [simp]: "grows P b b"
  by (simp add: grows_def)

lemma grows_cong: "link_calls b' = link_calls b'' \<Longrightarrow> grows P b b' \<longleftrightarrow> grows P b b''"
  by (simp add: grows_def)

lemma grows_trans [trans]: "grows P a b \<Longrightarrow> grows P b c \<Longrightarrow> grows P a c"
  unfolding grows_def by force

lemma grows_call: "call br c b = (r, b') \<Longrightarrow> P c \<Longrightarrow> grows P b b'"
  by (auto simp: grows_def call_def split: reply.splits)

lemma grows_hush: "P c \<Longrightarrow> grows P b (hush br c b)"
  by (rule grows_call [of br c b "fst (call br c b)"]) (simp_all add: hush_def)

lemma grows_issue: "issue br c b = (r, b') \<Longrightarrow> P c \<Longrightarrow> grows P b b'"
  using grows_call [of br c b _ b' P] by (auto simp: issue_def split: prod.splits reply.splits)

lemma grows_issue_all: "issue_all br cs b = (r, b') \<Longrightarrow> list_all P cs \<Longrightarrow> grows P b b'"
proof (induction cs arbitrary: b)
  case (Cons c cs)
  obtain q b1 where b1: "issue br c b = (q, b1)" by fastforce
  with Cons.prems have "grows P b b1" by (auto intro: grows_issue)
  moreover have "grows P b1 b'" using Cons b1 by (cases q) auto
  ultimately show ?case by (rule grows_trans)
qed auto

definition own_call :: "ConsumerOptions \<Rightarrow> amqp_call \<Rightarrow> bool" where
  "own_call opts c \<longleftrightarrow> (case c of QueueBind q k e \<Rightarrow> e = DLXExchange opts \<longrightarrow> (q, k, e) \<in> dlq_bindings opts | _ \<Rightarrow> True)"

lemma resilient_grows:
  assumes "declareWorkQueueResilient br name args b = (r, b')"
  shows "grows (own_call opts) b b'"
proof (cases "link_conn b")
  case True
  obtain q1 b1 where 1: "issue br OpenChannel b = (q1, b1)" by fastforce
  obtain q2 b2 where 2: "call br (QueueDeclare name args) b1 = (q2, b2)" by fastforce
  obtain q3 b3 where 3: "issue br OpenChannel b2 = (q3, b3)" by fastforce
  obtain q4 b4 where 4: "issue_all br [QueueDelete name True, QueueDeclare name args] b3 = (q4, b4)" by fastforce
  have g: "grows (own_call opts) b b1" "grows (own_call opts) b1 b2" "grows (own_call opts) b2 b3" "grows (own_call opts) b3 b4"
    "grows (own_call opts) b4 (hush br CloseChannel b4)" "grows (own_call opts) b2 (hush br CloseChannel b2)"
    using grows_issue [OF 1] grows_call [OF 2] grows_issue [OF 3] grows_issue_all [OF 4]
    by (auto simp: own_call_def intro: grows_hush)
  have "grows (own_call opts) b2 b'" if "q1 = Inr ()" "q2 = Accept"
    using that assms True 1 2 grows_issue [of br CloseChannel b2 r b'] by (auto simp: declareWorkQueueResilient_def own_call_def)
  note c2 = grows_trans [OF g(1,2)]
  note c3 = grows_trans [OF c2 g(3)]
  note c4 = grows_trans [OF grows_trans [OF c3 g(4)] g(5)]
  from this grows_trans [OF c2 g(6)] grows_trans [OF c2 \<open>\<lbrakk>q1 = Inr (); q2 = Accept\<rbrakk> \<Longrightarrow> grows (own_call opts) b2 b'\<close>] show ?thesis
    using assms True 1 2 3 4 g(1) c2 c3
    by (cases q1; cases q2; cases q3) (auto simp: declareWorkQueueResilient_def simp del: issue_all.simps)
qed (use assms in \<open>auto simp: declareWorkQueueResilient_def\<close>)

lemma declare_grows:
  assumes "DeclareDLQTopology br opts b = (r, b')" "DLXExchange opts \<noteq> SourceExchange opts"
  shows "grows (own_call opts) b b'"
proof (cases "DLXExchange opts = '''' \<or> \<not> link_ch b")
  case True
  then have "b' = b" using assms(1) unfolding DeclareDLQTopology_def by (elim disjE) (simp_all split: if_splits)
  then show ?thesis by simp
next
  case False
  let ?w = "[(''x-dead-letter-exchange'', DLXExchange opts), (''x-dead-letter-routing-key'', dlqParkRoutingKey)]"
  let ?d = "ExchangeDeclare (SourceExchange opts) ''topic'' # dlq_declares opts"
  let ?b = "[QueueBind (RetryQueueName (QueueName opts)) dlqRetryRoutingKey (DLXExchange opts),
       QueueBind (QueueName opts) dlqRedeliverRoutingKey (DLXExchange opts),
       QueueBind (ParkingQueueName (QueueName opts)) dlqParkRoutingKey (DLXExchange opts)]
       @ map (\<lambda>key. QueueBind (QueueName opts) key (SourceExchange opts)) (RoutingKeys opts)"
  obtain q1 b1 where 1: "issue_all br ?d b = (q1, b1)" by fastforce
  obtain q2 b2 where 2: "declareWorkQueueResilient br (QueueName opts) ?w b1 = (q2, b2)" by fastforce
  obtain q3 b3 where 3: "issue_all br ?b b2 = (q3, b3)" by fastforce
  have "list_all (own_call opts) ?d" "list_all (own_call opts) ?b"
    using assms(2) by (auto simp: dlq_declares_def own_call_def dlq_bindings_def list_all_iff)
  note g = grows_issue_all [OF 1 this(1)] resilient_grows [OF 2] grows_issue_all [OF 3 this(2)]
  have run: "(case q1 of Inl e \<Rightarrow> (Inl e, b1) | Inr _ \<Rightarrow> (case q2 of Inl e \<Rightarrow> (Inl e, b2) | Inr _ \<Rightarrow>
      (case q3 of Inl e \<Rightarrow> (Inl e, b3) | Inr _ \<Rightarrow> issue br (Qos (Prefetch opts)) (b3\<lparr>bus_dlx := DLXExchange opts\<rparr>)))) = (r, b')"
    using assms(1) False unfolding DeclareDLQTopology_def Let_def
    by (simp only: if_False de_Morgan_disj not_not simp_thms 1 [unfolded dlq_declares_def] 2 3 prod.case)
  have "grows (own_call opts) (b3\<lparr>bus_dlx := DLXExchange opts\<rparr>) b'"
    if "issue br (Qos (Prefetch opts)) (b3\<lparr>bus_dlx := DLXExchange opts\<rparr>) = (r, b')"
    using grows_issue [OF that] by (simp add: own_call_def)
  then have "grows (own_call opts) b3 b'" if "issue br (Qos (Prefetch opts)) (b3\<lparr>bus_dlx := DLXExchange opts\<rparr>) = (r, b')"
    using that by (simp add: grows_def)
  note c2 = grows_trans [OF g(1) g(2) [of opts]]
  note c3 = grows_trans [OF c2 g(3)]
  from run g(1) c2 c3 grows_trans [OF c3 \<open>issue br (Qos (Prefetch opts)) (b3\<lparr>bus_dlx := DLXExchange opts\<rparr>) = (r, b') \<Longrightarrow> grows (own_call opts) b3 b'\<close>]
  show ?thesis by (auto split: sum.splits)
qed

lemma establish_grows:
  assumes "Bus_establish br b = (r, b')"
  shows "grows (own_call opts) b b'"
proof -
  obtain q1 b1 where 1: "issue br (Dial (link_uri b)) b = (q1, b1)" by fastforce
  obtain q2 b2 where 2: "issue_all br [OpenChannel, ExchangeDeclare (link_exchange b) ''topic''] b1 = (q2, b2)" by fastforce
  have g: "grows (own_call opts) b b1" "grows (own_call opts) b1 b2" "grows (own_call opts) b2 (hush br CloseConn b2)"
    using grows_issue [OF 1] grows_issue_all [OF 2] by (auto simp: own_call_def intro: grows_hush)
  have "link_calls b' = link_calls b2 \<or> b' = b1 \<or> b' = hush br CloseConn b2"
    using assms 1 2 unfolding Bus_establish_def Let_def by (auto simp del: issue_all.simps split: sum.splits)
  then show ?thesis using g(1) grows_trans [OF g(1,2)] grows_trans [OF grows_trans [OF g(1,2)] g(3)] grows_cong [of b' b2] by auto
qed

lemma subscribe_grows:
  assumes "subscribe br opts b = (r, b')" "DLXExchange opts \<noteq> SourceExchange opts"
  shows "grows (own_call opts) b b'"
proof -
  obtain q1 b1 where 1: "DeclareDLQTopology br opts b = (q1, b1)" by fastforce
  obtain q2 b2 where 2: "issue br (Consume (QueueName opts)) b1 = (q2, b2)" by fastforce
  have "grows (own_call opts) b b1" "grows (own_call opts) b1 b2"
    using declare_grows [OF 1 assms(2)] grows_issue [OF 2] by (auto simp: own_call_def)
  note this(1) grows_trans [OF this]
  moreover have "b' = b1 \<or> b' = b2" using assms(1) 1 2 by (auto simp: subscribe_def consumeRaw_def split: sum.splits if_splits)
  ultimately show ?thesis by auto
qed

lemma Close_grows: "grows (own_call opts) b (snd (Bus_Close br b))"
proof -
  define b1 where "b1 = snd (if link_ch b then issue br CloseChannel b else (Inr (), b))"
  define b2 where "b2 = snd (if link_conn b1 then issue br CloseConn b1 else (Inr (), b1))"
  have "grows (own_call opts) b b1" using grows_issue [of br CloseChannel b "fst (issue br CloseChannel b)" _ "own_call opts"]
    by (simp add: b1_def own_call_def)
  also have "grows (own_call opts) b1 b2" using grows_issue [of br CloseConn b1 "fst (issue br CloseConn b1)" _ "own_call opts"]
    by (simp add: b2_def own_call_def)
  also have "b2 = snd (Bus_Close br b)" by (simp add: Bus_Close_def Let_def split_beta b1_def b2_def)
  finally show ?thesis .
qed

definition own_dlx :: "ConsumerOptions \<Rightarrow> amqp_call list \<Rightarrow> bool" where
  "own_dlx opts calls \<longleftrightarrow> (\<forall>x \<in> bound calls. snd (snd x) = DLXExchange opts \<longrightarrow> x \<in> dlq_bindings opts)"

lemma own_dlx_grows:
  assumes "grows (own_call opts) b b'" "own_dlx opts (link_calls b)"
  shows "own_dlx opts (link_calls b')"
proof -
  have "own_dlx opts (calls @ cs)" if "own_dlx opts calls" "list_all (own_call opts) cs" for calls cs
    using that
  proof (induction cs arbitrary: calls)
    case (Cons c cs)
    have "own_dlx opts (calls @ [c])"
      using Cons.prems by (cases c) (auto simp: own_dlx_def bound_append own_call_def)
    then show ?case using Cons.IH [of "calls @ [c]"] Cons.prems by simp
  qed simp
  then show ?thesis using assms by (auto simp: grows_def)
qed

lemma bus_connect_grows:
  assumes "bus_connect brs opts k c = (r, c')" "DLXExchange opts \<noteq> SourceExchange opts"
  shows "grows (own_call opts) (snd c) (snd c')"
proof (cases "fst c")
  case (Some g)
  then show ?thesis using assms(1) by (cases c) (auto simp: bus_connect_def)
next
  case None
  then obtain b where c: "c = (None, b)" by (cases c) auto
  obtain q b1 where q: "Bus_establish (brs k) b = (q, b1)" by fastforce
  obtain q' b2 where q': "subscribe (brs k) opts b1 = (q', b2)" by fastforce
  note g = establish_grows [OF q, of opts] subscribe_grows [OF q' assms(2)]
  have "snd c' = b1 \<or> snd c' = b2 \<or> snd c' = snd (Bus_Close (brs k) b2)"
    using assms(1) by (cases q; cases q') (auto simp: bus_connect_def c q q')
  then show ?thesis using g(1) grows_trans [OF g] grows_trans [OF grows_trans [OF g] Close_grows] by (auto simp: c)
qed

interpretation own_link: supervised_link "bus_connect brs opts"
  "\<lambda>c. DLXExchange opts \<noteq> SourceExchange opts \<and> own_dlx opts (link_calls (snd c))" "\<lambda>g c. own_dlx opts (link_calls (snd c))"
  by unfold_locales (auto dest: bus_connect_grows own_dlx_grows)

text \<open>What a direct exchange then does with the messages of a consumer that is ready.\<close>

lemma ready_routes:
  assumes "bus_ready uri ex opts g b" "own_dlx opts (link_calls b)" "direct_routing route"
  shows "route (link_calls b) (DLXExchange opts) dlqRetryRoutingKey = {RetryQueueName (QueueName opts)}
    \<and> route (link_calls b) (DLXExchange opts) dlqRedeliverRoutingKey = {QueueName opts}
    \<and> route (link_calls b) (DLXExchange opts) dlqParkRoutingKey = {ParkingQueueName (QueueName opts)}
    \<and> copies_back route (link_calls b) (DLXExchange opts) (QueueName opts) = 1"
proof -
  have d: "set (dlq_declares opts) \<subseteq> set (link_calls b)" and bd: "dlq_bindings opts \<subseteq> bound (link_calls b)"
    using assms(1) by (auto simp: bus_ready_def)
  then have "ExchangeDeclare (DLXExchange opts) ''direct'' \<in> set (link_calls b)" by (simp add: dlq_declares_def)
  then have r: "route (link_calls b) (DLXExchange opts) k = {q. (q, k, DLXExchange opts) \<in> dlq_bindings opts}" for k
    using assms(2,3) bd by (auto simp: direct_routing_def own_dlx_def)
  then have keys: "route (link_calls b) (DLXExchange opts) dlqRetryRoutingKey = {RetryQueueName (QueueName opts)}"
    "route (link_calls b) (DLXExchange opts) dlqRedeliverRoutingKey = {QueueName opts}"
    "route (link_calls b) (DLXExchange opts) dlqParkRoutingKey = {ParkingQueueName (QueueName opts)}"
    by (auto simp: dlq_bindings_def)
  have "{q \<in> route (link_calls b) (DLXExchange opts) dlqRetryRoutingKey.
      QueueDeclare q [(''x-dead-letter-exchange'', DLXExchange opts), (''x-dead-letter-routing-key'', dlqRedeliverRoutingKey)] \<in> set (link_calls b)
        \<and> QueueName opts \<in> route (link_calls b) (DLXExchange opts) dlqRedeliverRoutingKey} = {RetryQueueName (QueueName opts)}"
    using keys d by (auto simp: dlq_declares_def)
  then show ?thesis using keys by (simp add: copies_back_def)
qed

end
