(* ===== verification/Service_Wiring.thy ===== *)
theory Service_Wiring
  imports Service_Config Bus_Links
begin

text \<open>
  How the mains of Identity and Leaderboard wire their one consumer (services/*/cmd/*/main.go with the
  names of internal/messaging/runtime.go): the queue, its keys, the dead-letter exchange and the
  prefetch of the configuration. Timing's two consumers are in their own theory.
\<close>

definition LeaderboardExchange :: string where
  "LeaderboardExchange = ''leaderboard.events''"

definition LeaderboardDLXExchange :: string where
  "LeaderboardDLXExchange = ''leaderboard.dlx''"

definition consumeQueue :: string where
  "consumeQueue = ''leaderboard.lap-recorded''"

definition leaderboard_consumerOpts :: "LeaderboardConfig \<Rightarrow> ConsumerOptions" where
  "leaderboard_consumerOpts cfg =
     \<lparr>SourceExchange = lc_TimingExchange cfg, QueueName = consumeQueue,
      RoutingKeys = [LapRecordedRoutingKey, SessionStartedRoutingKey, SessionEndedRoutingKey],
      Prefetch = ConsumePrefetch cfg, DLXExchange = LeaderboardDLXExchange\<rparr>"

definition IdentityExchange :: string where
  "IdentityExchange = ''identity.events''"

definition IdentityDLXExchange :: string where
  "IdentityDLXExchange = ''identity.dlx''"

definition LookupRequestedQueue :: string where
  "LookupRequestedQueue = ''identity.lookup-requested''"

definition identity_consumerOpts :: "IdentityConfig \<Rightarrow> ConsumerOptions" where
  "identity_consumerOpts cfg =
     \<lparr>SourceExchange = ic_SourceExchange cfg, QueueName = LookupRequestedQueue,
      RoutingKeys = [LookupRequestedRoutingKey, ErasureRequestedType],
      Prefetch = ConsumePrefetch cfg, DLXExchange = IdentityDLXExchange\<rparr>"

text \<open>A consumer as a configuration wires it: its options, its retry policy and its copy of the rule.\<close>

definition leaderboard_wired :: "getenv \<Rightarrow> ConsumerOptions \<Rightarrow> Policy \<Rightarrow> (int \<Rightarrow> Policy \<Rightarrow> Decision) \<Rightarrow> bool" where
  "leaderboard_wired g opts p rule \<longleftrightarrow>
     (case leaderboard_Load g of Inl e \<Rightarrow> False | Inr cfg \<Rightarrow> opts = leaderboard_consumerOpts cfg \<and> p = cfg_Policy cfg \<and> rule = leaderboard_NextRetry)"

definition identity_wired :: "getenv \<Rightarrow> ConsumerOptions \<Rightarrow> Policy \<Rightarrow> (int \<Rightarrow> Policy \<Rightarrow> Decision) \<Rightarrow> bool" where
  "identity_wired g opts p rule \<longleftrightarrow>
     (case identity_Load g of Inl e \<Rightarrow> False | Inr cfg \<Rightarrow> opts = identity_consumerOpts cfg \<and> p = cfg_Policy cfg \<and> rule = identity_NextRetry)"

lemma wired_policy:
  assumes "leaderboard_wired g opts p rule \<or> identity_wired g opts p rule"
  shows "policy_ok p \<and> rule \<in> {leaderboard_NextRetry, identity_NextRetry} \<and> 0 < Prefetch opts"
  using assms leaderboard_Load_ok [of g] identity_Load_ok [of g]
  by (auto simp: leaderboard_wired_def identity_wired_def common_ok_def leaderboard_consumerOpts_def identity_consumerOpts_def split: sum.splits)

lemma wired_poison:
  assumes "leaderboard_wired g opts p rule \<or> identity_wired g opts p rule" "no_overflow p" "MaxAttempts p \<le> 2 ^ 31"
  shows "poison_run rule p body (nat (MaxAttempts p)) None = Some (Parked (map (hop_delay p) [0..<nat (MaxAttempts p) - 1]))"
  using wired_policy [OF assms(1)] assms(2,3) identity_policy.poison_run_fresh [of p body] leaderboard_policy.poison_run_fresh [of p body] by auto

end
