(* ===== verification/Timing_Consumers.thy ===== *)
theory Timing_Consumers
  imports Timing_Stores
begin

text \<open>
  Timing's inbound side (services/timing/internal/consumer): the register-first client that asks
  Identity for a driver's id and waits for the reply, the consumer that delivers the replies, and
  the consumer that refreshes the local records; and how cmd/timing/main.go wires their queues.
\<close>

section \<open>resolver.go\<close>

definition register :: "string \<Rightarrow> (timing_db, unit) io" where
  "register requestID = memE (\<lambda>d. (d\<lparr>waiters := (waiters d)(requestID := Some None)\<rparr>, ()))"

definition unregister :: "string \<Rightarrow> (timing_db, unit) io" where
  "unregister requestID = memE (\<lambda>d. (d\<lparr>waiters := (waiters d)(requestID := None)\<rparr>, ()))"

text \<open>A full channel drops the second value.\<close>

definition signal :: "string \<Rightarrow> string \<Rightarrow> (timing_db, bool) io" where
  "signal requestID masterID = memE (\<lambda>d.
     case waiters d requestID of
       None \<Rightarrow> (d, False)
     | Some None \<Rightarrow> (d\<lparr>waiters := (waiters d)(requestID := Some (Some masterID))\<rparr>, True)
     | Some (Some m) \<Rightarrow> (d, True))"

definition Deliver :: "string \<Rightarrow> string \<Rightarrow> string \<Rightarrow> ResolvedData \<Rightarrow> (timing_db, bool) io" where
  "Deliver envID envType processedAt res =
     bindE (WithinTx (bindE (InboxHasSeen envID) (\<lambda>seen.
        if seen then retE True
        else bindE (InboxMarkSeen envID envType processedAt) (\<lambda>_. retE False)))) (\<lambda>dup.
     if dup then retE True
     else bindE (signal (rs_RequestID res) (rs_MasterID res)) (\<lambda>_. retE False))"

text \<open>The publish seam that cmd/timing/main.go hands the client.\<close>

definition lookup_publish :: "json_codec \<Rightarrow> validator \<Rightarrow> Envelope \<Rightarrow> (timing_db, unit) io" where
  "lookup_publish cd v env =
     (case Marshal cd env of
        None \<Rightarrow> failE (PermanentPublish MarshalError)
      | Some body \<Rightarrow>
          (case v body of
             Some verr \<Rightarrow> failE (PermanentPublish verr)
           | None \<Rightarrow> bindE sendE (\<lambda>ok. bindE (emitE (Pub (Type env) body ok)) (\<lambda>_.
               if ok then retE () else failE PublishError))))"

fun isPermanent :: "error \<Rightarrow> bool" where
  "isPermanent (PermanentPublish e) = True"
| "isPermanent e = False"

text \<open>
  What happens while \<open>Resolve\<close> waits, in the order it happens: the consumer delivers a reply, or the
  client's \<open>select\<close> takes the reply, the timer or the cancelled context. A \<open>select\<close> can take the reply
  only when there is one and the last publish succeeded (otherwise the code waits for the timer).
\<close>

datatype resolve_event =
    RDeliver string string string ResolvedData
  | RReply
  | RTimeout
  | RDone

definition publish_lookup :: "json_codec \<Rightarrow> validator \<Rightarrow> string \<Rightarrow> string \<Rightarrow> string \<Rightarrow> (timing_db, error + unit) io" where
  "publish_lookup cd v source requestID email =
     bindE nowE (\<lambda>now. bindE newIdE (\<lambda>eid.
       tryE (lookup_publish cd v (NewLookupRequestedEnvelope eid source requestID requestID email now)) retE))"

text \<open>\<open>alertEvery\<close> is 5; \<open>None\<close> when the events end before \<open>Resolve\<close> returns.\<close>

fun resolve_loop :: "json_codec \<Rightarrow> validator \<Rightarrow> string \<Rightarrow> string \<Rightarrow> string \<Rightarrow> bool \<Rightarrow> int \<Rightarrow> resolve_event list \<Rightarrow> (timing_db, string option) io" where
  "resolve_loop cd v source requestID email published attempts [] = retE None"
| "resolve_loop cd v source requestID email published attempts (RDeliver i ty at res # evs) =
     tryE (Deliver i ty at res) (\<lambda>_. resolve_loop cd v source requestID email published attempts evs)"
| "resolve_loop cd v source requestID email published attempts (RReply # evs) =
     bindE (memE (\<lambda>d. (d, waiters d requestID))) (\<lambda>buf. case buf of
       Some (Some masterID) \<Rightarrow>
         if published then retE (Some masterID) else resolve_loop cd v source requestID email published attempts evs
     | _ \<Rightarrow> resolve_loop cd v source requestID email published attempts evs)"
| "resolve_loop cd v source requestID email published attempts (RDone # evs) = failE CtxDone"
| "resolve_loop cd v source requestID email published attempts (RTimeout # evs) =
     bindE (whenE (published \<and> attempts mod 5 = 0) (emitE (Alert ''identity_resolve_stalled''))) (\<lambda>_.
     bindE (publish_lookup cd v source requestID email) (\<lambda>r. case r of
       Inl err \<Rightarrow> if isPermanent err then failE err
                  else resolve_loop cd v source requestID email False (attempts + 1) evs
     | Inr _ \<Rightarrow> resolve_loop cd v source requestID email True (attempts + 1) evs))"

text \<open>
  \<open>Resolve\<close> itself: register the waiter, publish, loop, and unregister on every return. While the
  events have not brought a return the waiter stays.
\<close>

definition Resolver_Resolve :: "json_codec \<Rightarrow> validator \<Rightarrow> string \<Rightarrow> string \<Rightarrow> resolve_event list \<Rightarrow> (timing_db, string option) io" where
  "Resolver_Resolve cd v source email evs =
     bindE newIdE (\<lambda>requestID.
     bindE (register requestID) (\<lambda>_.
     tryE (bindE (publish_lookup cd v source requestID email) (\<lambda>r. case r of
             Inl err \<Rightarrow> if isPermanent err then failE err
                        else resolve_loop cd v source requestID email False 1 evs
           | Inr _ \<Rightarrow> resolve_loop cd v source requestID email True 1 evs)) (\<lambda>res. case res of
       Inl err \<Rightarrow> bindE (unregister requestID) (\<lambda>_. failE err)
     | Inr None \<Rightarrow> retE None
     | Inr (Some masterID) \<Rightarrow> bindE (unregister requestID) (\<lambda>_. retE (Some masterID)))))"

section \<open>consumer.go\<close>

record ResolvedHandler = Sinks +
  rh_Validate :: "bytes \<Rightarrow> error option"
  rh_ResolvedKey :: string

definition timing_Process :: "json_codec \<Rightarrow> ResolvedHandler \<Rightarrow> Delivery \<Rightarrow> (timing_db, unit) io" where
  "timing_Process cd h d =
     (case rh_Validate h (dv_Body d) of
        Some err \<Rightarrow> park h d ''contract-invalid''
      | None \<Rightarrow>
          (case DecodeIncoming cd (dv_Body d) of
             Inl err \<Rightarrow> park h d ''undecodable-envelope''
           | Inr env \<Rightarrow>
               if Type env \<noteq> rh_ResolvedKey h then ack d
               else (case UnmarshalResolved cd (Data env) of
                  None \<Rightarrow> park h d ''undecodable-data''
                | Some data \<Rightarrow>
                    tryE (Deliver (ID env) (Type env) (OccurredAt env) data) (\<lambda>r. case r of
                      Inl err \<Rightarrow> retryOrPark NextRetry h d
                    | Inr dup \<Rightarrow> bindE (ack d) (\<lambda>_. retE ())))))"

definition timing_Run :: "json_codec \<Rightarrow> ResolvedHandler \<Rightarrow> consumer_event list \<Rightarrow> (timing_db, unit) io" where
  "timing_Run cd h evs = consumer_run (timing_Process cd h) evs"

section \<open>pr_refresh.go\<close>

definition Refresher_Refresh :: "PRUpdatedData \<Rightarrow> (timing_db, unit) io" where
  "Refresher_Refresh u = bindE nowE (\<lambda>now.
     PRStore_Refresh (pu_MasterID u) (pu_LapTimeMs u) (pu_SetAt u) (FormatWireTime now))"

record PRRefreshHandler = Sinks +
  ph_Validate :: "bytes \<Rightarrow> error option"
  ph_Key :: string

definition pr_park :: "PRRefreshHandler \<Rightarrow> Delivery \<Rightarrow> string \<Rightarrow> (timing_db, unit) io" where
  "pr_park h d reason =
     (if \<not> sk_Park h then nack d False
      else bindE sendE (\<lambda>ok. bindE (emitE (ParkPub (dv_Body d) reason ok)) (\<lambda>_.
        if \<not> ok then nack d True
        else bindE (emitE (Alert ''message_parked'')) (\<lambda>_. ack d))))"

definition pr_retryOrPark :: "PRRefreshHandler \<Rightarrow> Delivery \<Rightarrow> (timing_db, unit) io" where
  "pr_retryOrPark h d =
     (let dec = NextRetry (RetryCount d) (sk_Policy h)
      in if Park dec then pr_park h d ''retries-exhausted''
         else if \<not> sk_Retry h then nack d True
         else bindE sendE (\<lambda>ok. bindE (emitE (RetryPub (dv_Body d) (DelayMs dec) (NextRetries dec) ok)) (\<lambda>_.
           if \<not> ok then nack d True else ack d)))"

definition pr_Process :: "json_codec \<Rightarrow> PRRefreshHandler \<Rightarrow> Delivery \<Rightarrow> (timing_db, unit) io" where
  "pr_Process cd h d =
     (case ph_Validate h (dv_Body d) of
        Some err \<Rightarrow> pr_park h d ''contract-invalid''
      | None \<Rightarrow>
          (case DecodeIncoming cd (dv_Body d) of
             Inl err \<Rightarrow> pr_park h d ''undecodable-envelope''
           | Inr env \<Rightarrow>
               if Type env \<noteq> ph_Key h then ack d
               else (case UnmarshalPRUpdated cd (Data env) of
                  None \<Rightarrow> pr_park h d ''undecodable-data''
                | Some data \<Rightarrow>
                    tryE (Refresher_Refresh data) (\<lambda>r. case r of
                      Inl err \<Rightarrow> pr_retryOrPark h d
                    | Inr _ \<Rightarrow> bindE (ack d) (\<lambda>_. retE ())))))"

definition pr_Run :: "json_codec \<Rightarrow> PRRefreshHandler \<Rightarrow> consumer_event list \<Rightarrow> (timing_db, unit) io" where
  "pr_Run cd h evs = consumer_run (pr_Process cd h) evs"

section \<open>The queues of cmd/timing/main.go\<close>

definition consumerOpts :: "int \<Rightarrow> ConsumerOptions" where
  "consumerOpts prefetch = \<lparr>SourceExchange = IdentityEventsExchange, QueueName = IdentityResolvedQueue,
     RoutingKeys = [IdentityResolvedRoutingKey], Prefetch = prefetch, DLXExchange = TimingDLXExchange\<rparr>"

definition prConsumerOpts :: "int \<Rightarrow> ConsumerOptions" where
  "prConsumerOpts prefetch = \<lparr>SourceExchange = DriverEventsExchange, QueueName = DriverPRUpdatedQueue,
     RoutingKeys = [DriverPRUpdatedRoutingKey], Prefetch = prefetch, DLXExchange = TimingDLXExchange\<rparr>"

section \<open>The spine\<close>

text \<open>The durable part of the state: everything but the waiters.\<close>

definition timing_tables :: "timing_db \<Rightarrow> timing_db" where
  "timing_tables d = d\<lparr>waiters := (\<lambda>_. None)\<rparr>"

lemma commits_post:
  assumes "commits tables m" "\<And>a ora w. \<exists>b u. f a ora w = (Inr b, u) \<and> trace u = trace w"
  shows "commits tables (bindE m f)"
  unfolding commits_def
proof (intro allI impI)
  fix ora w x u
  assume run: "bindE m f ora w = (x, u)"
  obtain y v where y: "m ora w = (y, v)" by fastforce
  note c = assms(1) [unfolded commits_def, rule_format, OF y]
  show "trace u = trace w @ (case x of Inl e \<Rightarrow> [] | Inr a \<Rightarrow> [Committed]) \<and> (\<forall>e. x = Inl e \<longrightarrow> tables (db u) = tables (db w))"
  proof (cases y)
    case (Inl e)
    then show ?thesis using run y c by (auto simp: bindE_def)
  next
    case (Inr a)
    obtain b v' where "f a ora v = (Inr b, v')" "trace v' = trace v" using assms(2) by blast
    then show ?thesis using run y c Inr by (auto simp: bindE_def)
  qed
qed

lemma commits_autoE: "commits tables (autoE (execE f))"
  by (auto simp: commits_def autoE_def io_defs split: sum.splits)

lemma Deliver_once: "Deliver i ty at res = bindE (once i ty at True (retE False)) (\<lambda>dup.
     if dup then retE True else bindE (signal (rs_RequestID res) (rs_MasterID res)) (\<lambda>_. retE False))"
  by (simp add: Deliver_def once_def cong: if_cong)

lemma Deliver_commits: "commits tables (Deliver i ty at res)"
  unfolding Deliver_once
  by (intro commits_post once_commits quiet_intros)
    (auto simp: signal_def memE_def bindE_def retE_def split: option.splits)

lemma Refresh_commits: "commits tables (Refresher_Refresh u)"
  unfolding Refresher_Refresh_def PRStore_Refresh_def
  by (rule commits_pre) (auto simp: nowE_def intro: commits_autoE)

definition rh_ignores :: "json_codec \<Rightarrow> ResolvedHandler \<Rightarrow> Delivery \<Rightarrow> bool" where
  "rh_ignores cd h d \<longleftrightarrow> rh_Validate h (dv_Body d) = None
     \<and> (\<exists>env. DecodeIncoming cd (dv_Body d) = Inr env \<and> Type env \<noteq> rh_ResolvedKey h)"

definition ph_ignores :: "json_codec \<Rightarrow> PRRefreshHandler \<Rightarrow> Delivery \<Rightarrow> bool" where
  "ph_ignores cd h d \<longleftrightarrow> ph_Validate h (dv_Body d) = None
     \<and> (\<exists>env. DecodeIncoming cd (dv_Body d) = Inr env \<and> Type env \<noteq> ph_Key h)"

text \<open>Both handlers have the shape that the following lemma settles once.\<close>

lemma shape_done:
  assumes "(case vld of Some err \<Rightarrow> park h d ''contract-invalid''
      | None \<Rightarrow> (case dec of Inl err \<Rightarrow> park h d ''undecodable-envelope''
           | Inr env \<Rightarrow> if Type env \<noteq> k then ack d
               else (case unm env of None \<Rightarrow> park h d ''undecodable-data''
                | Some data \<Rightarrow> tryE (op env data) (\<lambda>r. case r of Inl err \<Rightarrow> retryOrPark nr h d
                    | Inr a \<Rightarrow> bindE (ack d) (\<lambda>_. retE ()))))) ora w = (r, w')"
    and "\<And>env data. commits tables (op env data)"
  shows "r = Inr () \<and> step_done (vld = None \<and> (\<exists>env. dec = Inr env \<and> Type env \<noteq> k)) (sk_Park h) tables d w w'"
    (is "_ \<and> step_done ?I _ _ _ _ _")
proof -
  have p: "park h d reason ora w = (r, w') \<Longrightarrow> r = Inr () \<and> step_done ?I (sk_Park h) tables d w w'" for reason
    by (rule park_done)
  show ?thesis
  proof (cases vld)
    case (Some e)
    then show ?thesis using assms(1) by (intro p) simp
  next
    case valid: None
    show ?thesis
    proof (cases dec)
      case (Inl e)
      then show ?thesis using assms(1) valid by (intro p) simp
    next
      case (Inr env)
      show ?thesis
      proof (cases "Type env = k")
        case False
        then have "ack d ora w = (r, w')" using assms(1) valid Inr by simp
        from ack_done [OF this] valid Inr False show ?thesis by simp
      next
        case True
        then show ?thesis
        proof (cases "unm env")
          case None
          then show ?thesis using assms(1) valid Inr True by (intro p) simp
        next
          case (Some data)
          then have "tryE (op env data) (\<lambda>r. case r of Inl err \<Rightarrow> retryOrPark nr h d
              | Inr a \<Rightarrow> bindE (ack d) (\<lambda>_. retE ())) ora w = (r, w')" using assms(1) valid Inr True by (simp only: option.case sum.case simp_thms if_False)
          then show ?thesis by (rule tryE_done [OF _ assms(2)]) simp
        qed
      qed
    qed
qed
qed

lemma timing_Process_done:
  assumes "timing_Process cd h d ora w = (r, w')"
  shows "r = Inr () \<and> step_done (rh_ignores cd h d) (sk_Park h) timing_tables d w w'"
  unfolding rh_ignores_def by (rule shape_done [OF assms [unfolded timing_Process_def] Deliver_commits])

lemma pr_park_eq: "pr_park h d reason = park h d reason"
  by (simp add: pr_park_def park_def)

lemma pr_retryOrPark_eq: "pr_retryOrPark h d = retryOrPark NextRetry h d"
  by (simp add: pr_retryOrPark_def retryOrPark_def pr_park_eq Let_def cong: if_cong)

lemma pr_Process_done:
  assumes "pr_Process cd h d ora w = (r, w')"
  shows "r = Inr () \<and> step_done (ph_ignores cd h d) (sk_Park h) timing_tables d w w'"
  unfolding ph_ignores_def by (rule shape_done [OF assms [unfolded pr_Process_def pr_park_eq pr_retryOrPark_eq] Refresh_commits])

interpretation timing_spine: delivery_spine "timing_Process cd h" "rh_ignores cd h" "sk_Park h" timing_tables
  for cd h
  by unfold_locales (drule timing_Process_done, simp add: step_done_def)

interpretation pr_spine: delivery_spine "pr_Process cd h" "ph_ignores cd h" "sk_Park h" timing_tables
  for cd h
  by unfold_locales (drule pr_Process_done, simp add: step_done_def)

text \<open>C29: Timing's two consumers lose no message: the runs of both return, and each delivery they took is
  settled by its own stretch of the trace, exactly once, and acked only when its effect committed
  or the message was passed on to the retry or the parking queue, unless its type is another
  one's.\<close>

theorem timing_consumers_settle:
  "(\<exists>w' trs. timing_Run cd h evs ora w = (Inr (), w') \<and> trace w' = trace w @ concat trs
     \<and> list_all2 (\<lambda>d tr. settled (rh_ignores cd h d) (sk_Park h) (dv_Body d) tr) (taken evs) trs)
   \<and> (\<exists>w' trs. pr_Run cd h' evs ora w = (Inr (), w') \<and> trace w' = trace w @ concat trs
     \<and> list_all2 (\<lambda>d tr. settled (ph_ignores cd h' d) (sk_Park h') (dv_Body d) tr) (taken evs) trs)"
proof -
  obtain r w' where run: "consumer_run (timing_Process cd h) evs ora w = (r, w')" by fastforce
  obtain q v' where run': "consumer_run (pr_Process cd h') evs ora w = (q, v')" by fastforce
  from timing_spine.run_settles [OF run] run pr_spine.run_settles [OF run'] run' show ?thesis
    by (auto simp: timing_Run_def pr_Run_def)
qed

section \<open>The shared dead-letter exchange\<close>

text \<open>C30: the two consumers of Timing share one dead-letter exchange with the same three routing keys.
  Once both have declared their topologies (on a broker that had no bindings), a message
  redelivered from either retry queue goes to both work queues, a parked message goes to both
  parking queues, and a message that the identity.resolved consumer retries comes back to its
  queue twice.\<close>

theorem timing_dlx_is_shared:
  assumes "DeclareDLQTopology br (consumerOpts p) b = (Inr u, b1)"
    and "DeclareDLQTopology br (prConsumerOpts p') b2 = (Inr v, b')"
    and "link_calls b2 = link_calls b1" and "direct_routing route" and "bound (link_calls b) = {}"
  shows "route (link_calls b') TimingDLXExchange dlqRedeliverRoutingKey = {IdentityResolvedQueue, DriverPRUpdatedQueue}
    \<and> route (link_calls b') TimingDLXExchange dlqParkRoutingKey
        = {ParkingQueueName IdentityResolvedQueue, ParkingQueueName DriverPRUpdatedQueue}
    \<and> copies_back route (link_calls b') TimingDLXExchange IdentityResolvedQueue = 2"
  using shared_dlx_crosstalk [OF assms(1-3) _ assms(4)] assms(5)
  by (simp add: consumerOpts_def prConsumerOpts_def IdentityResolvedQueue_def DriverPRUpdatedQueue_def
      TimingDLXExchange_def IdentityEventsExchange_def DriverEventsExchange_def RetryQueueName_def ParkingQueueName_def)

theorem timing_dlx_is_shared_witness:
  "let b0 = demo_bus;
       b1 = snd (DeclareDLQTopology (\<lambda>calls c. Accept) (consumerOpts 10) b0);
       b' = snd (DeclareDLQTopology (\<lambda>calls c. Accept) (prConsumerOpts 10) b1)
   in copies_back (\<lambda>calls e k. {q. (q, k, e) \<in> bound calls}) (link_calls b') TimingDLXExchange IdentityResolvedQueue = 2"
proof -
  define b0 where "b0 = demo_bus"
  let ?br = "\<lambda>calls c. Accept"
  define b1 where "b1 = snd (DeclareDLQTopology ?br (consumerOpts 10) b0)"
  define b' where "b' = snd (DeclareDLQTopology ?br (prConsumerOpts 10) b1)"
  note defs = DeclareDLQTopology_def declareWorkQueueResilient_def Let_def issue_def call_def consumerOpts_def prConsumerOpts_def
    TimingDLXExchange_def
  have 1: "DeclareDLQTopology ?br (consumerOpts 10) b0 = (Inr (), b1)" by (simp add: b1_def b0_def demo_bus_def defs)
  have 2: "DeclareDLQTopology ?br (prConsumerOpts 10) b1 = (Inr (), b')" by (simp add: b'_def b1_def b0_def demo_bus_def defs)
  have r: "direct_routing (\<lambda>calls e k. {q. (q, k, e) \<in> bound calls})" by (simp add: direct_routing_def)
  have e: "bound (link_calls b0) = {}" by (simp add: b0_def demo_bus_def bound_def)
  show ?thesis using timing_dlx_is_shared [OF 1 2 refl r e] by (simp add: Let_def b0_def [symmetric] b1_def [symmetric] b'_def [symmetric])
qed

section \<open>Register first\<close>

lemma publish_lookup_run: "\<exists>r u. publish_lookup cd v source rid email ora w = (Inr r, u) \<and> db u = db w
    \<and> (\<exists>tr. trace u = trace w @ tr) \<and> (case r of Inl e \<Rightarrow> isPermanent e \<or> e = PublishError
        | Inr a \<Rightarrow> \<exists>body. Pub LookupRequestedRoutingKey body True \<in> set (trace u))"
  by (auto simp: publish_lookup_def lookup_publish_def NewLookupRequestedEnvelope_def NewDomainEnvelope_def io_defs split: option.splits)

lemma Deliver_waiters:
  assumes "Deliver i ty at res ora w = (x, u)"
  shows "waiters (db u) rid = waiters (db w) rid
    \<or> (rs_RequestID res = rid \<and> waiters (db w) rid = Some None \<and> waiters (db u) rid = Some (Some (rs_MasterID res)))"
proof -
  obtain y u1 where y: "once i ty at True (retE False) ora w = (y, u1)" by fastforce
  have same: "waiters (db u1) = waiters (db w)"
    using once_Inl [of i ty at True "retE False" ora w _ u1] once_Inr [of i ty at True "retE False" ora w _ u1] y
    by (cases y) (auto simp: retE_def)
  show ?thesis
  proof (cases y)
    case (Inl e)
    then show ?thesis using assms y same by (simp add: Deliver_once bindE_def)
  next
    case (Inr dup)
    then show ?thesis using assms y same
      by (auto simp: Deliver_once bindE_def signal_def memE_def retE_def split: if_splits option.splits)
  qed
qed

lemma Deliver_trace:
  assumes "Deliver i ty at res ora w = (x, u)"
  shows "\<exists>tr. trace u = trace w @ tr"
  using Deliver_commits [of timing_tables, unfolded commits_def] assms by blast

lemma resolve_loop_errors:
  "resolve_loop cd v source rid email published n evs ora w = (Inl e, w') \<Longrightarrow> isPermanent e \<or> e = CtxDone"
proof (induction evs arbitrary: published n w)
  case (Cons ev evs)
  then show ?case
  proof (cases ev)
    case RTimeout
    define w0 where "w0 = (if published \<and> n mod 5 = 0 then w\<lparr>trace := trace w @ [Alert ''identity_resolve_stalled'']\<rparr> else w)"
    obtain r u where r: "publish_lookup cd v source rid email ora w0 = (Inr r, u)"
      using publish_lookup_run by blast
    then show ?thesis using Cons RTimeout
      by (auto simp: bindE_def whenE_def emitE_def retE_def failE_def w0_def split: if_splits sum.splits)
  qed (auto simp: tryE_def bindE_def memE_def retE_def failE_def split: prod.splits option.splits if_splits)
qed (simp add: retE_def)

text \<open>The reply a loop returns was delivered during the loop, or was there when it began.\<close>

lemma resolve_loop_sound:
  "resolve_loop cd v source rid email published n evs ora w = (Inr (Some m), w') \<Longrightarrow>
   (waiters (db w) rid = Some (Some m) \<or> (\<exists>i ty at res. RDeliver i ty at res \<in> set evs \<and> rs_RequestID res = rid \<and> rs_MasterID res = m))
   \<and> (\<exists>tr. trace w' = trace w @ tr)
   \<and> (published \<or> (\<exists>body. Pub LookupRequestedRoutingKey body True \<in> set (trace w')))"
proof (induction evs arbitrary: published n w)
  case (Cons ev evs)
  show ?case
  proof (cases ev)
    case (RDeliver i ty at res)
    obtain x u where x: "Deliver i ty at res ora w = (x, u)" by fastforce
    with Cons.prems RDeliver have "resolve_loop cd v source rid email published n evs ora u = (Inr (Some m), w')" by (simp add: tryE_def)
    from Cons.IH [OF this] Deliver_waiters [OF x, of rid] Deliver_trace [OF x] RDeliver show ?thesis by fastforce
  next
    case RReply
    then have "(published \<and> waiters (db w) rid = Some (Some m) \<and> w' = w)
        \<or> resolve_loop cd v source rid email published n evs ora w = (Inr (Some m), w')"
      using Cons.prems by (auto simp: bindE_def memE_def retE_def split: option.splits if_splits)
    then show ?thesis using Cons.IH [of published n w] by auto
  next
    case RDone
    then show ?thesis using Cons.prems by (simp add: failE_def)
  next
    case RTimeout
    define w0 where "w0 = (if published \<and> n mod 5 = 0 then w\<lparr>trace := trace w @ [Alert ''identity_resolve_stalled'']\<rparr> else w)"
    obtain r u where r: "publish_lookup cd v source rid email ora w0 = (Inr r, u)" "db u = db w0" "\<exists>tr. trace u = trace w0 @ tr"
      "case r of Inl e \<Rightarrow> isPermanent e \<or> e = PublishError | Inr a \<Rightarrow> \<exists>body. Pub LookupRequestedRoutingKey body True \<in> set (trace u)"
      using publish_lookup_run by blast
    have w0: "db w0 = db w" "\<exists>tr. trace w0 = trace w @ tr" by (auto simp: w0_def)
    have run: "(case r of Inl err \<Rightarrow> if isPermanent err then failE err
                    else resolve_loop cd v source rid email False (n + 1) evs
       | Inr _ \<Rightarrow> resolve_loop cd v source rid email True (n + 1) evs) ora u = (Inr (Some m), w')"
      using Cons.prems RTimeout r(1) by (auto simp: bindE_def whenE_def emitE_def retE_def w0_def split: if_splits)
    show ?thesis
    proof (cases r)
      case (Inl e)
      then have "resolve_loop cd v source rid email False (n + 1) evs ora u = (Inr (Some m), w')"
        using run by (auto simp: failE_def split: if_splits)
      from Cons.IH [OF this] r(2,3) w0 show ?thesis by auto
    next
      case (Inr a)
      then have "resolve_loop cd v source rid email True (n + 1) evs ora u = (Inr (Some m), w')" using run by simp
      from Cons.IH [OF this] r(2,3,4) w0 Inr show ?thesis by auto
    qed
  qed
qed (simp add: retE_def)

text \<open>C31: the register-first client only ever returns an id that Identity sent for this request. When
  \<open>Resolve\<close> returns a masterId, some reply delivered while it waited carried exactly that id and
  the request's id, a lookup was published with success, and the waiter is gone; an error is a permanent
  publish failure or the cancelled context, and the waiter is gone too.\<close>

theorem Resolve_returns_a_reply:
  assumes "Resolver_Resolve cd v source email evs ora w = (x, w')"
  shows "case x of
      Inl e \<Rightarrow> (isPermanent e \<or> e = CtxDone) \<and> waiters (db w') (o_uuid ora (tick w)) = None
    | Inr None \<Rightarrow> True
    | Inr (Some m) \<Rightarrow>
        (\<exists>i ty at res. RDeliver i ty at res \<in> set evs \<and> rs_RequestID res = o_uuid ora (tick w) \<and> rs_MasterID res = m)
        \<and> (\<exists>body. Pub LookupRequestedRoutingKey body True \<in> set (trace w'))
        \<and> waiters (db w') (o_uuid ora (tick w)) = None"
proof -
  define rid where "rid = o_uuid ora (tick w)"
  define w0 where "w0 = (tock w)\<lparr>db := (db w)\<lparr>waiters := (waiters (db w))(rid := Some None)\<rparr>\<rparr>"
  obtain r u where r: "publish_lookup cd v source rid email ora w0 = (Inr r, u)" "db u = db w0"
    "case r of Inl e \<Rightarrow> isPermanent e \<or> e = PublishError | Inr a \<Rightarrow> \<exists>body. Pub LookupRequestedRoutingKey body True \<in> set (trace u)"
    using publish_lookup_run by blast
  let ?b = "\<exists>a. r = Inr a"
  obtain y u' where y: "(case r of Inl err \<Rightarrow> if isPermanent err then failE err
        else resolve_loop cd v source rid email False 1 evs
      | Inr _ \<Rightarrow> resolve_loop cd v source rid email True 1 evs) ora u = (y, u')" by fastforce
  have end_run: "x = y \<and> (y = Inr None \<or> waiters (db w') rid = None) \<and> trace w' = trace u'"
  proof -
    let ?F = "\<lambda>r. case r of Inl err \<Rightarrow> if isPermanent err then failE err
        else resolve_loop cd v source rid email False 1 evs
      | Inr _ \<Rightarrow> resolve_loop cd v source rid email True 1 evs"
    let ?G = "\<lambda>res. case res of Inl err \<Rightarrow> bindE (unregister rid) (\<lambda>_. failE err)
     | Inr None \<Rightarrow> retE None | Inr (Some masterID) \<Rightarrow> bindE (unregister rid) (\<lambda>_. retE (Some masterID))"
    have "tryE (bindE (publish_lookup cd v source rid email) ?F) ?G ora w0 = (x, w')"
      using assms unfolding Resolver_Resolve_def bindE_prims register_def rid_def [symmetric] fst_conv snd_conv
      by (simp only: w0_def tock_simps)
    moreover have "bindE (publish_lookup cd v source rid email) ?F ora w0 = (y, u')"
      using r(1) y by (simp add: bindE_def)
    ultimately have "?G y ora u' = (x, w')" by (simp add: tryE_def)
    then show ?thesis
      by (auto simp: bindE_def unregister_def memE_def failE_def retE_def split: sum.splits option.splits)
  qed
  have errs: "isPermanent e \<or> e = CtxDone" if "y = Inl e" for e
    using y that resolve_loop_errors by (cases r) (auto simp: failE_def split: if_splits)
  have "case y of Inl e \<Rightarrow> True | Inr None \<Rightarrow> True | Inr (Some m) \<Rightarrow>
     resolve_loop cd v source rid email ?b 1 evs ora u = (Inr (Some m), u')"
    using y by (auto simp: failE_def split: sum.splits option.splits if_splits)
  moreover have "waiters (db u) rid = Some None" by (simp add: r(2) w0_def)
  ultimately show ?thesis
    using end_run errs resolve_loop_sound [of cd v source rid email ?b 1 evs ora u _ u'] r(3)
    by (auto simp: rid_def [symmetric] split: sum.splits option.splits)
qed

definition demo_reply :: ResolvedData where
  "demo_reply = \<lparr>rs_RequestID = ''u'', rs_Email = ''a@b'', rs_MasterID = ''m1''\<rparr>"

lemmas resolve_run_defs = io_defs Resolver_Resolve_def register_def unregister_def publish_lookup_def lookup_publish_def Deliver_def
  InboxHasSeen_def InboxMarkSeen_def seen_def signal_def NewLookupRequestedEnvelope_def NewDomainEnvelope_def
  demo_codec_def demo_timing_def demo_calm_def demo_reply_def Let_def

theorem Resolve_returns_a_reply_witness:
  "\<exists>w'. Resolver_Resolve demo_codec (\<lambda>_. None) ''frontend'' ''a@b'' [RTimeout, RDeliver ''e'' ''t'' '''' demo_reply, RReply] demo_calm demo_timing
        = (Inr (Some ''m1''), w') \<and> waiters (db w') ''u'' = None"
  (is "\<exists>w'. ?R = _ \<and> _")
proof -
  have "case fst ?R of Inl e \<Rightarrow> False | Inr r \<Rightarrow> r = Some ''m1''" by (simp add: resolve_run_defs)
  from Inr_result [OF this] obtain r where R: "?R = (Inr r, snd ?R)" "r = Some ''m1''" by (elim exE conjE)
  have id: "o_uuid demo_calm (tick demo_timing) = ''u''" by (simp add: demo_calm_def)
  from Resolve_returns_a_reply [OF R(1)] have "waiters (db (snd ?R)) ''u'' = None" unfolding R(2) id sum.case option.case by (elim conjE)
  with R show ?thesis by (intro exI [of _ "snd ?R"]) simp
qed

lemma resolve_loop_timeouts:
  assumes "\<And>w. \<exists>u. publish_lookup cd v source rid email ora w = (Inr (Inr ()), u) \<and> db u = db w"
  shows "\<exists>u n'. db u = db w \<and> resolve_loop cd v source rid email True n (replicate k RTimeout @ evs) ora w
      = resolve_loop cd v source rid email True n' evs ora u"
proof (induction k arbitrary: w n)
  case (Suc k)
  define w0 where "w0 = (if n mod 5 = 0 then w\<lparr>trace := trace w @ [Alert ''identity_resolve_stalled'']\<rparr> else w)"
  obtain u where u: "publish_lookup cd v source rid email ora w0 = (Inr (Inr ()), u)" "db u = db w0" using assms by blast
  have "resolve_loop cd v source rid email True n (replicate (Suc k) RTimeout @ evs) ora w
      = resolve_loop cd v source rid email True (n + 1) (replicate k RTimeout @ evs) ora u"
    using u(1) by (cases "n mod 5 = 0") (simp_all add: bindE_def whenE_def emitE_def retE_def w0_def)
  moreover have "db u = db w" using u(2) by (simp add: w0_def)
  ultimately show ?case using Suc.IH [of u "n + 1"] by auto
qed auto

text \<open>C32: the client gets its reply. When the lookup can be encoded and is valid, the broker accepts the
  publishes and the database answers, then after any number of timeouts (each publishing again) the
  first reply for the request under a new envelope id makes \<open>Resolve\<close> return the masterId it
  carries.\<close>

theorem Resolve_gets_its_reply:
  assumes "no_fault ora" and "\<forall>n. o_send ora n"
    and "\<forall>eid now. \<exists>body. Marshal cd (NewLookupRequestedEnvelope eid source (o_uuid ora (tick w)) (o_uuid ora (tick w)) email now) = Some body \<and> v body = None"
    and "\<not> seen (db w) i" and "rs_RequestID res = o_uuid ora (tick w)"
  shows "\<exists>w'. Resolver_Resolve cd v source email (replicate k RTimeout @ RDeliver i ty at res # RReply # evs) ora w
      = (Inr (Some (rs_MasterID res)), w')"
proof -
  define rid where "rid = o_uuid ora (tick w)"
  have pub: "\<exists>u. publish_lookup cd v source rid email ora w1 = (Inr (Inr ()), u) \<and> db u = db w1" for w1
  proof -
    from assms(3) obtain body where
      "Marshal cd (NewLookupRequestedEnvelope (o_uuid ora (Suc (tick w1))) source rid rid email (o_clk ora (tick w1))) = Some body" "v body = None"
      unfolding rid_def by blast
    then show ?thesis using assms(2) by (simp add: publish_lookup_def lookup_publish_def io_defs)
  qed
  define w0 where "w0 = (tock w)\<lparr>db := (db w)\<lparr>waiters := (waiters (db w))(rid := Some None)\<rparr>\<rparr>"
  obtain u where u: "publish_lookup cd v source rid email ora w0 = (Inr (Inr ()), u)" "db u = db w0" using pub by blast
  obtain u1 n' where u1: "db u1 = db u" "resolve_loop cd v source rid email True 1 (replicate k RTimeout @ RDeliver i ty at res # RReply # evs) ora u
      = resolve_loop cd v source rid email True n' (RDeliver i ty at res # RReply # evs) ora u1"
    using resolve_loop_timeouts [OF pub] by blast
  have "\<exists>u2. Deliver i ty at res ora u1 = (Inr False, u2) \<and> waiters (db u2) rid = Some (Some (rs_MasterID res))"
    using assms(1,4,5) u1(1) u(2)
    by (auto simp: Deliver_def io_defs InboxHasSeen_def InboxMarkSeen_def signal_def no_fault_def w0_def rid_def seen_def)
  then obtain u2 where u2: "Deliver i ty at res ora u1 = (Inr False, u2)" "waiters (db u2) rid = Some (Some (rs_MasterID res))" by blast
  have loop: "resolve_loop cd v source rid email True 1 (replicate k RTimeout @ RDeliver i ty at res # RReply # evs) ora u
      = (Inr (Some (rs_MasterID res)), u2)"
    unfolding u1(2) using u2 by (simp add: tryE_def bindE_def memE_def retE_def)
  show ?thesis
    unfolding Resolver_Resolve_def bindE_prims register_def rid_def [symmetric] fst_conv snd_conv tock_simps w0_def [symmetric]
    using u(1) loop by (simp add: tryE_def bindE_def unregister_def memE_def retE_def)
qed

theorem Resolve_gets_its_reply_witness:
  "\<exists>w'. Resolver_Resolve demo_codec (\<lambda>_. None) ''frontend'' ''a@b'' (replicate 7 RTimeout @ RDeliver ''e'' ''t'' '''' demo_reply # RReply # [])
        demo_calm demo_timing = (Inr (Some ''m1''), w')"
proof -
  have "\<exists>w'. Resolver_Resolve demo_codec (\<lambda>_. None) ''frontend'' ''a@b'' (replicate 7 RTimeout @ RDeliver ''e'' ''t'' '''' demo_reply # RReply # [])
        demo_calm demo_timing = (Inr (Some (rs_MasterID demo_reply)), w')"
    by (rule Resolve_gets_its_reply)
      (simp_all add: no_fault_def demo_calm_def demo_codec_def demo_timing_def seen_def demo_reply_def)
  then show ?thesis by (simp add: demo_reply_def)
qed

end
