(* ===== verification/Contract_Validator.thy ===== *)
theory Contract_Validator
  imports Envelopes
begin

text \<open>
  The validator of the contract (libs/go-pitwall/messaging/validate.go): how it finds the /contract
  directory, how it indexes the schemas by the type they are for, and what it accepts. Decoding JSON
  and compiling and checking a schema are third-party code: they are parameters, and a compiled
  schema is the predicate it decides.
\<close>

section \<open>Documents and schemas\<close>

datatype json = JNull | JBool bool | JNumber string | JString string | JArray "json list" | JObject "(string \<times> json) list"

type_synonym schema = "json \<Rightarrow> bool"

record Validator =
  vd_envelope :: schema
  vd_heartbeat :: schema
  vd_data :: "string \<rightharpoonup> schema"

text \<open>The value under a key of a decoded object, nil when there is none; and \<open>.(string)\<close>, the empty string when it is not one.\<close>

definition field :: "(string \<times> json) list \<Rightarrow> string \<Rightarrow> json" where
  "field m key = (case map_of m key of None \<Rightarrow> JNull | Some v \<Rightarrow> v)"

definition as_string :: "json \<Rightarrow> string" where
  "as_string v = (case v of JString s \<Rightarrow> s | _ \<Rightarrow> '''')"

section \<open>Finding the contract\<close>

text \<open>A directory as its components, the innermost first; \<open>[]\<close> is the root, which is its own parent.\<close>

fun walkUp :: "(string list \<Rightarrow> bool) \<Rightarrow> string list \<Rightarrow> error + string list" where
  "walkUp exists dir =
     (if exists (''envelope.schema.json'' # ''schemas'' # ''contract'' # dir) then Inr (''contract'' # dir)
      else (case dir of [] \<Rightarrow> Inl (Invalid ''contract directory'') | d # parent \<Rightarrow> walkUp exists parent))"

text \<open>The path a directory is written as; the explicit directory is returned as it was given.\<close>

definition dir_path :: "string list \<Rightarrow> string" where
  "dir_path dir = concat (map ((#) (CHR ''/'')) (rev dir))"

definition ResolveContractDir :: "(string list \<Rightarrow> bool) \<Rightarrow> error + string list \<Rightarrow> string \<Rightarrow> error + string" where
  "ResolveContractDir exists cwd explicit =
     (if explicit \<noteq> '''' then Inr explicit
      else (case cwd of Inl e \<Rightarrow> Inl e | Inr dir \<Rightarrow>
        (case walkUp exists dir of Inl e \<Rightarrow> Inl e | Inr found \<Rightarrow> Inr (dir_path found))))"

section \<open>Indexing the schemas\<close>

definition HasSuffix :: "string \<Rightarrow> string \<Rightarrow> bool" where
  "HasSuffix s suf \<longleftrightarrow> drop (length s - length suf) s = suf"

definition TrimSuffix :: "string \<Rightarrow> string \<Rightarrow> string" where
  "TrimSuffix s suf = (if HasSuffix s suf then take (length s - length suf) s else s)"

text \<open>Replacing \<open>schemaVersionSuffix\<close> by nothing: a final \<open>.v\<close> and digits.\<close>

definition stripVersion :: "string \<Rightarrow> string" where
  "stripVersion stem =
     (let ds = takeWhile isDigit (rev stem); up = dropWhile isDigit (rev stem)
      in if ds \<noteq> [] \<and> take 2 up = ''v.'' then rev (drop 2 up) else stem)"

text \<open>An entry of the walk: its path, whether it is a directory, its name.\<close>

type_synonym dir_entry = "string \<times> bool \<times> string"

definition schema_file :: "dir_entry \<Rightarrow> bool" where
  "schema_file d \<longleftrightarrow> (case d of (path, isDir, name) \<Rightarrow> \<not> (isDir \<or> \<not> HasSuffix name ''.schema.json'' \<or> name = ''envelope.schema.json''))"

definition wire_type :: "dir_entry \<Rightarrow> string" where
  "wire_type d = stripVersion (TrimSuffix (snd (snd d)) ''.schema.json'')"

fun indexDataSchemas :: "(string \<Rightarrow> error + schema) \<Rightarrow> (error + dir_entry) list \<Rightarrow> (string \<rightharpoonup> schema) \<Rightarrow> error + (string \<rightharpoonup> schema)" where
  "indexDataSchemas compile [] out = Inr out"
| "indexDataSchemas compile (Inl e # es) out = Inl e"
| "indexDataSchemas compile (Inr d # es) out =
     (if \<not> schema_file d then indexDataSchemas compile es out
      else (case compile (fst d) of
        Inl e \<Rightarrow> Inl e
      | Inr s \<Rightarrow> indexDataSchemas compile es (out(wire_type d \<mapsto> s))))"

definition NewValidator :: "(string \<Rightarrow> error + schema) \<Rightarrow> (string \<Rightarrow> (error + dir_entry) list) \<Rightarrow> string \<Rightarrow> error + Validator" where
  "NewValidator compile walk contractDir =
     (case compile (contractDir @ ''/schemas/envelope.schema.json'') of
        Inl e \<Rightarrow> Inl e
      | Inr env \<Rightarrow> (case compile (contractDir @ ''/schemas/control/control.heartbeat.v1.schema.json'') of
        Inl e \<Rightarrow> Inl e
      | Inr hb \<Rightarrow> (case indexDataSchemas compile (walk (contractDir @ ''/schemas'')) Map.empty of
        Inl e \<Rightarrow> Inl e
      | Inr data \<Rightarrow> Inr \<lparr>vd_envelope = env, vd_heartbeat = hb, vd_data = data\<rparr>)))"

section \<open>Validating\<close>

text \<open>\<open>None\<close> is Go's nil error: the message may be published or applied.\<close>

definition ValidateHeartbeat :: "(Envelope \<Rightarrow> json option) \<Rightarrow> Validator \<Rightarrow> Envelope \<Rightarrow> error option" where
  "ValidateHeartbeat toInstance v env =
     (case toInstance env of
        None \<Rightarrow> Some MarshalError
      | Some inst \<Rightarrow>
          if \<not> vd_envelope v inst then Some (Invalid ''envelope'')
          else (case inst of
            JObject m \<Rightarrow> if \<not> vd_heartbeat v (field m ''data'') then Some (Invalid ''data'') else None
          | _ \<Rightarrow> Some (Invalid ''object'')))"

definition ValidateEnvelopeBytes :: "(bytes \<Rightarrow> json option) \<Rightarrow> Validator \<Rightarrow> bytes \<Rightarrow> error option" where
  "ValidateEnvelopeBytes unmarshal v payload =
     (case unmarshal payload of
        None \<Rightarrow> Some (Invalid ''JSON'')
      | Some inst \<Rightarrow>
          if \<not> vd_envelope v inst then Some (Invalid ''envelope'')
          else (case inst of
            JObject m \<Rightarrow>
              (case vd_data v (as_string (field m ''type'')) of
                 None \<Rightarrow> Some (Invalid ''type'')
               | Some ds \<Rightarrow> if \<not> ds (field m ''data'') then Some (Invalid ''data'') else None)
          | _ \<Rightarrow> Some (Invalid ''object'')))"

section \<open>What is accepted\<close>

text \<open>The schema a type is checked against: that of the last file of the walk that names the type.\<close>

fun last_schema :: "(string \<Rightarrow> error + schema) \<Rightarrow> dir_entry list \<Rightarrow> string \<Rightarrow> schema option" where
  "last_schema compile [] typ = None"
| "last_schema compile (d # ds) typ =
     (case last_schema compile ds typ of
        Some s \<Rightarrow> Some s
      | None \<Rightarrow> if schema_file d \<and> wire_type d = typ then (case compile (fst d) of Inr s \<Rightarrow> Some s | Inl e \<Rightarrow> None) else None)"

lemma indexDataSchemas_last:
  assumes "indexDataSchemas compile es out = Inr out'"
  shows "\<exists>ds. es = map Inr ds \<and> (\<forall>typ. out' typ = (case last_schema compile ds typ of Some s \<Rightarrow> Some s | None \<Rightarrow> out typ))"
  using assms
proof (induction compile es out rule: indexDataSchemas.induct)
  case (1 compile out)
  then show ?case by (intro exI [of _ "[]"]) simp
next
  case (3 compile d es out)
  show ?case
  proof (cases "schema_file d")
    case False
    with 3 obtain ds where "es = map Inr ds" "\<forall>typ. out' typ = (case last_schema compile ds typ of Some s \<Rightarrow> Some s | None \<Rightarrow> out typ)" by auto
    then show ?thesis using False by (intro exI [of _ "d # ds"]) (simp split: option.splits)
  next
    case True
    with 3(3) obtain s where s: "compile (fst d) = Inr s" by (auto split: sum.splits)
    from True s 3(3) have "indexDataSchemas compile es (out(wire_type d \<mapsto> s)) = Inr out'" by simp
    with 3(2) [OF _ s] True obtain ds where "es = map Inr ds"
      "\<forall>typ. out' typ = (case last_schema compile ds typ of Some s \<Rightarrow> Some s | None \<Rightarrow> (out(wire_type d \<mapsto> s)) typ)" by blast
    then show ?thesis using True s by (intro exI [of _ "d # ds"]) (auto split: option.splits)
  qed
qed simp

lemma indexDataSchemas_compiles:
  assumes "indexDataSchemas compile (map Inr ds) out = Inr out'"
  shows "\<forall>d \<in> set ds. schema_file d \<longrightarrow> (\<exists>s. compile (fst d) = Inr s)"
  using assms by (induction ds arbitrary: out) (auto split: if_splits sum.splits)

lemma stripVersion_versioned:
  assumes "ds \<noteq> []" "list_all isDigit ds"
  shows "stripVersion (typ @ ''.v'' @ ds) = typ"
proof -
  have n: "\<not> isDigit (CHR ''v'')" by (simp add: isDigit_def)
  have "takeWhile isDigit (xs @ CHR ''v'' # ys) = xs \<and> dropWhile isDigit (xs @ CHR ''v'' # ys) = CHR ''v'' # ys" if "\<forall>c \<in> set xs. isDigit c" for xs ys
    using that n by (induction xs) auto
  from this [of "rev ds" "CHR ''.'' # rev typ"] have "takeWhile isDigit (rev ds @ CHR ''v'' # CHR ''.'' # rev typ) = rev ds"
    "dropWhile isDigit (rev ds @ CHR ''v'' # CHR ''.'' # rev typ) = CHR ''v'' # CHR ''.'' # rev typ"
    using assms(2) by (simp_all add: list_all_iff)
  then show ?thesis using assms(1) by (simp add: stripVersion_def Let_def)
qed

lemma wire_type_versioned:
  assumes "ds \<noteq> []" "list_all isDigit ds"
  shows "wire_type (path, isDir, typ @ ''.v'' @ ds @ ''.schema.json'') = typ"
  using stripVersion_versioned [OF assms] by (simp add: wire_type_def TrimSuffix_def HasSuffix_def)

text \<open>C25: validation fails closed. A message passes exactly when it decodes to an object that the
  envelope schema accepts, its type has a data schema among the files of /contract (a file
  \<open>type.vN.schema.json\<close> is for \<open>type\<close>; of several versions the last of the walk), and its data satisfies
  that schema. Starting up fails when a file cannot be read or compiled, so no schema is missing from
  the index. A heartbeat passes exactly when the envelope and its data satisfy their two schemas.\<close>

theorem validator_fails_closed:
  assumes "NewValidator compile walk dir = Inr v"
  shows "\<exists>env hb ds. compile (dir @ ''/schemas/envelope.schema.json'') = Inr env
    \<and> compile (dir @ ''/schemas/control/control.heartbeat.v1.schema.json'') = Inr hb \<and> walk (dir @ ''/schemas'') = map Inr ds
    \<and> (\<forall>d \<in> set ds. schema_file d \<longrightarrow> (\<exists>s. compile (fst d) = Inr s))
    \<and> (ValidateEnvelopeBytes unmarshal v payload = None \<longleftrightarrow>
         (\<exists>m s. unmarshal payload = Some (JObject m) \<and> env (JObject m)
            \<and> last_schema compile ds (as_string (field m ''type'')) = Some s \<and> s (field m ''data'')))
    \<and> (ValidateHeartbeat toInstance v e = None \<longleftrightarrow>
         (\<exists>m. toInstance e = Some (JObject m) \<and> env (JObject m) \<and> hb (field m ''data'')))"
proof -
  obtain env hb data where c: "compile (dir @ ''/schemas/envelope.schema.json'') = Inr env"
      "compile (dir @ ''/schemas/control/control.heartbeat.v1.schema.json'') = Inr hb"
      "indexDataSchemas compile (walk (dir @ ''/schemas'')) Map.empty = Inr data"
    and v: "v = \<lparr>vd_envelope = env, vd_heartbeat = hb, vd_data = data\<rparr>"
    using assms by (auto simp: NewValidator_def split: sum.splits)
  obtain ds where ds: "walk (dir @ ''/schemas'') = map Inr ds" "\<forall>typ. data typ = last_schema compile ds typ"
    using indexDataSchemas_last [OF c(3)] by (metis option.case_eq_if option.collapse)
  have "ValidateEnvelopeBytes unmarshal v payload = None \<longleftrightarrow> (\<exists>m s. unmarshal payload = Some (JObject m) \<and> env (JObject m)
      \<and> last_schema compile ds (as_string (field m ''type'')) = Some s \<and> s (field m ''data''))"
    unfolding ValidateEnvelopeBytes_def v by (auto simp: ds(2) split: option.splits json.splits if_splits)
  moreover have "ValidateHeartbeat toInstance v e = None \<longleftrightarrow> (\<exists>m. toInstance e = Some (JObject m) \<and> env (JObject m) \<and> hb (field m ''data''))"
    unfolding ValidateHeartbeat_def v by (auto split: option.splits json.splits if_splits)
  moreover have "\<forall>d \<in> set ds. schema_file d \<longrightarrow> (\<exists>s. compile (fst d) = Inr s)"
    using indexDataSchemas_compiles [OF c(3) [unfolded ds(1)]] .
  ultimately show ?thesis using c(1,2) ds(1) by (intro exI [of _ env] exI [of _ hb] exI [of _ ds] conjI)
qed

definition demo_compile :: "string \<Rightarrow> error + schema" where
  "demo_compile path = Inr (\<lambda>j. case j of JNull \<Rightarrow> False | _ \<Rightarrow> True)"

definition demo_unmarshal :: "bytes \<Rightarrow> json option" where
  "demo_unmarshal b = Some (JObject [(''type'', JString b), (''data'', JObject [])])"

definition demo_walk :: "string \<Rightarrow> (error + dir_entry) list" where
  "demo_walk dir = [Inr (dir, True, ''schemas''), Inr (dir @ ''/lap.recorded.v1.schema.json'', False, ''lap.recorded.v1.schema.json'')]"

theorem validator_fails_closed_witness:
  "\<exists>v. NewValidator demo_compile demo_walk ''contract'' = Inr v \<and> ValidateEnvelopeBytes demo_unmarshal v ''lap.recorded'' = None
     \<and> ValidateEnvelopeBytes demo_unmarshal v ''lap.forged'' \<noteq> None"
proof -
  have "\<exists>out. indexDataSchemas demo_compile (demo_walk dir) Map.empty = Inr out" for dir
    by (simp add: demo_walk_def demo_compile_def)
  then obtain v where v: "NewValidator demo_compile demo_walk ''contract'' = Inr v"
    unfolding NewValidator_def by (metis demo_compile_def sum.case(2))
  have w: "demo_walk (''contract'' @ ''/schemas'') = map Inr [(''contract/schemas'', True, ''schemas''),
      (''contract/schemas/lap.recorded.v1.schema.json'', False, ''lap.recorded.v1.schema.json'')]" (is "_ = map Inr ?ds")
    by (simp add: demo_walk_def)
  have "schema_file (?ds ! 1)" "wire_type (?ds ! 1) = ''lap.recorded''" "\<not> schema_file (?ds ! 0)"
    by (simp_all add: schema_file_def wire_type_def TrimSuffix_def HasSuffix_def stripVersion_def isDigit_def)
  then have "last_schema demo_compile ?ds ''lap.recorded'' = Some (\<lambda>j. case j of JNull \<Rightarrow> False | _ \<Rightarrow> True)" "last_schema demo_compile ?ds ''lap.forged'' = None"
    by (simp_all add: demo_compile_def)
  moreover have "ValidateEnvelopeBytes demo_unmarshal v b = None \<longleftrightarrow> (\<exists>s. last_schema demo_compile ?ds b = Some s \<and> s (JObject []))" for b
    using validator_fails_closed [OF v, of demo_unmarshal b "\<lambda>e. None" undefined]
  proof (elim exE conjE)
    fix env hb ds
    assume "demo_compile (''contract'' @ ''/schemas/envelope.schema.json'') = Inr env" "demo_walk (''contract'' @ ''/schemas'') = map Inr ds"
      and i: "ValidateEnvelopeBytes demo_unmarshal v b = None \<longleftrightarrow> (\<exists>m s. demo_unmarshal b = Some (JObject m) \<and> env (JObject m)
        \<and> last_schema demo_compile ds (as_string (field m ''type'')) = Some s \<and> s (field m ''data''))"
    then have "env (JObject m)" "ds = ?ds" for m
      using w inj_mapI [of "Inr :: dir_entry \<Rightarrow> error + dir_entry", THEN injD, of ds ?ds] by (auto simp: demo_compile_def)
    then show ?thesis unfolding i by (simp add: demo_unmarshal_def field_def as_string_def del: last_schema.simps)
  qed
  ultimately show ?thesis using v by (intro exI [of _ v]) (simp del: last_schema.simps)
qed

end
