(* ===== verification/Amqp_Uri.thy ===== *)
theory Amqp_Uri
  imports Service_Config
begin

text \<open>
  The broker address (\<open>Config.AMQPURI\<close> of the three configurations, the same code): the fields go
  through \<open>net/url\<close>, whose \<open>URL.String\<close>, \<open>UserPassword\<close> and \<open>escape\<close> are written out here for the
  parts the code sets. The text that comes out is read back with the syntax of a URI, and gives the
  credentials it was made of whatever bytes they hold.
\<close>

section \<open>Percent encoding\<close>

datatype encoding = encodePath | encodeHost | encodeUserPassword

definition isAlnum :: "char \<Rightarrow> bool" where
  "isAlnum c \<longleftrightarrow> (let n = (of_char c :: nat) in 48 \<le> n \<and> n \<le> 57 \<or> 65 \<le> n \<and> n \<le> 90 \<or> 97 \<le> n \<and> n \<le> 122)"

definition shouldEscape :: "encoding \<Rightarrow> char \<Rightarrow> bool" where
  "shouldEscape mode c =
     (if isAlnum c then False
      else if mode = encodeHost \<and> c \<in> set ''!$&()*+,;=:[]<>'' \<union> {CHR 0x27, CHR 0x22} then False
      else if c \<in> set ''-_.~'' then False
      else if c \<in> set ''$&+,/:;=?@'' then
        (case mode of
           encodePath \<Rightarrow> c = CHR ''?''
         | encodeUserPassword \<Rightarrow> c \<in> set ''@/?:''
         | encodeHost \<Rightarrow> True)
      else True)"

definition upperhex :: "nat \<Rightarrow> char" where
  "upperhex n = ''0123456789ABCDEF'' ! n"

definition escapeByte :: "encoding \<Rightarrow> char \<Rightarrow> string" where
  "escapeByte mode c =
     (if shouldEscape mode c then [CHR ''%'', upperhex (of_char c div 16), upperhex (of_char c mod 16)] else [c])"

definition escape :: "encoding \<Rightarrow> string \<Rightarrow> string" where
  "escape mode s = concat (map (escapeByte mode) s)"

section \<open>The address\<close>

text \<open>\<open>UserPassword\<close> always sets the password, so the colon is there even when it is empty.\<close>

definition UserinfoString :: "string \<Rightarrow> string \<Rightarrow> string" where
  "UserinfoString user password = escape encodeUserPassword user @ '':'' @ escape encodeUserPassword password"

definition EscapedPath :: "string \<Rightarrow> string" where
  "EscapedPath path = (if path = ''*'' then ''*'' else escape encodePath path)"

text \<open>\<open>URL.String\<close> with a scheme, credentials, a non-empty host and a path.\<close>

definition URLString :: "string \<Rightarrow> string \<times> string \<Rightarrow> string \<Rightarrow> string \<Rightarrow> string" where
  "URLString scheme ui host path =
     (let p = EscapedPath path
      in scheme @ ''://'' @ UserinfoString (fst ui) (snd ui) @ ''@'' @ escape encodeHost host
           @ (if p \<noteq> '''' \<and> hd p \<noteq> CHR ''/'' \<and> host \<noteq> '''' then ''/'' else '''') @ p)"

definition AMQPURI :: "'a Config_scheme \<Rightarrow> string" where
  "AMQPURI c = URLString ''amqp'' (RabbitUser c, RabbitPassword c) (RabbitHost c @ '':'' @ RabbitPort c) (RabbitVHost c)"

section \<open>Reading an address\<close>

text \<open>The syntax of a URI: after the scheme the authority runs to the first \<open>/\<close>, \<open>?\<close> or \<open>#\<close>; the credentials
  are what precedes its \<open>@\<close>, and the user what precedes their first \<open>:\<close>.\<close>

definition unhex :: "char \<Rightarrow> nat option" where
  "unhex c = (let n = (of_char c :: nat) in
     if 48 \<le> n \<and> n \<le> 57 then Some (n - 48) else if 65 \<le> n \<and> n \<le> 70 then Some (n - 55)
     else if 97 \<le> n \<and> n \<le> 102 then Some (n - 87) else None)"

fun unescape :: "string \<Rightarrow> string option" where
  "unescape [] = Some []"
| "unescape (c # s) =
     (if c \<noteq> CHR ''%'' then map_option ((#) c) (unescape s)
      else (case s of
              a # b # t \<Rightarrow> (case (unhex a, unhex b) of
                              (Some x, Some y) \<Rightarrow> map_option ((#) (char_of (16 * x + y))) (unescape t)
                            | _ \<Rightarrow> None)
            | _ \<Rightarrow> None))"

definition cut :: "char set \<Rightarrow> string \<Rightarrow> string \<times> string" where
  "cut D s = (takeWhile (\<lambda>c. c \<notin> D) s, dropWhile (\<lambda>c. c \<notin> D) s)"

record address =
  ad_user :: string
  ad_password :: string
  ad_host :: string
  ad_path :: string

definition readURI :: "string \<Rightarrow> string \<Rightarrow> address option" where
  "readURI scheme s =
     (if take (length scheme + 3) s \<noteq> scheme @ ''://'' then None
      else
        let (authority, path) = cut {CHR ''/'', CHR ''?'', CHR ''#''} (drop (length scheme + 3) s);
            (ui, host) = cut {CHR ''@''} authority;
            (user, password) = cut {CHR '':''} ui
        in (case (unescape user, unescape (tl password), unescape path) of
              (Some u, Some pw, Some p) \<Rightarrow> Some \<lparr>ad_user = u, ad_password = pw, ad_host = tl host, ad_path = p\<rparr>
            | _ \<Rightarrow> None))"

section \<open>Round trips\<close>

lemma nibble_range: "of_char c div 16 < (16 :: nat)" "of_char c mod 16 < (16 :: nat)"
  using nat_of_char_less_256 [of c] by (simp_all add: less_mult_imp_div_less)

lemma unhex_upperhex: "n < 16 \<Longrightarrow> unhex (upperhex n) = Some n"
proof -
  assume "n < 16"
  then have "n \<in> set [0..<16]" by simp
  moreover have "list_all (\<lambda>n. unhex (upperhex n) = Some n) [0..<16]" by code_simp
  ultimately show ?thesis by (simp add: list_all_iff)
qed

lemma percent_escaped: "shouldEscape mode (CHR ''%'')"
  by (cases mode) (simp_all add: shouldEscape_def isAlnum_def)

lemma unescape_escapeByte: "unescape (escapeByte mode c @ s) = map_option ((#) c) (unescape s)"
proof (cases "shouldEscape mode c")
  case True
  have "unhex (upperhex (of_char c div 16)) = Some (of_char c div 16)" "unhex (upperhex (of_char c mod 16)) = Some (of_char c mod 16)"
    by (simp_all add: unhex_upperhex nibble_range)
  then show ?thesis using True by (simp add: escapeByte_def)
next
  case False
  then have "c \<noteq> CHR ''%''" using percent_escaped by blast
  then show ?thesis using False by (simp add: escapeByte_def)
qed

lemma unescape_escape: "unescape (escape mode s @ t) = map_option ((@) s) (unescape t)"
  by (induction s) (auto simp: escape_def unescape_escapeByte option.map_comp comp_def option.map_ident)

lemma unescape_escape_id [simp]: "unescape (escape mode s) = Some s"
  using unescape_escape [of mode s "[]"] by simp

lemma upperhex_safe: "n < 16 \<Longrightarrow> isAlnum (upperhex n)"
proof -
  assume "n < 16"
  then have "n \<in> set [0..<16]" by simp
  moreover have "list_all (\<lambda>n. isAlnum (upperhex n)) [0..<16]" by code_simp
  ultimately show ?thesis by (simp add: list_all_iff)
qed

lemma escape_avoids:
  assumes "shouldEscape mode d" "\<not> isAlnum d" "d \<noteq> CHR ''%''"
  shows "d \<notin> set (escape mode s)"
proof -
  have "d \<notin> set (escapeByte mode c)" for c
  proof -
    have "isAlnum (upperhex (of_char c div 16))" "isAlnum (upperhex (of_char c mod 16))" by (simp_all add: upperhex_safe nibble_range)
    then show ?thesis using assms by (auto simp: escapeByte_def)
  qed
  then show ?thesis by (auto simp: escape_def)
qed

lemma delimiters_escaped:
  "CHR ''@'' \<notin> set (escape encodeUserPassword s)" "CHR ''/'' \<notin> set (escape encodeUserPassword s)"
  "CHR ''?'' \<notin> set (escape encodeUserPassword s)" "CHR '':'' \<notin> set (escape encodeUserPassword s)"
  "CHR ''#'' \<notin> set (escape encodeUserPassword s)" "CHR ''@'' \<notin> set (escape encodeHost s)"
  "CHR ''/'' \<notin> set (escape encodeHost s)" "CHR ''?'' \<notin> set (escape encodeHost s)" "CHR ''#'' \<notin> set (escape encodeHost s)"
  by (rule escape_avoids; simp add: shouldEscape_def isAlnum_def)+

lemma cut_append: "set s \<inter> D = {} \<Longrightarrow> t = [] \<or> hd t \<in> D \<Longrightarrow> cut D (s @ t) = (s, t)"
  by (cases t) (auto simp: cut_def takeWhile_append2 dropWhile_append2 disjoint_iff takeWhile_eq_all_conv)

definition rooted :: "string \<Rightarrow> string" where
  "rooted path = (if path \<noteq> '''' \<and> hd path \<noteq> CHR ''/'' then CHR ''/'' # path else path)"

lemma hd_escape:
  assumes "path \<noteq> ''''"
  shows "escape encodePath path \<noteq> ''''" "hd (escape encodePath path) = CHR ''/'' \<longleftrightarrow> hd path = CHR ''/''"
proof -
  obtain c s where path: "path = c # s" using assms by (cases path) auto
  have "escapeByte encodePath c \<noteq> ''''" by (simp add: escapeByte_def)
  moreover have "hd (escapeByte encodePath c) = CHR ''/'' \<longleftrightarrow> c = CHR ''/''"
    by (auto simp: escapeByte_def shouldEscape_def isAlnum_def)
  ultimately show "escape encodePath path \<noteq> ''''" "hd (escape encodePath path) = CHR ''/'' \<longleftrightarrow> hd path = CHR ''/''"
    by (simp_all add: path escape_def)
qed

lemma written_path:
  defines "w path \<equiv> (let p = EscapedPath path in (if p \<noteq> '''' \<and> hd p \<noteq> CHR ''/'' then ''/'' else '''') @ p)"
  shows "unescape (w path) = Some (rooted path) \<and> (w path = '''' \<or> hd (w path) = CHR ''/'')"
proof (cases "path = '''' \<or> path = ''*''")
  case True
  then show ?thesis by (auto simp: w_def EscapedPath_def rooted_def escape_def)
next
  case False
  then show ?thesis using hd_escape [of path] by (simp add: w_def EscapedPath_def rooted_def Let_def)
qed

text \<open>C6: the address a service dials can be read in one way only, and that gives the configured values
  back: the user and the password byte for byte, whatever characters they hold, the host and port as
  configured (percent-encoded where a host may not hold a byte), and the virtual host as the path,
  with a slash in front when it has none. So no credential can change which broker is dialled.\<close>

theorem AMQPURI_roundtrip:
  "readURI ''amqp'' (AMQPURI c) =
     Some \<lparr>ad_user = RabbitUser c, ad_password = RabbitPassword c,
           ad_host = escape encodeHost (RabbitHost c @ '':'' @ RabbitPort c), ad_path = rooted (RabbitVHost c)\<rparr>"
proof -
  let ?u = "escape encodeUserPassword (RabbitUser c)" and ?p = "escape encodeUserPassword (RabbitPassword c)"
  let ?h = "escape encodeHost (RabbitHost c @ '':'' @ RabbitPort c)"
  define w where "w = (let p = EscapedPath (RabbitVHost c) in (if p \<noteq> '''' \<and> hd p \<noteq> CHR ''/'' then ''/'' else '''') @ p)"
  have path: "unescape w = Some (rooted (RabbitVHost c))" "w = '''' \<or> hd w = CHR ''/''"
    using written_path [of "RabbitVHost c"] unfolding w_def by blast+
  let ?authority = "?u @ CHR '':'' # ?p @ CHR ''@'' # ?h"
  have uri: "AMQPURI c = ''amqp'' @ ''://'' @ ?authority @ w"
    by (simp add: AMQPURI_def URLString_def UserinfoString_def w_def Let_def)
  have "cut {CHR ''/'', CHR ''?'', CHR ''#''} (?authority @ w) = (?authority, w)"
    by (rule cut_append) (simp_all add: delimiters_escaped del: disj_not1, use path(2) in blast)
  moreover have "cut {CHR ''@''} ((?u @ CHR '':'' # ?p) @ CHR ''@'' # ?h) = (?u @ CHR '':'' # ?p, CHR ''@'' # ?h)"
    by (rule cut_append) (simp_all add: delimiters_escaped)
  moreover have "cut {CHR '':''} (?u @ CHR '':'' # ?p) = (?u, CHR '':'' # ?p)"
    by (rule cut_append) (simp_all add: delimiters_escaped)
  moreover have "take (length ''amqp'' + 3) (AMQPURI c) = ''amqp'' @ ''://''" "drop (length ''amqp'' + 3) (AMQPURI c) = ?authority @ w"
    by (simp_all add: uri)
  ultimately show ?thesis by (simp only: readURI_def) (simp add: path(1))
qed

end
