(* ===== verification/Service_Process.thy ===== *)
theory Service_Process
  imports Service_Wiring Timing_Consumers Contract_Validator Amqp_Uri
begin

text \<open>
  The life of the three processes (\<open>run\<close> of services/*/cmd/*/main.go): what they open and in which
  order, what each early return gives back, which loops they start, and the shutdown after the
  signal: bounded waits for the loops, one flush of the outbox, then the connections and the
  database. The parts are the definitions of the other theories (the configurations, the validator,
  the links with their topology, the flush); the machine they run on is a parameter. A run returns
  its exit code, the steps it took and the database it left.
\<close>

section \<open>The machine\<close>

datatype link_name = L_pub | L_lookupPub | L_consumerBus | L_prConsumerBus | L_publisher | L_bus

datatype loop_name = Loop_simulator | Loop_resolved | Loop_pr_updated | Loop_heartbeat | Loop_relay | Loop_consumer | Loop_web

datatype step =
    DBOpened | DBClosed
  | Dialled link_name | Closed link_name     \<comment> \<open>a successful dial, a call of \<open>Close\<close>\<close>
  | Supervised link_name                     \<comment> \<open>\<open>ConnectAndServe\<close> or \<open>ConnectAndConsume\<close> returned without error\<close>
  | Started loop_name
  | Signalled                                \<comment> \<open>\<open>ctx.Done()\<close>: SIGTERM or SIGINT\<close>
  | Waited loop_name bool                    \<comment> \<open>\<open>waitFor\<close>, and whether the loop was seen to stop\<close>
  | Flushed int int                          \<comment> \<open>the two numbers \<open>flushOutbox\<close> logs\<close>

text \<open>
  What the process meets: its environment variables, the file system and the schemas, the database
  driver (an error per call, given the nanoseconds of the context's timeout), the broker behind each
  link, what \<open>Close\<close> answers, and when each loop stops after the signal (\<open>None\<close>: never). \<open>m_race\<close> is
  the choice of a \<open>select\<close> whose two cases are ready at once.
\<close>

record machine =
  m_getenv :: getenv
  m_stat :: "string list \<Rightarrow> bool"
  m_cwd :: "error + string list"
  m_compile :: "string \<Rightarrow> error + schema"
  m_walk :: "string \<Rightarrow> (error + dir_entry) list"
  m_unmarshal :: "bytes \<Rightarrow> json option"
  m_sqlOpen :: "string \<Rightarrow> error option"
  m_ping :: "int \<Rightarrow> error option"
  m_goose :: "int \<Rightarrow> error option"
  m_broker :: "link_name \<Rightarrow> broker"
  m_close :: "link_name \<Rightarrow> error option"
  m_stops :: "loop_name \<Rightarrow> int option"
  m_race :: "loop_name \<Rightarrow> bool"
  m_io :: env_oracle

type_synonym 'w outcome = "int \<times> step list \<times> 'w"

definition following :: "step list \<Rightarrow> 'w outcome \<Rightarrow> 'w outcome" where
  "following tr r = (case r of (rc, tr', w) \<Rightarrow> (rc, tr @ tr', w))"

section \<open>Opening the database and the contract\<close>

definition dsnFor :: "string \<Rightarrow> string" where
  "dsnFor dbPath = ''file:'' @ dbPath @
     ''?_pragma=busy_timeout%285000%29&_pragma=journal_mode%28WAL%29&_pragma=foreign_keys%28on%29''"

definition gopdb_Open :: "machine \<Rightarrow> int \<Rightarrow> string \<Rightarrow> (error + unit) \<times> step list" where
  "gopdb_Open m ctx dbPath =
     (case m_sqlOpen m (dsnFor dbPath) of
        Some err \<Rightarrow> (Inl err, [])
      | None \<Rightarrow> (case m_ping m ctx of
                   Some err \<Rightarrow> (Inl err, [DBOpened, DBClosed])
                 | None \<Rightarrow> (Inr (), [DBOpened])))"

text \<open>The three services have the same \<open>persistence.Open\<close>, each over its own migrations.\<close>

definition persistence_Open :: "machine \<Rightarrow> int \<Rightarrow> string \<Rightarrow> (error + unit) \<times> step list" where
  "persistence_Open m ctx dbPath =
     (case gopdb_Open m ctx dbPath of
        (Inl err, tr) \<Rightarrow> (Inl err, tr)
      | (Inr _, tr) \<Rightarrow> (case m_goose m ctx of
                          Some err \<Rightarrow> (Inl err, tr @ [DBClosed])
                        | None \<Rightarrow> (Inr (), tr)))"

definition shutdownTimeout :: "'a Config_scheme \<Rightarrow> int" where
  "shutdownTimeout cfg = wrap64 (ShutdownTimeout cfg * 1000000)"

text \<open>What the three \<open>run\<close>s begin with, up to the deferred close of the database; \<open>body\<close> is the rest.\<close>

definition with_database ::
  "machine \<Rightarrow> 'a Config_scheme \<Rightarrow> (Validator \<Rightarrow> 'w \<Rightarrow> 'w outcome) \<Rightarrow> 'w \<Rightarrow> 'w outcome" where
  "with_database m cfg body w =
     (case ResolveContractDir (m_stat m) (m_cwd m) (ContractDir cfg) of
        Inl e \<Rightarrow> (1, [], w)
      | Inr contractDir \<Rightarrow> (case NewValidator (m_compile m) (m_walk m) contractDir of
        Inl e \<Rightarrow> (1, [], w)
      | Inr validator \<Rightarrow> (case persistence_Open m (shutdownTimeout cfg) (DBPath cfg) of
        (Inl e, tr) \<Rightarrow> (1, tr, w)
      | (Inr _, tr) \<Rightarrow> (case body validator w of (rc, tr', w') \<Rightarrow> (rc, tr @ tr' @ [DBClosed], w')))))"

section \<open>The shutdown\<close>

text \<open>\<open>waitFor\<close> at the moment \<open>now\<close> (nanoseconds after the signal): it returns when the loop has stopped or the
  deadline has passed, whichever is first.\<close>

definition waitFor :: "machine \<Rightarrow> int \<Rightarrow> int \<Rightarrow> loop_name \<Rightarrow> bool \<times> int" where
  "waitFor m deadline now l =
     (let expires = max now deadline
      in case m_stops m l of
           None \<Rightarrow> (False, expires)
         | Some t \<Rightarrow> let stops = max now t
                     in (if stops < expires then True else if expires < stops then False else m_race m l, min stops expires))"

fun waitAll :: "machine \<Rightarrow> int \<Rightarrow> int \<Rightarrow> loop_name list \<Rightarrow> step list \<times> int" where
  "waitAll m deadline now [] = ([], now)"
| "waitAll m deadline now (l # ls) =
     (let (stopped, now1) = waitFor m deadline now l;
          (tr, now2) = waitAll m deadline now1 ls
      in (Waited l stopped # tr, now2))"

text \<open>Every call under a context that is done returns its error.\<close>

definition underCtx :: "int \<Rightarrow> int \<Rightarrow> env_oracle \<Rightarrow> env_oracle" where
  "underCtx deadline now ora = (if deadline \<le> now then ora\<lparr>o_fault := \<lambda>_. True, o_send := \<lambda>_. False\<rparr> else ora)"

definition outboxRelay :: "machine \<Rightarrow> Validator \<Rightarrow> int \<Rightarrow> RelayConfig" where
  "outboxRelay m validator pollInterval =
     NewRelay \<lparr>rc_Validate = ValidateEnvelopeBytes (m_unmarshal m) validator, rc_Interval = wrap64 (pollInterval * 1000000), rc_Batch = 0\<rparr>"

definition flushOutbox :: "RelayConfig \<Rightarrow> env_oracle \<Rightarrow> ('d core_db_scheme) world \<Rightarrow> step list \<times> ('d core_db_scheme) world" where
  "flushOutbox r ora w =
     (case Flush r ora w of
        (Inr (sent, remaining), w') \<Rightarrow> ([Flushed sent remaining], w')
      | (Inl e, w') \<Rightarrow> ([], w'))"

section \<open>services/timing\<close>

definition timing_loops :: "bool \<Rightarrow> loop_name list" where
  "timing_loops sim = (if sim then [Loop_simulator, Loop_resolved, Loop_pr_updated] else []) @ [Loop_heartbeat, Loop_relay]"

definition timing_shutdown :: "machine \<Rightarrow> TimingConfig \<Rightarrow> Validator \<Rightarrow> bool \<Rightarrow> timing_db world \<Rightarrow> (timing_db world) outcome" where
  "timing_shutdown m cfg validator sim w =
     (let (waits, now) = waitAll m (shutdownTimeout cfg) 0 (timing_loops sim);
          (flush, w') = flushOutbox (outboxRelay m validator (tc_OutboxPollInterval cfg)) (underCtx (shutdownTimeout cfg) now (m_io m)) w
      in (if m_close m L_pub = None then 0 else 1,
          [Signalled] @ waits @ flush @ (if sim then [Closed L_consumerBus, Closed L_prConsumerBus, Closed L_lookupPub] else []) @ [Closed L_pub],
          w'))"

text \<open>\<open>served\<close> is what the loops, modelled in the other theories, have made of the database when the flush begins.
  From the running supervisor of \<open>pub\<close> to the end: the register-first links when the simulator is
  on, then the loops, then the signal.\<close>

definition timing_register_first ::
  "machine \<Rightarrow> TimingConfig \<Rightarrow> Publisher \<times> Bus \<times> Bus \<Rightarrow> 'w \<Rightarrow> ('w \<Rightarrow> 'w outcome) \<Rightarrow> 'w outcome" where
  "timing_register_first m cfg links w rest =
     (case links of (lookupPub, consumerBus, prConsumerBus) \<Rightarrow>
      (case ConnectAndServe True lookupPub of
         Inl e \<Rightarrow> (1, [Closed L_pub, Closed L_lookupPub, Closed L_consumerBus], w)
       | Inr _ \<Rightarrow> following [Supervised L_lookupPub]
      (case ConnectAndConsume (m_broker m L_consumerBus) (consumerOpts (ConsumePrefetch cfg)) True consumerBus of
         Inl e \<Rightarrow> (1, [Closed L_pub, Closed L_lookupPub, Closed L_consumerBus], w)
       | Inr _ \<Rightarrow> following [Supervised L_consumerBus, Started Loop_resolved]
      (case ConnectAndConsume (m_broker m L_prConsumerBus) (prConsumerOpts (ConsumePrefetch cfg)) True prConsumerBus of
         Inl e \<Rightarrow> (1, [Closed L_pub, Closed L_lookupPub, Closed L_consumerBus, Closed L_prConsumerBus], w)
       | Inr _ \<Rightarrow> following [Supervised L_prConsumerBus, Started Loop_pr_updated] (rest w)))))"

definition timing_serve ::
  "machine \<Rightarrow> (timing_db world \<Rightarrow> timing_db world) \<Rightarrow> TimingConfig \<Rightarrow> Validator \<Rightarrow> Publisher \<Rightarrow> (Publisher \<times> Bus \<times> Bus) option \<Rightarrow> timing_db world \<Rightarrow> (timing_db world) outcome" where
  "timing_serve m served cfg validator pub sim w =
     (case ConnectAndServe True pub of
        Inl e \<Rightarrow> (1, [Closed L_pub], w)
      | Inr _ \<Rightarrow> following [Supervised L_pub]
          (case sim of
             None \<Rightarrow> following [Started Loop_heartbeat, Started Loop_relay] (timing_shutdown m cfg validator False (served w))
           | Some links \<Rightarrow> timing_register_first m cfg links w (\<lambda>w.
               following [Started Loop_heartbeat, Started Loop_relay, Started Loop_simulator] (timing_shutdown m cfg validator True (served w)))))"

definition timing_dial_simulator :: "machine \<Rightarrow> TimingConfig \<Rightarrow> (Publisher \<times> Bus \<times> Bus \<Rightarrow> 'w \<Rightarrow> 'w outcome) \<Rightarrow> 'w \<Rightarrow> 'w outcome" where
  "timing_dial_simulator m cfg rest w =
     (case DialPublisher (m_broker m L_lookupPub) (AMQPURI cfg) FrontendEventsExchange [] of
        (Inl e, _) \<Rightarrow> (1, [], w)
      | (Inr _, lookupPub) \<Rightarrow> following [Dialled L_lookupPub]
     (case DialConsumerBus (m_broker m L_consumerBus) (AMQPURI cfg) TimingExchange [] of
        (Inl e, _) \<Rightarrow> (1, [Closed L_lookupPub], w)
      | (Inr _, consumerBus) \<Rightarrow> following [Dialled L_consumerBus]
     (case DialConsumerBus (m_broker m L_prConsumerBus) (AMQPURI cfg) TimingExchange [] of
        (Inl e, _) \<Rightarrow> (1, [Closed L_lookupPub, Closed L_consumerBus], w)
      | (Inr _, prConsumerBus) \<Rightarrow> following [Dialled L_prConsumerBus] (rest (lookupPub, consumerBus, prConsumerBus) w))))"

definition timing_main :: "machine \<Rightarrow> (timing_db world \<Rightarrow> timing_db world) \<Rightarrow> TimingConfig \<Rightarrow> Validator \<Rightarrow> timing_db world \<Rightarrow> (timing_db world) outcome" where
  "timing_main m served cfg validator w =
     (case DialPublisher (m_broker m L_pub) (AMQPURI cfg) TimingExchange [] of
        (Inl e, _) \<Rightarrow> (1, [], w)
      | (Inr _, pub) \<Rightarrow> following [Dialled L_pub]
          (if SimulatorEnabled cfg
           then timing_dial_simulator m cfg (\<lambda>links. timing_serve m served cfg validator pub (Some links)) w
           else timing_serve m served cfg validator pub None w))"

definition timing_run :: "machine \<Rightarrow> (timing_db world \<Rightarrow> timing_db world) \<Rightarrow> timing_db world \<Rightarrow> (timing_db world) outcome" where
  "timing_run m served w =
     (case timing_Load (m_getenv m) of
        Inl e \<Rightarrow> (1, [], w)
      | Inr cfg \<Rightarrow> with_database m cfg (timing_main m served cfg) w)"

section \<open>services/identity\<close>

definition identity_shutdown :: "machine \<Rightarrow> IdentityConfig \<Rightarrow> Validator \<Rightarrow> identity_db world \<Rightarrow> (identity_db world) outcome" where
  "identity_shutdown m cfg validator w =
     (let (waits, now) = waitAll m (shutdownTimeout cfg) 0 [Loop_consumer, Loop_heartbeat, Loop_relay];
          (flush, w') = flushOutbox (outboxRelay m validator (ic_OutboxPollInterval cfg)) (underCtx (shutdownTimeout cfg) now (m_io m)) w
      in (if m_close m L_consumerBus = None \<and> m_close m L_publisher = None then 0 else 1,
          [Signalled] @ waits @ flush @ [Closed L_consumerBus, Closed L_publisher], w'))"

definition identity_main :: "machine \<Rightarrow> (identity_db world \<Rightarrow> identity_db world) \<Rightarrow> IdentityConfig \<Rightarrow> Validator \<Rightarrow> identity_db world \<Rightarrow> (identity_db world) outcome" where
  "identity_main m served cfg validator w =
     (case DialConsumerBus (m_broker m L_consumerBus) (AMQPURI cfg) IdentityExchange [] of
        (Inl e, _) \<Rightarrow> (1, [], w)
      | (Inr _, consumerBus) \<Rightarrow> following [Dialled L_consumerBus]
     (case DialPublisher (m_broker m L_publisher) (AMQPURI cfg) IdentityExchange [] of
        (Inl e, _) \<Rightarrow> (1, [Closed L_consumerBus], w)
      | (Inr _, publisher) \<Rightarrow> following [Dialled L_publisher]
     (case ConnectAndServe True publisher of
        Inl e \<Rightarrow> (1, [Closed L_consumerBus, Closed L_publisher], w)
      | Inr _ \<Rightarrow> following [Supervised L_publisher]
     (case ConnectAndConsume (m_broker m L_consumerBus) (identity_consumerOpts cfg) True consumerBus of
        Inl e \<Rightarrow> (1, [Closed L_consumerBus, Closed L_publisher], w)
      | Inr _ \<Rightarrow> following [Supervised L_consumerBus, Started Loop_heartbeat, Started Loop_relay, Started Loop_consumer]
          (identity_shutdown m cfg validator (served w))))))"

definition identity_run :: "machine \<Rightarrow> (identity_db world \<Rightarrow> identity_db world) \<Rightarrow> identity_db world \<Rightarrow> (identity_db world) outcome" where
  "identity_run m served w =
     (case identity_Load (m_getenv m) of
        Inl e \<Rightarrow> (1, [], w)
      | Inr cfg \<Rightarrow> with_database m cfg (identity_main m served cfg) w)"

section \<open>services/leaderboard\<close>

definition leaderboard_shutdown :: "machine \<Rightarrow> LeaderboardConfig \<Rightarrow> 'w \<Rightarrow> 'w outcome" where
  "leaderboard_shutdown m cfg w =
     (if m_close m L_bus = None then 0 else 1,
      [Signalled] @ fst (waitAll m (shutdownTimeout cfg) 0 [Loop_consumer, Loop_heartbeat, Loop_web]) @ [Closed L_bus], w)"

definition leaderboard_main :: "machine \<Rightarrow> (int \<Rightarrow> leaderboard_db world \<Rightarrow> leaderboard_db world) \<Rightarrow> LeaderboardConfig \<Rightarrow> Validator \<Rightarrow> leaderboard_db world \<Rightarrow> (leaderboard_db world) outcome" where
  "leaderboard_main m served cfg validator w =
     (case MaxSeq (m_io m) w of
        (Inl e, w) \<Rightarrow> (1, [], w)
      | (Inr startSeq, w) \<Rightarrow>
     (case DialConsumerBus (m_broker m L_bus) (AMQPURI cfg) LeaderboardExchange [] of
        (Inl e, _) \<Rightarrow> (1, [], w)
      | (Inr _, bus) \<Rightarrow> following [Dialled L_bus]
     (case ConnectAndConsume (m_broker m L_bus) (leaderboard_consumerOpts cfg) True bus of
        Inl e \<Rightarrow> (1, [Closed L_bus], w)
      | Inr _ \<Rightarrow> following [Supervised L_bus, Started Loop_heartbeat, Started Loop_consumer, Started Loop_web]
          (leaderboard_shutdown m cfg (served startSeq w)))))"

definition leaderboard_run :: "machine \<Rightarrow> (int \<Rightarrow> leaderboard_db world \<Rightarrow> leaderboard_db world) \<Rightarrow> leaderboard_db world \<Rightarrow> (leaderboard_db world) outcome" where
  "leaderboard_run m served w =
     (case leaderboard_Load (m_getenv m) of
        Inl e \<Rightarrow> (1, [], w)
      | Inr cfg \<Rightarrow> with_database m cfg (leaderboard_main m served cfg) w)"

section \<open>Reading a run\<close>

definition dialled :: "step list \<Rightarrow> link_name list" where
  "dialled tr = concat (map (\<lambda>s. case s of Dialled l \<Rightarrow> [l] | _ \<Rightarrow> []) tr)"

definition supervised :: "step list \<Rightarrow> link_name list" where
  "supervised tr = concat (map (\<lambda>s. case s of Supervised l \<Rightarrow> [l] | _ \<Rightarrow> []) tr)"

definition closed :: "step list \<Rightarrow> link_name list" where
  "closed tr = concat (map (\<lambda>s. case s of Closed l \<Rightarrow> [l] | _ \<Rightarrow> []) tr)"

definition started :: "step list \<Rightarrow> loop_name list" where
  "started tr = concat (map (\<lambda>s. case s of Started l \<Rightarrow> [l] | _ \<Rightarrow> []) tr)"

definition waited :: "step list \<Rightarrow> loop_name list" where
  "waited tr = concat (map (\<lambda>s. case s of Waited l b \<Rightarrow> [l] | _ \<Rightarrow> []) tr)"

fun phase :: "step \<Rightarrow> nat" where
  "phase DBOpened = 0"
| "phase (Dialled l) = 1"
| "phase (Supervised l) = 2"
| "phase (Started l) = 2"
| "phase Signalled = 3"
| "phase (Waited l b) = 4"
| "phase (Flushed n r) = 5"
| "phase (Closed l) = 6"
| "phase DBClosed = 7"

text \<open>A loop may start when the connections it uses are supervised: those it publishes on or consumes from, and for
  the simulator the whole register-first chain.\<close>

fun can_start :: "link_name list \<Rightarrow> loop_name \<Rightarrow> bool" where
  "can_start up Loop_simulator = ({L_pub, L_lookupPub, L_consumerBus} \<subseteq> set up)"
| "can_start up Loop_resolved = (L_consumerBus \<in> set up)"
| "can_start up Loop_pr_updated = (L_prConsumerBus \<in> set up)"
| "can_start up Loop_relay = (L_pub \<in> set up \<or> L_publisher \<in> set up)"
| "can_start up Loop_heartbeat = (L_pub \<in> set up \<or> L_consumerBus \<in> set up \<or> L_bus \<in> set up)"
| "can_start up Loop_consumer = (L_consumerBus \<in> set up \<or> L_bus \<in> set up)"
| "can_start up Loop_web = True"

fun links_first :: "link_name list \<Rightarrow> step list \<Rightarrow> bool" where
  "links_first up [] = True"
| "links_first up (s # tr) =
     (case s of
        Supervised l \<Rightarrow> links_first (l # up) tr
      | Started l \<Rightarrow> can_start up l \<and> links_first up tr
      | _ \<Rightarrow> links_first up tr)"

text \<open>
  What a run must look like: the phases never go back (the database first, then the connections, then
  the loops; after the signal the waits, the flush, the closes, and the database last), nothing is
  closed twice or without having been opened, no loop starts before its connections, and a run that reached the signal has waited for every
  loop it started and closed every connection it dialled, all of them supervised before.
\<close>

definition orderly :: "'w outcome \<Rightarrow> bool" where
  "orderly r = (case r of (rc, tr, w) \<Rightarrow>
     rc \<in> {0, 1} \<and> sorted (map phase tr) \<and> distinct (dialled tr) \<and> distinct (closed tr) \<and> distinct (waited tr)
     \<and> set (closed tr) \<subseteq> set (dialled tr) \<and> links_first [] tr
     \<and> filter (\<lambda>s. phase s \<in> {0, 7}) tr \<in> {[], [DBOpened, DBClosed]}
     \<and> (rc = 0 \<longrightarrow> Signalled \<in> set tr)
     \<and> (Signalled \<in> set tr \<longrightarrow> set (closed tr) = set (dialled tr) \<and> set (supervised tr) = set (dialled tr)
          \<and> set (waited tr) = set (started tr)))"

lemmas reading_defs = dialled_def supervised_def closed_def started_def waited_def

section \<open>The waits\<close>

lemma waitFor_bound: "waitFor m deadline now l = (b, t) \<Longrightarrow> now \<le> t \<and> t \<le> max now deadline"
  by (auto simp: waitFor_def Let_def split: option.splits)

lemma waitAll_bound: "waitAll m deadline now ls = (tr, t) \<Longrightarrow> now \<le> t \<and> t \<le> max now deadline"
proof (induction ls arbitrary: now tr)
  case (Cons l ls)
  then show ?case using waitFor_bound [of m deadline now l] by (fastforce simp: Let_def split: prod.splits)
qed simp

definition only_waits :: "loop_name list \<Rightarrow> step list \<Rightarrow> bool" where
  "only_waits ls tr \<longleftrightarrow> waited tr = ls \<and> dialled tr = [] \<and> supervised tr = [] \<and> closed tr = [] \<and> started tr = []
     \<and> (\<forall>s\<in>set tr. phase s = 4)"

lemma waitAll_reads: "only_waits ls (fst (waitAll m deadline now ls))"
  by (induction ls arbitrary: now) (simp_all add: only_waits_def reading_defs split_def Let_def)

lemma waitFor_stopped: "m_stops m l = Some t \<Longrightarrow> t < deadline \<Longrightarrow> now < deadline \<Longrightarrow> waitFor m deadline now l = (True, max now t)"
  by (simp add: waitFor_def Let_def)

lemma waitAll_stopped:
  assumes "\<forall>l\<in>set ls. \<exists>t. m_stops m l = Some t \<and> t < deadline" "now < deadline"
  shows "\<exists>t. waitAll m deadline now ls = (map (\<lambda>l. Waited l True) ls, t) \<and> t < deadline"
  using assms
proof (induction ls arbitrary: now)
  case (Cons l ls)
  then obtain t where "m_stops m l = Some t" "t < deadline" by auto
  then show ?case using Cons.IH [of "max now t"] Cons.prems by (auto simp: waitFor_stopped)
qed simp

lemma waitAll_expired:
  assumes "waitAll m deadline now ls = (tr, t)" "l \<in> set ls" "m_stops m l = None"
  shows "deadline \<le> t"
  using assms
proof (induction ls arbitrary: now tr)
  case (Cons k ls)
  obtain b u where u: "waitFor m deadline now k = (b, u)" by fastforce
  obtain tr' where rest: "waitAll m deadline u ls = (tr', t)" using Cons.prems(1) u by (auto split: prod.splits)
  show ?case
  proof (cases "k = l")
    case True
    then have "deadline \<le> u" using u Cons.prems(3) by (auto simp: waitFor_def)
    then show ?thesis using waitAll_bound [OF rest] by simp
  next
    case False
    then show ?thesis using Cons.IH [OF rest] Cons.prems by simp
  qed
qed simp

section \<open>The flush\<close>

lemma Flush_total: "\<exists>n k w'. Flush r ora w = (Inr (n, k), w')"
proof -
  obtain n err u where "DrainOnce r ora w = (Inr (n, err), u)" using DrainOnce_total by blast
  then show ?thesis by (simp add: Flush_def bindE_def tryE_def retE_def split: sum.splits prod.splits)
qed

lemma Flush_database: "db (snd (Flush r ora w)) = db (snd (DrainOnce r ora w)) \<and> trace (snd (Flush r ora w)) = trace (snd (DrainOnce r ora w))"
proof -
  obtain n err u where "DrainOnce r ora w = (Inr (n, err), u)" using DrainOnce_total by blast
  then show ?thesis by (simp add: Flush_def bindE_def tryE_def retE_def FetchPending_run split: sum.splits prod.splits)
qed

lemma flushOutbox_step: "\<exists>n k. fst (flushOutbox r ora w) = [Flushed n k]"
  using Flush_total [of r ora w] by (auto simp: flushOutbox_def)

lemma flushOutbox_world: "snd (flushOutbox r ora w) = snd (Flush r ora w)"
  using Flush_total [of r ora w] by (auto simp: flushOutbox_def)

lemma flushOutbox_rows:
  assumes "outbox_ok (db w)"
  shows "\<exists>tr. trace (snd (flushOutbox r ora w)) = trace w @ tr
    \<and> list_all2 (row_next (rc_Validate r) tr) (outbox (db w)) (outbox (db (snd (flushOutbox r ora w))))"
  using DrainOnce_rows [OF assms prod.collapse [symmetric], of r ora] by (auto simp: flushOutbox_world Flush_database)

lemma flushOutbox_calm:
  assumes "calm ora" "outbox_ok (db w)"
  shows "pending (outbox (db (snd (flushOutbox r ora w)))) = drop (nat (rc_Batch r)) (pending (outbox (db w)))"
  using DrainOnce_calm [OF assms, of r] by (auto simp: flushOutbox_world Flush_database)

lemma flushOutbox_expired:
  assumes "deadline \<le> now"
  shows "fst (flushOutbox r (underCtx deadline now ora) w) = [Flushed 0 0] \<and> db (snd (flushOutbox r (underCtx deadline now ora) w)) = db w"
  using assms by (simp add: flushOutbox_def Flush_def DrainOnce_def underCtx_def FetchPending_run bindE_def tryE_def retE_def)

section \<open>The connections\<close>

lemma Bus_establish_closed: "Bus_establish br b = (Inr n, b') \<Longrightarrow> link_closed b' \<noteq> None"
  by (auto simp: Bus_establish_def Let_def split: prod.splits sum.splits)

lemma Publisher_establish_closed: "Publisher_establish br b = (Inr n, b') \<Longrightarrow> link_closed b' \<noteq> None"
  by (auto simp: Publisher_establish_def Let_def split: prod.splits sum.splits)

text \<open>After a successful dial \<open>ConnectAndServe\<close> has no error to return: those branches of the mains never run.\<close>

lemma dialled_publisher_serves: "DialPublisher br uri ex calls = (Inr u, p) \<Longrightarrow> \<exists>s. ConnectAndServe True p = Inr s"
  using Publisher_establish_closed by (auto simp: DialPublisher_def ConnectAndServe_def split: prod.splits sum.splits)

section \<open>Every run is orderly\<close>

text \<open>The steps of a run without the database's own.\<close>

definition inner :: "'w outcome \<Rightarrow> bool" where
  "inner r = (case r of (rc, tr, w) \<Rightarrow> orderly r \<and> (\<forall>s\<in>set tr. 0 < phase s \<and> phase s < 7))"

lemma sorted_phases: "(\<forall>s\<in>set tr. phase s = n) \<Longrightarrow> sorted (map phase tr)"
  by (induction tr) auto

lemma links_first_quiet: "(\<forall>s\<in>set tr. phase s \<noteq> 2) \<Longrightarrow> links_first up tr"
  by (induction tr arbitrary: up) (auto split: step.splits)

lemma links_first_append: "links_first up (a @ b) \<longleftrightarrow> links_first up a \<and> links_first (rev (supervised a) @ up) b"
  by (induction a arbitrary: up) (auto simp: supervised_def split: step.splits)

lemma orderly_with_database:
  assumes "\<And>v. inner (body v w)"
  shows "orderly (with_database m cfg body w)"
proof -
  have "orderly (rc, [DBOpened] @ tr @ [DBClosed], w')" if "body v w = (rc, tr, w')" for v rc tr w'
  proof -
    have "orderly (rc, tr, w')" "\<forall>s\<in>set tr. 0 < phase s \<and> phase s < 7" using assms [of v] that by (simp_all add: inner_def)
    moreover from this(2) have "filter (\<lambda>s. phase s \<in> {0, 7}) tr = []" by (auto simp: filter_empty_conv)
    ultimately show ?thesis by (auto simp: orderly_def reading_defs sorted_append order_less_imp_le links_first_append)
  qed
  then show ?thesis
    by (auto simp: with_database_def persistence_Open_def gopdb_Open_def split: sum.splits option.splits prod.splits)
      (auto simp: orderly_def reading_defs)
qed

text \<open>Reading is compositional, and a part that only waits is read off its loops.\<close>

lemma reading_append:
  "dialled (a @ b) = dialled a @ dialled b" "supervised (a @ b) = supervised a @ supervised b" "closed (a @ b) = closed a @ closed b"
  "started (a @ b) = started a @ started b" "waited (a @ b) = waited a @ waited b"
  by (simp_all add: reading_defs)

lemma reading_Cons:
  "dialled (s # b) = (case s of Dialled l \<Rightarrow> [l] | _ \<Rightarrow> []) @ dialled b"
  "supervised (s # b) = (case s of Supervised l \<Rightarrow> [l] | _ \<Rightarrow> []) @ supervised b"
  "closed (s # b) = (case s of Closed l \<Rightarrow> [l] | _ \<Rightarrow> []) @ closed b"
  "started (s # b) = (case s of Started l \<Rightarrow> [l] | _ \<Rightarrow> []) @ started b"
  "waited (s # b) = (case s of Waited l b \<Rightarrow> [l] | _ \<Rightarrow> []) @ waited b"
  "dialled [] = []" "supervised [] = []" "closed [] = []" "started [] = []" "waited [] = []"
  by (simp_all add: reading_defs)

lemmas reading = reading_append reading_Cons

lemma inner_signalled:
  assumes "only_waits ls wt" "distinct ls" "set ls = set (started boot)" "rc \<in> {0, 1}"
    and boot: "sorted (map phase boot)" "\<forall>s\<in>set boot. 0 < phase s \<and> phase s < 3" "distinct (dialled boot)" "set (supervised boot) = set (dialled boot)" "links_first [] boot"
    and flush: "flush = [] \<or> (\<exists>n k. flush = [Flushed n k])"
    and closes: "distinct closes" "set closes = set (dialled boot)"
  shows "inner (rc, boot @ [Signalled] @ wt @ flush @ map Closed closes, w)"
proof -
  have wt: "waited wt = ls" "dialled wt = []" "supervised wt = []" "closed wt = []" "started wt = []" "\<forall>s\<in>set wt. phase s = 4"
    using assms(1) by (simp_all add: only_waits_def)
  have boots: "waited boot = []" "closed boot = []" if "\<forall>s\<in>set boot. 0 < phase s \<and> phase s < 3"
    using that by (induction boot) (auto simp: reading split: step.splits)
  have cl: "closed (map Closed closes) = closes" "dialled (map Closed closes) = []" "supervised (map Closed closes) = []"
    "started (map Closed closes) = []" "waited (map Closed closes) = []" for closes
    by (induction closes) (simp_all add: reading)
  have ph: "\<forall>s\<in>set boot. phase s < 3 \<and> phase s \<noteq> 0" using boot(2) by auto
  have noDB: "filter (\<lambda>s. phase s \<in> {0, 7}) (boot @ [Signalled] @ wt @ flush @ map Closed closes) = []"
    using ph wt(6) flush by (auto simp: filter_empty_conv)
  have "sorted (map phase wt)" using wt(6) by (rule sorted_phases)
  moreover have "sorted (map phase (map Closed closes))" by (rule sorted_phases [of _ 6]) auto
  ultimately have "sorted (map phase (boot @ [Signalled] @ wt @ flush @ map Closed closes))"
    using boot(1) ph wt(6) flush by (auto simp: sorted_append sorted_wrt_append)
  moreover have "links_first [] (boot @ [Signalled] @ wt @ flush @ map Closed closes)"
    using boot(5) wt(6) flush unfolding links_first_append by (auto intro!: links_first_quiet)
  ultimately show ?thesis using assms(2-4) boot(3,4) closes flush wt ph noDB boots [OF boot(2)]
    by (auto simp: inner_def orderly_def reading cl)
qed

lemma timing_shutdown_shape:
  "\<exists>rc wt n k w'. timing_shutdown m cfg v sim w =
     (rc, [Signalled] @ wt @ [Flushed n k] @ map Closed ((if sim then [L_consumerBus, L_prConsumerBus, L_lookupPub] else []) @ [L_pub]), w')
   \<and> rc \<in> {0, 1} \<and> only_waits (timing_loops sim) wt"
proof -
  obtain wt now where wt: "waitAll m (shutdownTimeout cfg) 0 (timing_loops sim) = (wt, now)" by fastforce
  obtain n k w' where fl: "flushOutbox (outboxRelay m v (tc_OutboxPollInterval cfg)) (underCtx (shutdownTimeout cfg) now (m_io m)) w = ([Flushed n k], w')"
    using flushOutbox_step by (metis prod.collapse)
  show ?thesis using waitAll_reads [of "timing_loops sim" m "shutdownTimeout cfg" 0]
    by (simp add: timing_shutdown_def wt fl split_def)
qed

lemma identity_shutdown_shape:
  "\<exists>rc wt n k w'. identity_shutdown m cfg v w =
     (rc, [Signalled] @ wt @ [Flushed n k] @ map Closed [L_consumerBus, L_publisher], w')
   \<and> rc \<in> {0, 1} \<and> only_waits [Loop_consumer, Loop_heartbeat, Loop_relay] wt"
proof -
  let ?ls = "[Loop_consumer, Loop_heartbeat, Loop_relay]"
  obtain wt now where wt: "waitAll m (shutdownTimeout cfg) 0 ?ls = (wt, now)" by fastforce
  obtain n k w' where fl: "flushOutbox (outboxRelay m v (ic_OutboxPollInterval cfg)) (underCtx (shutdownTimeout cfg) now (m_io m)) w = ([Flushed n k], w')"
    using flushOutbox_step by (metis prod.collapse)
  show ?thesis using waitAll_reads [of ?ls m "shutdownTimeout cfg" 0] by (simp add: identity_shutdown_def wt fl split_def del: waitAll.simps)
qed

definition boot_ok :: "step list \<Rightarrow> bool" where
  "boot_ok boot \<longleftrightarrow> sorted (map phase boot) \<and> (\<forall>s\<in>set boot. 0 < phase s \<and> phase s < 3) \<and> distinct (dialled boot) \<and> set (supervised boot) = set (dialled boot)
     \<and> links_first [] boot"

lemma inner_timing_shutdown:
  assumes "boot_ok boot" "set (started boot) = set (timing_loops sim)"
    "set (dialled boot) = (if sim then {L_pub, L_lookupPub, L_consumerBus, L_prConsumerBus} else {L_pub})"
  shows "inner (following boot (timing_shutdown m cfg v sim w))"
proof -
  obtain rc wt n k w' where shape: "timing_shutdown m cfg v sim w =
     (rc, [Signalled] @ wt @ [Flushed n k] @ map Closed ((if sim then [L_consumerBus, L_prConsumerBus, L_lookupPub] else []) @ [L_pub]), w')"
    "rc \<in> {0, 1}" "only_waits (timing_loops sim) wt"
    using timing_shutdown_shape by blast
  have "inner (rc, boot @ [Signalled] @ wt @ [Flushed n k] @ map Closed ((if sim then [L_consumerBus, L_prConsumerBus, L_lookupPub] else []) @ [L_pub]), w')"
    by (rule inner_signalled [OF shape(3)]) (use assms shape(2) in \<open>auto simp: boot_ok_def timing_loops_def\<close>)
  then show ?thesis by (simp add: shape(1) following_def)
qed

lemma inner_identity_shutdown:
  assumes "boot_ok boot" "set (started boot) = {Loop_consumer, Loop_heartbeat, Loop_relay}" "set (dialled boot) = {L_consumerBus, L_publisher}"
  shows "inner (following boot (identity_shutdown m cfg v w))"
proof -
  obtain rc wt n k w' where shape: "identity_shutdown m cfg v w = (rc, [Signalled] @ wt @ [Flushed n k] @ map Closed [L_consumerBus, L_publisher], w')"
    "rc \<in> {0, 1}" "only_waits [Loop_consumer, Loop_heartbeat, Loop_relay] wt"
    using identity_shutdown_shape by blast
  have "inner (rc, boot @ [Signalled] @ wt @ [Flushed n k] @ map Closed [L_consumerBus, L_publisher], w')"
    by (rule inner_signalled [OF shape(3)]) (use assms shape(2) in \<open>auto simp: boot_ok_def\<close>)
  then show ?thesis by (simp add: shape(1) following_def)
qed

lemma inner_leaderboard_shutdown:
  assumes "boot_ok boot" "set (started boot) = {Loop_consumer, Loop_heartbeat, Loop_web}" "set (dialled boot) = {L_bus}"
  shows "inner (following boot (leaderboard_shutdown m cfg w))"
proof -
  have "inner (if m_close m L_bus = None then 0 else 1,
    boot @ [Signalled] @ fst (waitAll m (shutdownTimeout cfg) 0 [Loop_consumer, Loop_heartbeat, Loop_web]) @ [] @ map Closed [L_bus], w)"
    by (rule inner_signalled [OF waitAll_reads]) (use assms in \<open>auto simp: boot_ok_def\<close>)
  then show ?thesis by (simp add: leaderboard_shutdown_def following_def del: waitAll.simps)
qed

lemma following_following [simp]: "following a (following b r) = following (a @ b) r"
  by (simp add: following_def split: prod.splits)

lemma following_pair: "following a (rc, tr, w) = (rc, a @ tr, w)"
  by (simp add: following_def)

lemmas inner_shut = inner_timing_shutdown inner_identity_shutdown inner_leaderboard_shutdown

text \<open>A return before the signal: its steps are a concrete list.\<close>

lemmas early = following_pair inner_def orderly_def reading

lemma inner_register_first:
  assumes "ConnectAndServe True lookupPub = Inr s"
    and "inner (following (boot @ [Supervised L_lookupPub, Supervised L_consumerBus, Started Loop_resolved, Supervised L_prConsumerBus, Started Loop_pr_updated]) (rest w))"
    and "boot = [Dialled L_pub, Dialled L_lookupPub, Dialled L_consumerBus, Dialled L_prConsumerBus, Supervised L_pub]"
  shows "inner (following boot (timing_register_first m cfg (lookupPub, consumerBus, prConsumerBus) w rest))"
proof (cases "ConnectAndConsume (m_broker m L_consumerBus) (consumerOpts (ConsumePrefetch cfg)) True consumerBus")
  case (Inl e)
  then show ?thesis using assms(1) by (simp add: timing_register_first_def assms(3) early)
next
  case (Inr s2)
  note this1 = this
  show ?thesis
  proof (cases "ConnectAndConsume (m_broker m L_prConsumerBus) (prConsumerOpts (ConsumePrefetch cfg)) True prConsumerBus")
    case (Inl e)
    then show ?thesis using assms(1) this1 by (simp add: timing_register_first_def assms(3) early)
  next
    case (Inr s3)
    then show ?thesis using assms(1,2) this1 by (simp add: timing_register_first_def)
  qed
qed

lemma inner_dial_simulator:
  assumes "\<And>p b1 b2. DialPublisher (m_broker m L_lookupPub) (AMQPURI cfg) FrontendEventsExchange [] = (Inr (), p) \<Longrightarrow>
      inner (following [Dialled L_pub, Dialled L_lookupPub, Dialled L_consumerBus, Dialled L_prConsumerBus] (rest (p, b1, b2) w))"
  shows "inner (following [Dialled L_pub] (timing_dial_simulator m cfg rest w))"
proof -
  have "inner (following [Dialled L_pub] (1, tr, w))" if "tr \<in> {[], [Dialled L_lookupPub, Closed L_lookupPub],
      [Dialled L_lookupPub, Dialled L_consumerBus, Closed L_lookupPub, Closed L_consumerBus]}" for tr
    using that by (elim insertE) (simp_all add: early)
  then show ?thesis using assms
    by (simp add: timing_dial_simulator_def following_pair split: prod.split sum.split)
qed

lemma inner_timing_main: "inner (timing_main m served cfg v w)"
proof (cases "DialPublisher (m_broker m L_pub) (AMQPURI cfg) TimingExchange []")
  case (Pair r pub)
  show ?thesis
  proof (cases r)
    case (Inl e)
    then show ?thesis using Pair by (simp add: timing_main_def early)
  next
    case (Inr u)
    then obtain s where s: "ConnectAndServe True pub = Inr s" using dialled_publisher_serves Pair by blast
    have plain: "inner (following [Dialled L_pub] (timing_serve m served cfg v pub None w))"
      by (simp add: timing_serve_def s) (rule inner_timing_shutdown; simp add: boot_ok_def reading timing_loops_def insert_commute)
    have sim: "inner (following [Dialled L_pub] (timing_dial_simulator m cfg (\<lambda>links. timing_serve m served cfg v pub (Some links)) w))"
    proof (rule inner_dial_simulator)
      fix p b1 b2 assume "DialPublisher (m_broker m L_lookupPub) (AMQPURI cfg) FrontendEventsExchange [] = (Inr (), p)"
      then obtain s2 where "ConnectAndServe True p = Inr s2" using dialled_publisher_serves by blast
      then have "inner (following [Dialled L_pub, Dialled L_lookupPub, Dialled L_consumerBus, Dialled L_prConsumerBus, Supervised L_pub]
        (timing_register_first m cfg (p, b1, b2) w (\<lambda>w. following [Started Loop_heartbeat, Started Loop_relay, Started Loop_simulator] (timing_shutdown m cfg v True (served w)))))"
        by (rule inner_register_first [OF _ _ refl]) (simp, rule inner_timing_shutdown; simp add: boot_ok_def reading timing_loops_def insert_commute)
      then show "inner (following [Dialled L_pub, Dialled L_lookupPub, Dialled L_consumerBus, Dialled L_prConsumerBus] (timing_serve m served cfg v pub (Some (p, b1, b2)) w))"
        by (simp add: timing_serve_def s)
    qed
    show ?thesis using plain sim Pair Inr by (simp add: timing_main_def)
  qed
qed

lemma inner_identity_main: "inner (identity_main m served cfg v w)"
proof -
  have "inner (following [Dialled L_consumerBus, Dialled L_publisher, Supervised L_publisher, Supervised L_consumerBus,
      Started Loop_heartbeat, Started Loop_relay, Started Loop_consumer] (identity_shutdown m cfg v (served w)))"
    by (rule inner_identity_shutdown) (simp_all add: boot_ok_def reading insert_commute)
  moreover have "inner (1, tr, w)" if "tr \<in> {[], [Dialled L_consumerBus, Closed L_consumerBus],
      [Dialled L_consumerBus, Dialled L_publisher, Closed L_consumerBus, Closed L_publisher],
      [Dialled L_consumerBus, Dialled L_publisher, Supervised L_publisher, Closed L_consumerBus, Closed L_publisher]}" for tr
    using that by (elim insertE) (simp_all add: early)
  ultimately show ?thesis by (simp add: identity_main_def following_pair split: prod.split sum.split)
qed

lemma inner_leaderboard_main: "inner (leaderboard_main m served cfg v w)"
proof -
  have "inner (following [Dialled L_bus, Supervised L_bus, Started Loop_heartbeat, Started Loop_consumer, Started Loop_web]
      (leaderboard_shutdown m cfg w'))" for w' :: "leaderboard_db world"
    by (rule inner_leaderboard_shutdown) (simp_all add: boot_ok_def reading insert_commute)
  moreover have "inner (1, tr, w')" if "tr \<in> {[], [Dialled L_bus, Closed L_bus]}" for tr and w' :: "leaderboard_db world"
    using that by (elim insertE) (simp_all add: early)
  ultimately show ?thesis by (simp add: leaderboard_main_def following_pair split: prod.split sum.split)
qed

section \<open>What is left open\<close>

definition left_open :: "step list \<Rightarrow> link_name list" where
  "left_open tr = filter (\<lambda>l. l \<notin> set (closed tr)) (dialled tr)"

definition tight :: "'w outcome \<Rightarrow> bool" where
  "tight r \<longleftrightarrow> left_open (fst (snd r)) = []"

lemma tight_signalled: "orderly r \<Longrightarrow> Signalled \<in> set (fst (snd r)) \<Longrightarrow> tight r"
  by (cases r) (simp add: orderly_def tight_def left_open_def filter_empty_conv)

lemma tight_with_database: "(\<And>v. tight (body v w)) \<Longrightarrow> tight (with_database m cfg body w)"
  by (simp add: with_database_def persistence_Open_def gopdb_Open_def split: sum.split option.split prod.split)
    (auto simp: tight_def left_open_def reading, metis fst_conv snd_conv)

lemma tight_shutdown:
  "inner (following boot (identity_shutdown m cfg v wi)) \<Longrightarrow> tight (following boot (identity_shutdown m cfg v wi))"
  "inner (following boot (leaderboard_shutdown m cfg' wl)) \<Longrightarrow> tight (following boot (leaderboard_shutdown m cfg' wl))"
  by (rule tight_signalled; simp add: inner_def identity_shutdown_def leaderboard_shutdown_def following_def split: prod.splits)+

lemma tight_identity_main: "tight (identity_main m served cfg v w)"
proof -
  have "tight (following [Dialled L_consumerBus, Dialled L_publisher, Supervised L_publisher, Supervised L_consumerBus,
      Started Loop_heartbeat, Started Loop_relay, Started Loop_consumer] (identity_shutdown m cfg v (served w)))"
    by (rule tight_shutdown, rule inner_identity_shutdown) (simp_all add: boot_ok_def reading insert_commute)
  then show ?thesis
    by (simp add: identity_main_def following_pair tight_def left_open_def reading split: prod.split sum.split)
qed

lemma tight_leaderboard_main: "tight (leaderboard_main m served cfg v w)"
proof -
  have "tight (following [Dialled L_bus, Supervised L_bus, Started Loop_heartbeat, Started Loop_consumer, Started Loop_web]
      (leaderboard_shutdown m cfg w'))" for w' :: "leaderboard_db world"
    by (rule tight_shutdown, rule inner_leaderboard_shutdown) (simp_all add: boot_ok_def reading insert_commute)
  then show ?thesis
    by (simp add: leaderboard_main_def following_pair tight_def left_open_def reading split: prod.split sum.split)
qed

text \<open>Timing is not as careful: when the second connection cannot be dialled it returns without closing the first.\<close>

lemma timing_start_leaves_pub_open:
  assumes "DialPublisher (m_broker m L_pub) (AMQPURI cfg) TimingExchange [] = (Inr u, pub)" "SimulatorEnabled cfg"
    "DialPublisher (m_broker m L_lookupPub) (AMQPURI cfg) FrontendEventsExchange [] = (Inl e, p)"
  shows "timing_main m served cfg v w = (1, [Dialled L_pub], w) \<and> left_open [Dialled L_pub] = [L_pub]"
  using assms by (simp add: timing_main_def timing_dial_simulator_def following_pair left_open_def reading)

lemma refused: "orderly (1, [], w)" "tight (1, [], w)"
  by (simp_all add: orderly_def tight_def left_open_def reading)

lemma orderly_runs:
  "orderly (timing_run m servedT wT)" "orderly (identity_run m servedI wI)" "orderly (leaderboard_run m servedL wL)"
  by (auto simp: timing_run_def identity_run_def leaderboard_run_def refused split: sum.split
      intro!: orderly_with_database inner_timing_main inner_identity_main inner_leaderboard_main)

lemma tight_runs: "tight (identity_run m servedI wI)" "tight (leaderboard_run m servedL wL)"
  by (auto simp: identity_run_def leaderboard_run_def refused split: sum.split
      intro!: tight_with_database tight_identity_main tight_leaderboard_main)

text \<open>What Timing can leave: nothing, or one of two connections, on a return that reports a failed start.\<close>

definition mostly_tight :: "'w outcome \<Rightarrow> bool" where
  "mostly_tight r \<longleftrightarrow> left_open (fst (snd r)) \<in> {[], [L_pub], [L_prConsumerBus]}"

lemma mostly_tight_with_database: "(\<And>v. mostly_tight (body v w)) \<Longrightarrow> mostly_tight (with_database m cfg body w)"
  by (simp add: with_database_def persistence_Open_def gopdb_Open_def split: sum.split option.split prod.split)
    (auto simp: mostly_tight_def left_open_def reading, metis fst_conv snd_conv)

lemma mostly_tight_timing_main: "mostly_tight (timing_main m served cfg v w)"
proof -
  have fin: "mostly_tight (following boot (timing_shutdown m cfg v sim w'))" if "inner (following boot (timing_shutdown m cfg v sim w'))" for boot sim w'
  proof -
    have "Signalled \<in> set (fst (snd (following boot (timing_shutdown m cfg v sim w'))))"
      by (simp add: timing_shutdown_def following_def split: prod.split)
    with that have "tight (following boot (timing_shutdown m cfg v sim w'))" by (intro tight_signalled) (simp_all add: inner_def split: prod.splits)
    then show ?thesis by (simp add: tight_def mostly_tight_def)
  qed
  have plain: "mostly_tight (following [Dialled L_pub, Supervised L_pub, Started Loop_heartbeat, Started Loop_relay] (timing_shutdown m cfg v False w'))" for w'
    by (rule fin, rule inner_timing_shutdown; simp add: boot_ok_def reading timing_loops_def insert_commute)
  have sim: "mostly_tight (following [Dialled L_pub, Dialled L_lookupPub, Dialled L_consumerBus, Dialled L_prConsumerBus, Supervised L_pub,
      Supervised L_lookupPub, Supervised L_consumerBus, Started Loop_resolved, Supervised L_prConsumerBus, Started Loop_pr_updated,
      Started Loop_heartbeat, Started Loop_relay, Started Loop_simulator] (timing_shutdown m cfg v True w'))" for w'
    by (rule fin, rule inner_timing_shutdown; simp add: boot_ok_def reading timing_loops_def insert_commute)
  note reads = mostly_tight_def left_open_def reading following_pair
  obtain r1 pub where 1: "DialPublisher (m_broker m L_pub) (AMQPURI cfg) TimingExchange [] = (r1, pub)" by fastforce
  obtain r2 look where 2: "DialPublisher (m_broker m L_lookupPub) (AMQPURI cfg) FrontendEventsExchange [] = (r2, look)" by fastforce
  obtain r3 bus where 3: "DialConsumerBus (m_broker m L_consumerBus) (AMQPURI cfg) TimingExchange [] = (r3, bus)" by fastforce
  obtain r4 pr where 4: "DialConsumerBus (m_broker m L_prConsumerBus) (AMQPURI cfg) TimingExchange [] = (r4, pr)" by fastforce
  show ?thesis
  proof (cases r1)
    case (Inl e)
    then show ?thesis using 1 by (simp add: timing_main_def reads)
  next
    case r1: (Inr u)
    then obtain s where s: "ConnectAndServe True pub = Inr s" using dialled_publisher_serves 1 by blast
    have reg: "mostly_tight (following [Dialled L_pub, Dialled L_lookupPub, Dialled L_consumerBus, Dialled L_prConsumerBus, Supervised L_pub]
        (timing_register_first m cfg (look, bus, pr) w (\<lambda>w. following [Started Loop_heartbeat, Started Loop_relay, Started Loop_simulator] (timing_shutdown m cfg v True (served w)))))"
      if "r2 = Inr ()"
    proof -
      obtain s2 where s2: "ConnectAndServe True look = Inr s2" using dialled_publisher_serves 2 \<open>r2 = Inr ()\<close> by blast
      show ?thesis
      proof (cases "ConnectAndConsume (m_broker m L_consumerBus) (consumerOpts (ConsumePrefetch cfg)) True bus")
        case (Inl e)
        then show ?thesis by (simp add: timing_register_first_def s2 reads)
      next
        case c1: (Inr s3)
        show ?thesis
        proof (cases "ConnectAndConsume (m_broker m L_prConsumerBus) (prConsumerOpts (ConsumePrefetch cfg)) True pr")
          case (Inl e)
          then show ?thesis by (simp add: timing_register_first_def s2 c1 reads)
        next
          case (Inr s4)
          then show ?thesis using sim [of "served w"] by (simp add: timing_register_first_def s2 c1)
        qed
      qed
    qed
    have dial: "mostly_tight (following [Dialled L_pub] (timing_dial_simulator m cfg (\<lambda>links. timing_serve m served cfg v pub (Some links)) w))"
    proof (cases r2)
      case (Inl e)
      then show ?thesis by (simp add: timing_dial_simulator_def 2 reads)
    next
      case r2: (Inr a)
      show ?thesis
      proof (cases r3)
        case (Inl e)
        then show ?thesis by (simp add: timing_dial_simulator_def 2 3 r2 reads)
      next
        case r3: (Inr c)
        show ?thesis
        proof (cases r4)
          case (Inl e)
          then show ?thesis by (simp add: timing_dial_simulator_def 2 3 4 r2 r3 reads)
        next
          case (Inr e)
          then show ?thesis using reg r2 by (simp add: timing_dial_simulator_def timing_serve_def s 2 3 4 r3)
        qed
      qed
    qed
    then show ?thesis using plain [of "served w"] by (simp add: timing_main_def 1 r1 timing_serve_def s)
  qed
qed

lemma mostly_tight_timing_run: "mostly_tight (timing_run m served w)"
  by (auto simp: timing_run_def mostly_tight_def left_open_def reading split: sum.split
      intro!: mostly_tight_with_database [unfolded mostly_tight_def left_open_def, simplified] mostly_tight_timing_main [unfolded mostly_tight_def left_open_def, simplified])

text \<open>The outbox is flushed, once, on every run that reached the signal.\<close>

definition flushes_once :: "'w outcome \<Rightarrow> bool" where
  "flushes_once r \<longleftrightarrow> (Signalled \<in> set (fst (snd r)) \<longrightarrow> (\<exists>n k. filter (\<lambda>s. phase s = 5) (fst (snd r)) = [Flushed n k]))"

lemma flushes_following [simp]:
  "\<forall>s\<in>set boot. phase s < 3 \<Longrightarrow> flushes_once (following boot r) \<longleftrightarrow> flushes_once r"
proof -
  assume b: "\<forall>s\<in>set boot. phase s < 3"
  then have "Signalled \<notin> set boot" "filter (\<lambda>s. phase s = 5) boot = []" by (auto simp: filter_empty_conv)
  then show ?thesis by (cases r) (simp add: flushes_once_def following_def)
qed

lemma flushes_unsignalled [simp]: "Signalled \<notin> set tr \<Longrightarrow> flushes_once (rc, tr, w)"
  by (simp add: flushes_once_def)

lemma flushes_shutdown [simp]: "flushes_once (timing_shutdown m cfg v sim w)" "flushes_once (identity_shutdown m cfg' v wi)"
proof -
  have "filter (\<lambda>s. phase s = 5) wt = []" if "only_waits ls wt" for ls wt using that by (auto simp: only_waits_def filter_empty_conv)
  then show "flushes_once (timing_shutdown m cfg v sim w)" "flushes_once (identity_shutdown m cfg' v wi)"
    using timing_shutdown_shape [of m cfg v sim w] identity_shutdown_shape [of m cfg' v wi] by (auto simp: flushes_once_def filter_map comp_def)
qed

lemma flushes_mains: "flushes_once (timing_main m servedT cfg v wT)" "flushes_once (identity_main m servedI cfg' v wI)"
  by (simp_all add: timing_main_def timing_dial_simulator_def timing_serve_def timing_register_first_def identity_main_def
      split: prod.split sum.split)

lemma flushes_with_database: "(\<And>v. flushes_once (body v w)) \<Longrightarrow> flushes_once (with_database m cfg body w)"
  by (simp add: with_database_def persistence_Open_def gopdb_Open_def split: sum.split option.split prod.split)
    (auto simp: flushes_once_def, metis fst_conv snd_conv)

lemma flushes_runs: "flushes_once (timing_run m servedT wT)" "flushes_once (identity_run m servedI wI)"
  by (auto simp: timing_run_def identity_run_def split: sum.split intro!: flushes_with_database flushes_mains)

text \<open>C2: every run of the three processes is orderly, whatever the machine does. The database is opened
  before and closed after everything else, on every path that opened it; connections are dialled before
  anything is started, no loop starts before the connections it uses are supervised, and no return closes
  a connection twice or one it does not have. The exit code is 0 only after a signal; on every run that
  reached the signal, every loop that was started has been waited for, together no longer than the
  configured timeout, then Timing and Identity flushed the outbox exactly once, and then every connection was
  closed. On the returns that report a failed start Identity and Leaderboard leave no connection open;
  Timing leaves none or one, \<open>pub\<close> or the second consumer bus.\<close>

theorem services_run_orderly:
  "orderly (timing_run m servedT wT) \<and> orderly (identity_run m servedI wI) \<and> orderly (leaderboard_run m servedL wL)
   \<and> flushes_once (timing_run m servedT wT) \<and> flushes_once (identity_run m servedI wI)
   \<and> tight (identity_run m servedI wI) \<and> tight (leaderboard_run m servedL wL) \<and> mostly_tight (timing_run m servedT wT)
   \<and> snd (waitAll m deadline 0 ls) \<le> max 0 deadline"
  using waitAll_bound [OF prod.collapse [symmetric], where m = m and deadline = deadline and now = 0 and ls = ls]
  by (simp add: orderly_runs flushes_runs tight_runs mostly_tight_timing_run)

section \<open>Nothing is lost at shutdown\<close>

text \<open>What the flush at the end may do to the outbox: rows change only as a drain changes them; when every loop
  stops in time and the broker answers, one batch of 100 is published; when a loop hangs, the flush is
  called with a context that is done: it changes nothing, and logs that nothing is pending.\<close>

definition flushed_safely ::
  "machine \<Rightarrow> int \<Rightarrow> loop_name list \<Rightarrow> validator \<Rightarrow> ('d core_db_scheme) world \<Rightarrow> (('d core_db_scheme) world) outcome \<Rightarrow> bool" where
  "flushed_safely m deadline ls v w r \<longleftrightarrow> (case r of (rc, tr, w') \<Rightarrow>
     (\<exists>pubs. trace w' = trace w @ pubs \<and> list_all2 (row_next v pubs) (outbox (db w)) (outbox (db w')))
     \<and> (calm (m_io m) \<and> 0 < deadline \<and> (\<forall>l\<in>set ls. \<exists>t. m_stops m l = Some t \<and> t < deadline)
          \<longrightarrow> (\<forall>l\<in>set ls. Waited l True \<in> set tr) \<and> pending (outbox (db w')) = drop 100 (pending (outbox (db w))))
     \<and> ((\<exists>l\<in>set ls. m_stops m l = None) \<longrightarrow> Flushed 0 0 \<in> set tr \<and> db w' = db w))"

lemma flushed_safelyI:
  assumes "outbox_ok (db w)" "waitAll m deadline 0 ls = (wt, now)"
    "flushOutbox (outboxRelay m v poll) (underCtx deadline now (m_io m)) w = (fl, w')"
  shows "flushed_safely m deadline ls (ValidateEnvelopeBytes (m_unmarshal m) v) w (rc, a @ wt @ fl @ b, w')"
proof -
  let ?r = "outboxRelay m v poll"
  have r: "rc_Validate ?r = ValidateEnvelopeBytes (m_unmarshal m) v" "nat (rc_Batch ?r) = 100"
    by (simp_all add: outboxRelay_def NewRelay_def)
  have "wt = map (\<lambda>l. Waited l True) ls \<and> pending (outbox (db w')) = drop 100 (pending (outbox (db w)))"
    if "calm (m_io m)" "0 < deadline" "\<forall>l\<in>set ls. \<exists>t. m_stops m l = Some t \<and> t < deadline"
  proof -
    have "wt = map (\<lambda>l. Waited l True) ls" "now < deadline" using waitAll_stopped [OF that(3,2)] assms(2) by auto
    then show ?thesis using flushOutbox_calm [OF that(1) assms(1), of ?r] assms(3) r(2) by (simp add: underCtx_def)
  qed
  moreover have "Flushed 0 0 \<in> set fl \<and> db w' = db w" if "l \<in> set ls" "m_stops m l = None" for l
    using flushOutbox_expired [OF waitAll_expired [OF assms(2) that], of ?r "m_io m" w] assms(3) by simp
  moreover have "\<exists>pubs. trace w' = trace w @ pubs \<and> list_all2 (row_next (rc_Validate ?r) pubs) (outbox (db w)) (outbox (db w'))"
    using flushOutbox_rows [OF assms(1), of ?r "underCtx deadline now (m_io m)"] assms(3) by simp
  ultimately show ?thesis by (auto simp: flushed_safely_def r(1))
qed

text \<open>C28: a shutdown loses no event. For Timing and Identity alike every row of the outbox is there afterwards
  with its message unchanged, and one that is marked sent was published with a broker confirmation; when
  the loops stop within the timeout and the broker answers, the oldest hundred pending rows are
  published before the connection closes, and when a loop hangs the rows all stay pending for the next
  start.\<close>

theorem shutdown_loses_nothing:
  assumes "outbox_ok (db wT)" and "outbox_ok (db wI)"
  shows "flushed_safely m (shutdownTimeout cT) (timing_loops sim) (ValidateEnvelopeBytes (m_unmarshal m) v) wT (timing_shutdown m cT v sim wT)
    \<and> flushed_safely m (shutdownTimeout cI) [Loop_consumer, Loop_heartbeat, Loop_relay] (ValidateEnvelopeBytes (m_unmarshal m) v) wI
        (identity_shutdown m cI v wI)"
proof
  obtain wt now where wt: "waitAll m (shutdownTimeout cT) 0 (timing_loops sim) = (wt, now)" by fastforce
  obtain fl w' where fl: "flushOutbox (outboxRelay m v (tc_OutboxPollInterval cT)) (underCtx (shutdownTimeout cT) now (m_io m)) wT = (fl, w')" by fastforce
  show "flushed_safely m (shutdownTimeout cT) (timing_loops sim) (ValidateEnvelopeBytes (m_unmarshal m) v) wT (timing_shutdown m cT v sim wT)"
    unfolding timing_shutdown_def wt fl Let_def prod.case by (rule flushed_safelyI [OF assms(1) wt fl])
next
  let ?ls = "[Loop_consumer, Loop_heartbeat, Loop_relay]"
  obtain wt now where wt: "waitAll m (shutdownTimeout cI) 0 ?ls = (wt, now)" by fastforce
  obtain fl w' where fl: "flushOutbox (outboxRelay m v (ic_OutboxPollInterval cI)) (underCtx (shutdownTimeout cI) now (m_io m)) wI = (fl, w')" by fastforce
  show "flushed_safely m (shutdownTimeout cI) ?ls (ValidateEnvelopeBytes (m_unmarshal m) v) wI (identity_shutdown m cI v wI)"
    unfolding identity_shutdown_def wt fl Let_def prod.case by (rule flushed_safelyI [OF assms(2) wt fl])
qed

section \<open>A run\<close>

definition demo_machine :: machine where
  "demo_machine = \<lparr>m_getenv = demo_getenv, m_stat = (\<lambda>p. True), m_cwd = Inr [''app''], m_compile = demo_compile, m_walk = demo_walk,
     m_unmarshal = demo_unmarshal, m_sqlOpen = (\<lambda>p. None), m_ping = (\<lambda>t. None), m_goose = (\<lambda>t. None), m_broker = (\<lambda>l. demo_broker),
     m_close = (\<lambda>l. None), m_stops = (\<lambda>l. Some 7), m_race = (\<lambda>l. False), m_io = demo_calm\<rparr>"

definition demo_queue :: "timing_db world" where
  "demo_queue = demo_timing\<lparr>db := (db demo_timing)\<lparr>outbox := [demo_row ''a'' ''1'' ''one'']\<rparr>\<rparr>"

lemma demo_machine_simps [simp]:
  "m_getenv demo_machine = demo_getenv" "m_stat demo_machine d" "m_cwd demo_machine = Inr [''app'']" "m_compile demo_machine = demo_compile"
  "m_walk demo_machine = demo_walk" "m_sqlOpen demo_machine p = None" "m_ping demo_machine t = None" "m_goose demo_machine t = None"
  "m_broker demo_machine l = demo_broker" "m_close demo_machine l = None" "m_stops demo_machine k = Some 7" "m_io demo_machine = demo_calm"
  by (simp_all add: demo_machine_def)

lemma demo_config:
  "\<exists>c. timing_Load demo_getenv = Inr c \<and> SimulatorEnabled c \<and> ShutdownTimeout c = 5000 \<and> ContractDir c = ''''"
proof -
  have "case timing_Load demo_getenv of Inl e \<Rightarrow> False | Inr c \<Rightarrow> SimulatorEnabled c \<and> ShutdownTimeout c = 5000 \<and> ContractDir c = ''''"
    unfolding timing_Load_def by (simp add: loadSimulator_def loadKnobs_def loadSeed_def demo_eval cong: load_cong)
  then show ?thesis by (auto split: sum.splits)
qed

theorem shutdown_loses_nothing_witness:
  "\<exists>c v. pending (outbox (db demo_queue)) \<noteq> [] \<and> timing_Load demo_getenv = Inr c
     \<and> pending (outbox (db (snd (snd (timing_shutdown demo_machine c v True demo_queue))))) = []"
proof -
  obtain c where c: "timing_Load demo_getenv = Inr c" "ShutdownTimeout c = 5000" using demo_config by blast
  let ?v = "\<lparr>vd_envelope = \<lambda>j. True, vd_heartbeat = \<lambda>j. True, vd_data = Map.empty\<rparr>"
  have rows: "outbox (db demo_queue) = [demo_row ''a'' ''1'' ''one'']" "outbox_ok (db demo_ids)"
    by (simp_all add: demo_queue_def demo_ids_def outbox_ok_def)
  then have pend: "pending (outbox (db demo_queue)) = [demo_row ''a'' ''1'' ''one'']" "outbox_ok (db demo_queue)"
    by (simp_all add: pending_def demo_row_def outbox_ok_def)
  have "0 < shutdownTimeout c" "\<forall>l\<in>set (timing_loops True). \<exists>t. m_stops demo_machine l = Some t \<and> t < shutdownTimeout c" "calm (m_io demo_machine)"
    by (simp_all add: shutdownTimeout_def c(2) wrap64_def calm_def demo_calm_def)
  then have "pending (outbox (db (snd (snd (timing_shutdown demo_machine c ?v True demo_queue))))) = drop 100 [demo_row ''a'' ''1'' ''one'']"
    using shutdown_loses_nothing [OF pend(2) rows(2), of demo_machine c True ?v undefined] pend(1)
    by (auto simp: flushed_safely_def split: prod.splits)
  then show ?thesis using c(1) pend(1) by auto
qed

text \<open>With everything answering, Timing runs through all its phases and exits with 0.\<close>

lemma demo_run:
  "\<exists>wt n k w'. timing_run demo_machine (\<lambda>w. demo_queue) demo_timing =
     (0, [DBOpened, Dialled L_pub, Dialled L_lookupPub, Dialled L_consumerBus, Dialled L_prConsumerBus,
          Supervised L_pub, Supervised L_lookupPub, Supervised L_consumerBus, Started Loop_resolved,
          Supervised L_prConsumerBus, Started Loop_pr_updated, Started Loop_heartbeat, Started Loop_relay, Started Loop_simulator, Signalled]
         @ wt @ [Flushed n k, Closed L_consumerBus, Closed L_prConsumerBus, Closed L_lookupPub, Closed L_pub, DBClosed], w')"
proof -
  obtain c where c: "timing_Load demo_getenv = Inr c" "SimulatorEnabled c" "ShutdownTimeout c = 5000" "ContractDir c = ''''"
    using demo_config by blast
  have "\<exists>out. indexDataSchemas demo_compile (demo_walk dir) Map.empty = Inr out" for dir
    by (simp add: demo_walk_def demo_compile_def)
  then obtain v where v: "NewValidator demo_compile demo_walk (dir_path [''contract'', ''app'']) = Inr v"
    unfolding NewValidator_def by (metis demo_compile_def sum.case(2))
  obtain rc wt n k w' where sh: "timing_shutdown demo_machine c v True demo_queue = (rc, [Signalled] @ wt @ [Flushed n k]
      @ map Closed [L_consumerBus, L_prConsumerBus, L_lookupPub, L_pub], w')"
    using timing_shutdown_shape [of demo_machine c v True demo_queue] by auto
  have "rc = fst (timing_shutdown demo_machine c v True demo_queue)" by (simp add: sh)
  then have "rc = 0" by (simp add: timing_shutdown_def Let_def split_def)
  note links = DialPublisher_def DialConsumerBus_def Publisher_establish_def Bus_establish_def ConnectAndServe_def ConnectAndConsume_def
    subscribe_def DeclareDLQTopology_def declareWorkQueueResilient_def consumeRaw_def consumerOpts_def prConsumerOpts_def TimingDLXExchange_def
  have run: "timing_main demo_machine (\<lambda>w. demo_queue) c v demo_timing = following
      [Dialled L_pub, Dialled L_lookupPub, Dialled L_consumerBus, Dialled L_prConsumerBus,
          Supervised L_pub, Supervised L_lookupPub, Supervised L_consumerBus, Started Loop_resolved,
          Supervised L_prConsumerBus, Started Loop_pr_updated, Started Loop_heartbeat, Started Loop_relay, Started Loop_simulator]
      (timing_shutdown demo_machine c v True demo_queue)"
    by (simp add: timing_main_def timing_dial_simulator_def timing_serve_def timing_register_first_def c(2) links Let_def)
  show ?thesis
    by (simp add: timing_run_def c(1,4) with_database_def persistence_Open_def gopdb_Open_def ResolveContractDir_def v run sh following_pair \<open>rc = 0\<close>)
qed

end
