(* ===== verification/Leaderboard_Web.thy ===== *)
theory Leaderboard_Web
  imports Leaderboard_Store
begin

text \<open>
  The trackside board (services/leaderboard/internal/web/render.go and server.go, and the snapshot
  closure of cmd/leaderboard/main.go): the rendered snapshot, the hub that fans frames out to the
  connected browsers, and the server as a function of the events of its goroutines, in the order
  they happen. \<open>json.Marshal\<close> of a snapshot is a parameter.
\<close>

section \<open>Rendering\<close>

record RowView =
  rv_Position :: int
  rv_MasterID :: string
  rv_DisplayName :: string
  rv_LapTimeMs :: int
  rv_LapTime :: string
  rv_IsFastest :: bool

record SessionView =
  sv_SessionID :: string
  sv_Status :: string

record Snapshot =
  sn_Session :: "SessionView option"
  sn_Rows :: "RowView list"
  sn_Stale :: bool
  sn_Connection :: string

definition ConnectionLive :: string where
  "ConnectionLive = ''live''"

definition ConnectionReconnecting :: string where
  "ConnectionReconnecting = ''reconnecting''"

definition WithConnection :: "Snapshot \<Rightarrow> bool \<Rightarrow> Snapshot" where
  "WithConnection s connected =
     (if connected then s\<lparr>sn_Stale := False, sn_Connection := ConnectionLive\<rparr>
      else s\<lparr>sn_Stale := True, sn_Connection := ConnectionReconnecting\<rparr>)"

definition displayStatus :: "session_status \<Rightarrow> string" where
  "displayStatus stored = (if stored = StatusFinished then ''finished'' else ''active'')"

text \<open>Go's division and remainder agree with \<open>div\<close> and \<open>mod\<close> once the value is not negative.\<close>

definition formatLapTime :: "int \<Rightarrow> string" where
  "formatLapTime ms =
     (let ms = (if ms < 0 then 0 else ms);
          minutes = ms div 60000;
          seconds = (ms mod 60000) div 1000;
          millis = ms mod 1000
      in itoa minutes @ '':'' @ padInt 2 seconds @ ''.'' @ padInt 3 millis)"

definition ToSnapshot :: "Board option \<Rightarrow> Snapshot" where
  "ToSnapshot board =
     (case board of
        None \<Rightarrow> \<lparr>sn_Session = None, sn_Rows = [], sn_Stale = False, sn_Connection = ''''\<rparr>
      | Some b \<Rightarrow>
          \<lparr>sn_Session = Some \<lparr>sv_SessionID = bd_SessionID b, sv_Status = displayStatus (bd_Status b)\<rparr>,
           sn_Rows = map (\<lambda>r. \<lparr>rv_Position = Position r, rv_MasterID = rk_MasterID r, rv_DisplayName = ShortMasterID (rk_MasterID r),
             rv_LapTimeMs = rk_BestLapMs r, rv_LapTime = formatLapTime (rk_BestLapMs r), rv_IsFastest = IsFastest r\<rparr>) (Rank (bd_Bests b)),
           sn_Stale = False, sn_Connection = ''''\<rparr>)"

section \<open>The hub\<close>

text \<open>A browser: its channel, whether its handler has sent the greeting, and the frames written to it.\<close>

record client =
  cl_id :: nat
  cl_ch :: "bytes list"
  cl_greeted :: bool
  cl_out :: "bytes list"

definition chan_cap :: nat where
  "chan_cap = 8"

definition writeSSE :: "bytes \<Rightarrow> bytes" where
  "writeSSE data = ''data: '' @ data @ [CHR 0x0A, CHR 0x0A]"

definition hub_add :: "nat \<Rightarrow> client list \<Rightarrow> client list" where
  "hub_add ch clients = clients @ [\<lparr>cl_id = ch, cl_ch = [], cl_greeted = False, cl_out = []\<rparr>]"

definition hub_remove :: "nat \<Rightarrow> client list \<Rightarrow> client list" where
  "hub_remove ch clients = filter (\<lambda>c. cl_id c \<noteq> ch) clients"

text \<open>The handler's loop takes a frame and writes it, once it has sent the greeting.\<close>

definition take_frame :: "client \<Rightarrow> client" where
  "take_frame c =
     (if cl_greeted c \<and> cl_ch c \<noteq> [] then c\<lparr>cl_ch := tl (cl_ch c), cl_out := cl_out c @ [writeSSE (hd (cl_ch c))]\<rparr> else c)"

text \<open>A non-blocking send, \<open>None\<close> when the buffer is full.\<close>

definition try_send :: "bytes \<Rightarrow> client \<Rightarrow> client option" where
  "try_send b c = (if length (cl_ch c) < chan_cap then Some (c\<lparr>cl_ch := cl_ch c @ [b]\<rparr>) else None)"

text \<open>
  The three selects of \<open>broadcast\<close> for one client. The hub's lock keeps other senders out, but not
  the reader: it may take \<open>r1\<close> frames before the eviction and \<open>r2\<close> after it.
\<close>

definition push :: "nat \<times> nat \<Rightarrow> bytes \<Rightarrow> client \<Rightarrow> client" where
  "push r b c =
     (case try_send b c of
        Some c' \<Rightarrow> c'
      | None \<Rightarrow>
          let c1 = (take_frame ^^ fst r) c;
              c2 = c1\<lparr>cl_ch := tl (cl_ch c1)\<rparr>;
              c3 = (take_frame ^^ snd r) c2
          in (case try_send b c3 of Some c' \<Rightarrow> c' | None \<Rightarrow> c3))"

definition broadcast :: "(nat \<Rightarrow> nat \<times> nat) \<Rightarrow> bytes \<Rightarrow> client list \<Rightarrow> client list" where
  "broadcast rd b clients = map (\<lambda>c. push (rd (cl_id c)) b c) clients"

section \<open>The server\<close>

text \<open>
  What the goroutines share: the board the read model would return now, the state of the bus, the
  last snapshot that could be read, the hub; and the frames of \<open>Publish\<close> calls that are
  marshalled and not yet broadcast.
\<close>

record web =
  wb_board :: "Board option"
  wb_connected :: bool
  wb_lastGood :: Snapshot
  wb_hub :: "client list"
  wb_next :: nat
  wb_inflight :: "bytes list"

definition NewServer :: web where
  "NewServer = \<lparr>wb_board = None, wb_connected = True, wb_lastGood = ToSnapshot None, wb_hub = [], wb_next = 0, wb_inflight = []\<rparr>"

definition web_snapshot :: "error + Board option \<Rightarrow> web \<Rightarrow> Snapshot \<times> web" where
  "web_snapshot r s =
     (case r of
        Inl e \<Rightarrow> (WithConnection (wb_lastGood s) (wb_connected s), s)
      | Inr b \<Rightarrow> (WithConnection (ToSnapshot b) (wb_connected s), s\<lparr>wb_lastGood := ToSnapshot b\<rparr>))"

definition read_board :: "bool \<Rightarrow> web \<Rightarrow> error + Board option" where
  "read_board fails s = (if fails then Inl SqlError else Inr (wb_board s))"

text \<open>\<open>Publish\<close> in its two halves: the snapshot with its encoding, and the broadcast.\<close>

definition publish_begin :: "(Snapshot \<Rightarrow> bytes option) \<Rightarrow> bool \<Rightarrow> web \<Rightarrow> web" where
  "publish_begin enc fails s =
     (case web_snapshot (read_board fails s) s of (snap, s1) \<Rightarrow>
        (case enc snap of None \<Rightarrow> s1 | Some b \<Rightarrow> s1\<lparr>wb_inflight := wb_inflight s1 @ [b]\<rparr>))"

definition publish_end :: "nat \<Rightarrow> (nat \<Rightarrow> nat \<times> nat) \<Rightarrow> web \<Rightarrow> web" where
  "publish_end k rd s =
     (if k < length (wb_inflight s)
      then s\<lparr>wb_hub := broadcast rd (wb_inflight s ! k) (wb_hub s), wb_inflight := take k (wb_inflight s) @ drop (Suc k) (wb_inflight s)\<rparr>
      else s)"

text \<open>One turn of \<open>handleEvents\<close>: the greeting first, then a frame.\<close>

definition client_turn :: "bytes option \<Rightarrow> client \<Rightarrow> client" where
  "client_turn greeting c =
     (if \<not> cl_greeted c
      then c\<lparr>cl_greeted := True, cl_out := cl_out c @ (case greeting of None \<Rightarrow> [] | Some b \<Rightarrow> [writeSSE b])\<rparr>
      else take_frame c)"

definition handleEvents :: "(Snapshot \<Rightarrow> bytes option) \<Rightarrow> nat \<Rightarrow> bool \<Rightarrow> web \<Rightarrow> web" where
  "handleEvents enc i fails s =
     (if \<exists>c \<in> set (wb_hub s). cl_id c = i \<and> \<not> cl_greeted c
      then (case web_snapshot (read_board fails s) s of (snap, s1) \<Rightarrow>
              s1\<lparr>wb_hub := map (\<lambda>c. if cl_id c = i then client_turn (enc snap) c else c) (wb_hub s1)\<rparr>)
      else s\<lparr>wb_hub := map (\<lambda>c. if cl_id c = i then client_turn None c else c) (wb_hub s)\<rparr>)"

datatype web_event =
    BoardChanged "Board option"          \<comment> \<open>the consumer applied an event\<close>
  | BusState bool                        \<comment> \<open>the supervisor's callback stores the flag\<close>
  | BeginPublish bool                    \<comment> \<open>does the read fail\<close>
  | EndPublish nat "nat \<Rightarrow> nat \<times> nat"   \<comment> \<open>which call, and the readers meanwhile\<close>
  | Connect
  | ClientTurn nat bool
  | Disconnect nat

fun web_step :: "(Snapshot \<Rightarrow> bytes option) \<Rightarrow> web \<Rightarrow> web_event \<Rightarrow> web" where
  "web_step enc s (BoardChanged b) = s\<lparr>wb_board := b\<rparr>"
| "web_step enc s (BusState c) = s\<lparr>wb_connected := c\<rparr>"
| "web_step enc s (BeginPublish fails) = publish_begin enc fails s"
| "web_step enc s (EndPublish k rd) = publish_end k rd s"
| "web_step enc s Connect = s\<lparr>wb_hub := hub_add (wb_next s) (wb_hub s), wb_next := Suc (wb_next s)\<rparr>"
| "web_step enc s (ClientTurn i fails) = handleEvents enc i fails s"
| "web_step enc s (Disconnect i) = s\<lparr>wb_hub := hub_remove i (wb_hub s)\<rparr>"

definition web_run :: "(Snapshot \<Rightarrow> bytes option) \<Rightarrow> web_event list \<Rightarrow> web \<Rightarrow> web" where
  "web_run enc es s = foldl (web_step enc) s es"

section \<open>Lap times\<close>

text \<open>The three parts of a rendered lap time add up to the time.\<close>

lemma formatLapTime_reads_back:
  assumes "0 \<le> ms"
  shows "\<exists>m s f. formatLapTime ms = itoa m @ '':'' @ s @ ''.'' @ f \<and> length s = 2 \<and> length f = 3
    \<and> list_all isDigit s \<and> list_all isDigit f \<and> m * 60000 + numOf s * 1000 + numOf f = ms"
proof -
  have f: "formatLapTime ms = itoa (ms div 60000) @ '':'' @ padInt 2 (ms mod 60000 div 1000) @ ''.'' @ padInt 3 (ms mod 1000)"
    using assms by (simp add: formatLapTime_def Let_def)
  have r: "0 \<le> ms mod 60000 div 1000" "ms mod 60000 div 1000 < 10 ^ 2" "0 \<le> ms mod 1000" "ms mod 1000 < 10 ^ 3" by auto
  have sum: "ms div 60000 * 60000 + ms mod 60000 div 1000 * 1000 + ms mod 1000 = ms"
    using mod_mod_cancel [of 1000 60000 ms, simplified] div_mult_mod_eq [of "ms mod 60000" 1000] div_mult_mod_eq [of ms 60000] by linarith
  have "0 < (2 :: nat)" "0 < (3 :: nat)" by simp_all
  note p = padInt_ok [OF r(1,2) this(1)] padInt_ok [OF r(3,4) this(2)]
  show ?thesis unfolding f
    by (intro exI [of _ "ms div 60000"] exI [of _ "padInt 2 (ms mod 60000 div 1000)"] exI [of _ "padInt 3 (ms mod 1000)"])
      (simp only: p sum simp_thms)
qed

section \<open>The newest frame is never lost\<close>

definition newest :: "bytes \<Rightarrow> client \<Rightarrow> bool" where
  "newest b c \<longleftrightarrow> (if cl_ch c = [] then cl_greeted c \<and> cl_out c \<noteq> [] \<and> last (cl_out c) = writeSSE b else last (cl_ch c) = b)"

lemma take_frame_fields [simp]:
  "cl_id (take_frame c) = cl_id c" "cl_greeted (take_frame c) = cl_greeted c" "length (cl_ch (take_frame c)) \<le> length (cl_ch c)"
  by (simp_all add: take_frame_def)

lemma take_frames_fields [simp]:
  "cl_id ((take_frame ^^ n) c) = cl_id c" "length (cl_ch ((take_frame ^^ n) c)) \<le> length (cl_ch c)"
  by (induction n) (auto intro: order_trans [OF take_frame_fields(3)])

lemma take_frame_newest: "newest b c \<Longrightarrow> newest b (take_frame c)"
  by (cases "cl_ch c") (auto simp: newest_def take_frame_def)

lemma push_newest:
  assumes "length (cl_ch c) \<le> chan_cap"
  shows "cl_id (push r b c) = cl_id c \<and> length (cl_ch (push r b c)) \<le> chan_cap \<and> newest b (push r b c)"
proof (cases "length (cl_ch c) < chan_cap")
  case False
  let ?c1 = "(take_frame ^^ fst r) c"
  let ?c2 = "?c1\<lparr>cl_ch := tl (cl_ch ?c1)\<rparr>"
  let ?c3 = "(take_frame ^^ snd r) ?c2"
  have "length (cl_ch ?c3) \<le> length (cl_ch ?c2)" by (rule take_frames_fields(2))
  also have "\<dots> \<le> length (cl_ch ?c1) - 1" by simp
  also have "\<dots> \<le> length (cl_ch c) - 1" by (rule diff_le_mono) simp
  also have "\<dots> < chan_cap" using assms by (simp add: chan_cap_def)
  finally have "length (cl_ch ?c3) < chan_cap" .
  then have "push r b c = ?c3\<lparr>cl_ch := cl_ch ?c3 @ [b]\<rparr>" using False by (simp add: push_def try_send_def Let_def)
  then show ?thesis using \<open>length (cl_ch ?c3) < chan_cap\<close> by (simp add: newest_def)
qed (simp add: push_def try_send_def newest_def)

text \<open>What a turn leaves to do for a client: the greeting and the frames in its channel.\<close>

definition todo :: "client \<Rightarrow> nat" where
  "todo c = length (cl_ch c) + (if cl_greeted c then 0 else 1)"

lemma client_turn_facts:
  "cl_id (client_turn g c) = cl_id c" "length (cl_ch (client_turn g c)) \<le> length (cl_ch c)"
  "newest b c \<Longrightarrow> newest b (client_turn g c)" "todo (client_turn g c) = todo c - 1"
  by (cases "cl_ch c"; auto simp: client_turn_def newest_def todo_def take_frame_def)+

lemma web_snapshot_keeps [simp]:
  "wb_hub (snd (web_snapshot r s)) = wb_hub s" "wb_inflight (snd (web_snapshot r s)) = wb_inflight s"
  by (simp_all add: web_snapshot_def split: sum.splits)

lemma publish_begin_keeps [simp]: "wb_hub (publish_begin enc fails s) = wb_hub s"
  by (simp add: publish_begin_def split_beta split: option.splits)

lemma handleEvents_turns:
  "\<exists>g. wb_hub (handleEvents enc i fails s) = map (\<lambda>c. if cl_id c = i then client_turn g c else c) (wb_hub s)"
  by (simp add: handleEvents_def split_beta) blast

text \<open>Buffers stay within their capacity.\<close>

definition hub_ok :: "web \<Rightarrow> bool" where
  "hub_ok s \<longleftrightarrow> (\<forall>c \<in> set (wb_hub s). length (cl_ch c) \<le> chan_cap)"

lemma hub_ok_step: "hub_ok s \<Longrightarrow> hub_ok (web_step enc s e)"
proof (cases e)
  case (EndPublish k rd)
  assume "hub_ok s"
  then show ?thesis using EndPublish push_newest by (auto simp: hub_ok_def publish_end_def broadcast_def)
next
  case (ClientTurn i fails)
  obtain g where "wb_hub (handleEvents enc i fails s) = map (\<lambda>c. if cl_id c = i then client_turn g c else c) (wb_hub s)"
    using handleEvents_turns by blast
  moreover assume "hub_ok s"
  ultimately show ?thesis using ClientTurn client_turn_facts(2) by (fastforce simp: hub_ok_def intro: order_trans)
qed (auto simp: hub_ok_def hub_add_def hub_remove_def)

lemma hub_ok_run: "hub_ok s \<Longrightarrow> hub_ok (web_run enc es s)"
  unfolding web_run_def by (induction es arbitrary: s) (simp_all add: hub_ok_step)

text \<open>Events after which a client's newest frame is still the one of the last broadcast.\<close>

fun calm :: "nat \<Rightarrow> web_event \<Rightarrow> bool" where
  "calm i (EndPublish k rd) = False"
| "calm i (Disconnect j) = (j \<noteq> i)"
| "calm i _ = True"

definition turns :: "nat \<Rightarrow> web_event list \<Rightarrow> nat" where
  "turns i es = length (filter (\<lambda>e. case e of ClientTurn j f \<Rightarrow> j = i | _ \<Rightarrow> False) es)"

lemma calm_step:
  assumes "c \<in> set (wb_hub s)" "cl_id c = i" "newest b c" "calm i e"
  shows "\<exists>c' \<in> set (wb_hub (web_step enc s e)). cl_id c' = i \<and> newest b c' \<and> todo c' = todo c - turns i [e]"
proof (cases e)
  case (ClientTurn j fails)
  obtain g where g: "wb_hub (handleEvents enc j fails s) = map (\<lambda>c. if cl_id c = j then client_turn g c else c) (wb_hub s)"
    using handleEvents_turns by blast
  have "(if cl_id c = j then client_turn g c else c) \<in> set (wb_hub (web_step enc s e))" using assms(1) by (simp add: ClientTurn g)
  then show ?thesis by (rule rev_bexI) (use assms in \<open>auto simp: ClientTurn turns_def client_turn_facts\<close>)
qed (use assms in \<open>auto simp: turns_def hub_add_def hub_remove_def\<close>)

lemma calm_run:
  assumes "c \<in> set (wb_hub s)" "cl_id c = i" "newest b c" "list_all (calm i) es"
  shows "\<exists>c' \<in> set (wb_hub (web_run enc es s)). cl_id c' = i \<and> newest b c' \<and> todo c' = todo c - turns i es"
  using assms
proof (induction es arbitrary: s c)
  case Nil
  then show ?case by (auto simp: web_run_def turns_def)
next
  case (Cons e es)
  then obtain c1 where c1: "c1 \<in> set (wb_hub (web_step enc s e))" "cl_id c1 = i" "newest b c1" "todo c1 = todo c - turns i [e]"
    using calm_step [of c s i b e enc] by auto
  have "turns i (e # es) = turns i [e] + turns i es" by (simp add: turns_def)
  with Cons.IH [OF c1(1-3)] Cons.prems(4) c1(4) show ?case by (auto simp: web_run_def)
qed

text \<open>C40: A change is pushed to every browser. However the goroutines ran before, when no other \<open>Publish\<close>
  is under way, a \<open>Publish\<close> whose read succeeds makes the current board, with the current state of the
  bus, the newest frame of every connected browser, even of a slow one whose buffer was full and
  whose reader interferes; no buffer ever holds more than eight frames. Until the next broadcast it
  stays the newest, and after at most nine turns of the browser's handler it is the last frame written
  to it.\<close>

theorem publish_reaches_every_client:
  assumes "s = web_run enc es NewServer" and "wb_inflight s = []"
    and "enc (WithConnection (ToSnapshot (wb_board s)) (wb_connected s)) = Some frame"
    and "i \<in> cl_id ` set (wb_hub s)" and "list_all (calm i) es'"
    and "s' = web_run enc (BeginPublish False # EndPublish 0 rd # es') s"
  shows "(\<forall>c \<in> set (wb_hub s'). length (cl_ch c) \<le> 8)
    \<and> (\<exists>c \<in> set (wb_hub s'). cl_id c = i \<and> newest frame c \<and> (9 \<le> turns i es' \<longrightarrow> cl_ch c = [] \<and> last (cl_out c) = writeSSE frame))"
proof
  have ok: "hub_ok s" unfolding assms(1) by (rule hub_ok_run) (simp add: hub_ok_def NewServer_def)
  from hub_ok_run [OF ok] show "\<forall>c \<in> set (wb_hub s'). length (cl_ch c) \<le> 8" unfolding assms(6) hub_ok_def chan_cap_def by simp
  let ?s2 = "web_step enc (web_step enc s (BeginPublish False)) (EndPublish 0 rd)"
  have hub: "wb_hub ?s2 = broadcast rd frame (wb_hub s)"
    using assms(2,3) by (simp add: publish_begin_def web_snapshot_def read_board_def publish_end_def)
  obtain c where c: "c \<in> set (wb_hub s)" "cl_id c = i" using assms(4) by blast
  let ?c = "push (rd i) frame c"
  have p: "cl_id ?c = i" "length (cl_ch ?c) \<le> chan_cap" "newest frame ?c" using push_newest [of c] ok c by (auto simp: hub_ok_def)
  have "?c \<in> set (wb_hub ?s2)" unfolding hub broadcast_def using c by auto
  from calm_run [OF this p(1,3) assms(5), of enc] obtain c' where
    c': "c' \<in> set (wb_hub s')" "cl_id c' = i" "newest frame c'" "todo c' = todo ?c - turns i es'"
    by (auto simp: assms(6) web_run_def)
  have "todo ?c \<le> 9" using p(2) by (simp add: todo_def chan_cap_def)
  then have "9 \<le> turns i es' \<longrightarrow> cl_ch c' = []" using c'(4) by (auto simp: todo_def split: if_splits)
  then show "\<exists>c \<in> set (wb_hub s'). cl_id c = i \<and> newest frame c \<and> (9 \<le> turns i es' \<longrightarrow> cl_ch c = [] \<and> last (cl_out c) = writeSSE frame)"
    using c'(1-3) by (auto simp: newest_def)
qed

definition demo_enc :: "Snapshot \<Rightarrow> bytes option" where
  "demo_enc s = Some (sn_Connection s)"

theorem publish_reaches_every_client_witness:
  "let s = web_run demo_enc [Connect, BusState False] NewServer;
       s' = web_run demo_enc (BeginPublish False # EndPublish 0 (\<lambda>i. (0, 0)) # replicate 9 (ClientTurn 0 False)) s
   in \<exists>c \<in> set (wb_hub s'). cl_id c = 0 \<and> last (cl_out c) = writeSSE ''reconnecting''"
proof -
  let ?s = "web_run demo_enc [Connect, BusState False] NewServer"
  have "wb_inflight ?s = []" "demo_enc (WithConnection (ToSnapshot (wb_board ?s)) (wb_connected ?s)) = Some ''reconnecting''"
    "0 \<in> cl_id ` set (wb_hub ?s)" "list_all (calm 0) (replicate 9 (ClientTurn 0 False))" "9 \<le> turns 0 (replicate 9 (ClientTurn 0 False))"
    by (simp_all add: web_run_def NewServer_def demo_enc_def WithConnection_def ConnectionReconnecting_def hub_add_def turns_def list_all_iff)
  from publish_reaches_every_client [OF refl this(1-4) refl] this(5) show ?thesis by (auto simp: Let_def)
qed

text \<open>
  The snapshot and its broadcast are not one critical section, and two goroutines call \<open>Publish\<close>: the
  consumer after a lap and the supervisor when the bus is lost. A call that read the flag before the
  loss may broadcast after the one that reports it. All calls are done and every frame is read, and
  the last one says the board is live while the bus is down.
\<close>

lemma overlapping_publishes_hide_an_outage:
  "let s = web_run demo_enc [Connect, ClientTurn 0 False, BeginPublish False, BusState False, BeginPublish False,
             EndPublish 1 (\<lambda>i. (0, 0)), EndPublish 0 (\<lambda>i. (0, 0)), ClientTurn 0 False, ClientTurn 0 False] NewServer
   in \<not> wb_connected s \<and> wb_inflight s = [] \<and> map cl_ch (wb_hub s) = [[]] \<and> map (last \<circ> cl_out) (wb_hub s) = [writeSSE ConnectionLive]"
  by (simp add: web_run_def NewServer_def hub_add_def handleEvents_def client_turn_def take_frame_def publish_begin_def publish_end_def broadcast_def
      push_def try_send_def chan_cap_def web_snapshot_def read_board_def demo_enc_def WithConnection_def)

end
