(* ===== verification/Heartbeat.thy ===== *)
theory Heartbeat
  imports Envelopes
begin

text \<open>
  The heartbeat emitter (libs/go-pitwall/heartbeat/heartbeat.go): one beat builds, validates, encodes
  and publishes the envelope and then touches the liveness file, each step only when the one before
  succeeded. The loop is a function of what its select takes. The file is a map entry: its content
  and the time of its last write.
\<close>

record Emitter =
  em_LivenessFile :: string
  em_Build :: "int \<Rightarrow> Envelope"
  em_Validate :: "Envelope \<Rightarrow> bool"

record host =
  h_files :: "string \<rightharpoonup> string"
  h_published :: "(string \<times> bytes) list"
  h_log :: "string list"          \<comment> \<open>the error lines\<close>

text \<open>\<open>os.WriteFile\<close> of the timestamp; \<open>None\<close> when it fails.\<close>

definition touch :: "string \<Rightarrow> int \<Rightarrow> bool \<Rightarrow> host \<Rightarrow> host option" where
  "touch path t written h =
     (if written then Some (h\<lparr>h_files := (h_files h)(path \<mapsto> FormatWireTime t @ [CHR 0x0A])\<rparr>) else None)"

text \<open>What the world answers during a beat: did the publish and the write succeed.\<close>

definition emitOnce :: "json_codec \<Rightarrow> Emitter \<Rightarrow> int \<Rightarrow> bool \<Rightarrow> bool \<Rightarrow> host \<Rightarrow> host" where
  "emitOnce cd e t sent written h =
     (let env = em_Build e t
      in if \<not> em_Validate e env then h\<lparr>h_log := h_log h @ [''dropping invalid heartbeat'']\<rparr>
         else (case Marshal cd env of
           None \<Rightarrow> h\<lparr>h_log := h_log h @ [''failed to marshal heartbeat'']\<rparr>
         | Some body \<Rightarrow>
             if \<not> sent then h\<lparr>h_log := h_log h @ [''failed to publish heartbeat'']\<rparr>
             else let h1 = h\<lparr>h_published := h_published h @ [(HeartbeatRoutingKey, body)]\<rparr>
                  in (case touch (em_LivenessFile e) t written h1 of
                        None \<Rightarrow> h1\<lparr>h_log := h_log h1 @ [''failed to update liveness file'']\<rparr>
                      | Some h2 \<Rightarrow> h2)))"

datatype beat = Tick int bool bool | HeartbeatStop

text \<open>The loop after the beat at the start; \<open>True\<close> when it returned.\<close>

fun beats :: "json_codec \<Rightarrow> Emitter \<Rightarrow> beat list \<Rightarrow> host \<Rightarrow> bool \<times> host" where
  "beats cd e [] h = (False, h)"
| "beats cd e (HeartbeatStop # bs) h = (True, h)"
| "beats cd e (Tick t sent written # bs) h = beats cd e bs (emitOnce cd e t sent written h)"

definition Emitter_Run :: "json_codec \<Rightarrow> Emitter \<Rightarrow> int \<Rightarrow> bool \<Rightarrow> bool \<Rightarrow> beat list \<Rightarrow> host \<Rightarrow> bool \<times> host" where
  "Emitter_Run cd e t0 sent written bs h = beats cd e bs (emitOnce cd e t0 sent written h)"

section \<open>The liveness file is honest\<close>

text \<open>A beat that reaches the file has been published, and nothing else touches the file.\<close>

lemma emitOnce_honest:
  assumes "h' = emitOnce cd e t sent written h"
  shows "h_files h' = h_files h \<or>
    h_files h' = (h_files h)(em_LivenessFile e \<mapsto> FormatWireTime t @ [CHR 0x0A])
      \<and> (\<exists>body. Marshal cd (em_Build e t) = Some body \<and> em_Validate e (em_Build e t) \<and> h_published h' = h_published h @ [(HeartbeatRoutingKey, body)])"
  using assms by (auto simp: emitOnce_def touch_def Let_def split: option.splits)

lemma emitOnce_beats:
  assumes "em_Validate e (em_Build e t)" "Marshal cd (em_Build e t) = Some body"
  shows "h_files (emitOnce cd e t True True h) = (h_files h)(em_LivenessFile e \<mapsto> FormatWireTime t @ [CHR 0x0A])"
  using assms by (simp add: emitOnce_def touch_def Let_def)

text \<open>While the bus is down the file keeps the time of the last beat that was published.\<close>

lemma beats_stale:
  assumes "\<forall>b \<in> set bs. case b of Tick t sent written \<Rightarrow> \<not> sent | HeartbeatStop \<Rightarrow> True"
  shows "h_files (snd (beats cd e bs h)) = h_files h \<and> h_published (snd (beats cd e bs h)) = h_published h"
  using assms
proof (induction bs arbitrary: h)
  case (Cons b bs)
  have "h_files (emitOnce cd e t False written h) = h_files h" "h_published (emitOnce cd e t False written h) = h_published h" for t written h
    by (simp_all add: emitOnce_def Let_def split: option.splits)
  with Cons show ?case by (cases b) simp_all
qed simp

end
