(* ===== verification/Board_Log.thy ===== *)
theory Board_Log
  imports Leaderboard_Service
begin

text \<open>
  What a run of the Leaderboard consumer leaves in the database: the fold of the events it applied, one
  per new row of the inbox, each decoded from a message it was delivered
  (services/leaderboard/internal/consumer, internal/persistence). The other direction too: while no
  statement fails, a delivered message that validates, decodes and names its session is in the inbox, and the
  tables are a function of the deliveries: each message the handler can read counts once, when it first comes.
\<close>

section \<open>The log of a run\<close>

text \<open>The event a decoded message stands for; a lap gets the number the handler gave it.\<close>

inductive stands_for :: "json_codec \<Rightarrow> IncomingEnvelope \<Rightarrow> lb_event \<Rightarrow> bool" for cd env where
  lap: "Type env = LapRecordedRoutingKey \<Longrightarrow> UnmarshalLap cd (Data env) = Some l \<Longrightarrow>
    stands_for cd env (ELap (lap_SessionID l) \<lparr>l_MasterID = lap_MasterID l, l_LapTimeMs = lap_LapTimeMs l, l_At = lap_At l, l_Seq = n\<rparr>)"
| started: "Type env = SessionStartedRoutingKey \<Longrightarrow> UnmarshalStarted cd (Data env) = Some s \<Longrightarrow>
    stands_for cd env (EStarted (st_SessionID s) (st_StartedAt s))"
| ended: "Type env = SessionEndedRoutingKey \<Longrightarrow> UnmarshalEnded cd (Data env) = Some e \<Longrightarrow>
    stands_for cd env (EEnded (en_SessionID e) (en_EndedAt e))"

text \<open>One delivery changes nothing, or applies the event it carries and records its id, once.\<close>

definition logs :: "json_codec \<Rightarrow> bytes \<Rightarrow> leaderboard_db \<Rightarrow> leaderboard_db \<Rightarrow> bool" where
  "logs cd b d d' \<longleftrightarrow> lb_tables d' = lb_tables d
     \<or> (\<exists>env ev r n. UnmarshalEnvelope cd b = Some env \<and> stands_for cd env ev \<and> in_id r = ID env
          \<and> d' = (event_db ev d)\<lparr>inbox := inbox d @ [r], ingest_seq := n\<rparr>)"

lemma reads_seq [simp]:
  "known (d\<lparr>ingest_seq := n\<rparr>) s = known d s" "best_of (d\<lparr>ingest_seq := n\<rparr>) s m = best_of d s m" "next_epoch (d\<lparr>ingest_seq := n\<rparr>) = next_epoch d"
  by (simp_all add: known_def best_of_def next_epoch_def)

lemma writes_seq [simp]:
  "ensure_db s st a e (d\<lparr>ingest_seq := n\<rparr>) = (ensure_db s st a e d)\<lparr>ingest_seq := n\<rparr>"
  "put_best s b (d\<lparr>ingest_seq := n\<rparr>) = (put_best s b d)\<lparr>ingest_seq := n\<rparr>"
  by (simp add: ensure_db_def) (auto simp: put_best_def)

lemma event_db_seq [simp]: "event_db ev (d\<lparr>ingest_seq := n\<rparr>) = (event_db ev d)\<lparr>ingest_seq := n\<rparr>"
  by (cases ev) (simp_all add: Let_def)

lemma seq_event_db [simp]: "ingest_seq (event_db ev d) = ingest_seq d"
  by (cases ev) (simp_all add: Let_def ensure_db_def put_best_def)

lemma lb_tables_simps [simp]: "lb_tables (d\<lparr>ingest_seq := n\<rparr>) = lb_tables d"
  by (simp add: lb_tables_def)

lemma settle_db: "db (snd (settle h d r ora w)) = db w"
  by (auto simp: settle_def leaderboard_retryOrPark_def leaderboard_park_def bindE_def sendE_def emitE_def ack_def nack_def whenE_def retE_def Let_def
      split: sum.split prod.split)

lemma leaderboard_park_db: "db (snd (leaderboard_park h d reason ora w)) = db w"
  by (auto simp: leaderboard_park_def bindE_def sendE_def emitE_def ack_def nack_def retE_def)

lemma applied_logs:
  assumes "stands_for cd env ev" "UnmarshalEnvelope cd (dv_Body d) = Some env"
    and "tryE (apply_event (ID env) ty at ev) (\<lambda>r. bindE (settle h d r) (\<lambda>_. retE ())) ora w = (x, w')"
    and "db w = d0\<lparr>ingest_seq := n\<rparr>"
  shows "logs cd (dv_Body d) d0 (db w')"
proof -
  obtain r u where r: "apply_event (ID env) ty at ev ora w = (r, u)" by fastforce
  have w': "db w' = db u"
    using assms(3) r settle_db [of h d r ora u] by (auto simp: tryE_def bindE_def retE_def split: prod.splits sum.splits)
  from r show ?thesis
  proof (cases rule: apply_event_cases)
    case (applied a)
    have "db w' = (event_db ev d0)\<lparr>inbox := inbox d0 @ [\<lparr>in_id = ID env, in_type = ty, in_processed_at = at\<rparr>], ingest_seq := n\<rparr>"
      using applied(3) assms(4) w' by simp
    then show ?thesis using assms(1,2) unfolding logs_def by (metis InboxRow.select_convs(1))
  qed (use assms(4) w' in \<open>simp_all add: logs_def\<close>)
qed

lemma sessionIDOK_logs:
  assumes "bindE (sessionIDOK h d s) (\<lambda>ok. if \<not> ok then retE () else m) ora w = (x, w')"
  shows "m ora w = (x, w') \<or> db w' = db w"
proof (cases "TrimSpace s = ''''")
  case True
  obtain y u where "leaderboard_park h d ''blank-session-id'' ora w = (y, u)" by fastforce
  then show ?thesis using assms True leaderboard_park_db [of h d "''blank-session-id''" ora w]
    by (auto simp: sessionIDOK_def bindE_def retE_def split: sum.splits)
next
  case False
  then show ?thesis using assms by (simp add: sessionIDOK_def)
qed

lemma logs_refl [simp]: "logs cd b d d"
  by (simp add: logs_def)

lemma processLap_logs:
  assumes "processLap cd h d env ora w = (x, w')" "Type env = LapRecordedRoutingKey" "UnmarshalEnvelope cd (dv_Body d) = Some env"
  shows "logs cd (dv_Body d) (db w) (db w')"
proof (cases "UnmarshalLap cd (Data env)")
  case None
  then show ?thesis using assms(1) leaderboard_park_db [of h d "''undecodable-data''" ora w] by (simp add: processLap_def DecodeLapRecorded_def)
next
  case (Some data)
  define m where "m = bindE next_seq (\<lambda>seq. bindE nowE (\<lambda>now.
            tryE (ApplyLap (ID env) (Type env) (FormatWireTime now) (lap_SessionID data)
                    \<lparr>l_MasterID = lap_MasterID data, l_LapTimeMs = lap_LapTimeMs data, l_At = lap_At data, l_Seq = seq\<rparr>)
              (\<lambda>r. bindE (settle h d r) (\<lambda>_. retE ()))))"
  have "logs cd (dv_Body d) (db w) (db w')" if "m ora w = (x, w')"
  proof (rule applied_logs [OF stands_for.lap [OF assms(2) Some] assms(3)])
    show "tryE (apply_event (ID env) (Type env) (FormatWireTime (o_clk ora (tick w))) (ELap (lap_SessionID data)
        \<lparr>l_MasterID = lap_MasterID data, l_LapTimeMs = lap_LapTimeMs data, l_At = lap_At data, l_Seq = wrap64 (ingest_seq (db w) + 1)\<rparr>))
      (\<lambda>r. bindE (settle h d r) (\<lambda>_. retE ())) ora (tock (w\<lparr>db := (db w)\<lparr>ingest_seq := wrap64 (ingest_seq (db w) + 1)\<rparr>\<rparr>)) = (x, w')"
      using that by (simp add: m_def bindE_def next_seq_def memE_def nowE_def Let_def)
  qed simp
  moreover have "bindE (sessionIDOK h d (lap_SessionID data)) (\<lambda>ok. if \<not> ok then retE () else m) ora w = (x, w')"
    using assms(1) Some by (simp add: processLap_def DecodeLapRecorded_def m_def cong: if_cong)
  ultimately show ?thesis using sessionIDOK_logs by (metis logs_refl)
qed

lemma same_seq: "d = d\<lparr>ingest_seq := ingest_seq d\<rparr>"
  by simp

lemma some_seq: "\<exists>n. d = d\<lparr>ingest_seq := n\<rparr>"
  using same_seq by blast

lemma processSessionStarted_logs:
  assumes "processSessionStarted cd h d env ora w = (x, w')" "Type env = SessionStartedRoutingKey" "UnmarshalEnvelope cd (dv_Body d) = Some env"
  shows "logs cd (dv_Body d) (db w) (db w')"
proof (cases "UnmarshalStarted cd (Data env)")
  case None
  then show ?thesis using assms(1) leaderboard_park_db [of h d "''undecodable-data''" ora w] by (simp add: processSessionStarted_def DecodeSessionStarted_def)
next
  case (Some data)
  define m where "m = bindE nowE (\<lambda>now. tryE (ApplySessionStarted (ID env) (Type env) (FormatWireTime now) (st_SessionID data) (st_StartedAt data))
              (\<lambda>r. bindE (settle h d r) (\<lambda>_. retE ())))"
  have "logs cd (dv_Body d) (db w) (db w')" if "m ora w = (x, w')"
  proof (rule applied_logs [OF stands_for.started [OF assms(2) Some] assms(3)])
    show "tryE (apply_event (ID env) (Type env) (FormatWireTime (o_clk ora (tick w))) (EStarted (st_SessionID data) (st_StartedAt data)))
      (\<lambda>r. bindE (settle h d r) (\<lambda>_. retE ())) ora (tock w) = (x, w')"
      using that by (simp add: m_def bindE_def nowE_def)
  qed (simp, rule same_seq)
  moreover have "bindE (sessionIDOK h d (st_SessionID data)) (\<lambda>ok. if \<not> ok then retE () else m) ora w = (x, w')"
    using assms(1) Some by (simp add: processSessionStarted_def DecodeSessionStarted_def m_def cong: if_cong)
  ultimately show ?thesis using sessionIDOK_logs by (metis logs_refl)
qed

lemma processSessionEnded_logs:
  assumes "processSessionEnded cd h d env ora w = (x, w')" "Type env = SessionEndedRoutingKey" "UnmarshalEnvelope cd (dv_Body d) = Some env"
  shows "logs cd (dv_Body d) (db w) (db w')"
proof (cases "UnmarshalEnded cd (Data env)")
  case None
  then show ?thesis using assms(1) leaderboard_park_db [of h d "''undecodable-data''" ora w] by (simp add: processSessionEnded_def DecodeSessionEnded_def)
next
  case (Some data)
  define m where "m = bindE nowE (\<lambda>now. tryE (ApplySessionEnded (ID env) (Type env) (FormatWireTime now) (en_SessionID data) (en_EndedAt data))
              (\<lambda>r. bindE (settle h d r) (\<lambda>_. retE ())))"
  have "logs cd (dv_Body d) (db w) (db w')" if "m ora w = (x, w')"
  proof (rule applied_logs [OF stands_for.ended [OF assms(2) Some] assms(3)])
    show "tryE (apply_event (ID env) (Type env) (FormatWireTime (o_clk ora (tick w))) (EEnded (en_SessionID data) (en_EndedAt data)))
      (\<lambda>r. bindE (settle h d r) (\<lambda>_. retE ())) ora (tock w) = (x, w')"
      using that by (simp add: m_def bindE_def nowE_def)
  qed (simp, rule same_seq)
  moreover have "bindE (sessionIDOK h d (en_SessionID data)) (\<lambda>ok. if \<not> ok then retE () else m) ora w = (x, w')"
    using assms(1) Some by (simp add: processSessionEnded_def DecodeSessionEnded_def m_def cong: if_cong)
  ultimately show ?thesis using sessionIDOK_logs by (metis logs_refl)
qed

lemma leaderboard_Process_logs:
  assumes "leaderboard_Process cd h d ora w = (x, w')"
  shows "logs cd (dv_Body d) (db w) (db w')"
proof (cases "lb_Validate h (dv_Body d)")
  case (Some e)
  then show ?thesis using assms leaderboard_park_db [of h d "''contract-invalid''" ora w] by (simp add: leaderboard_Process_def)
next
  case valid: None
  show ?thesis
  proof (cases "UnmarshalEnvelope cd (dv_Body d)")
    case None
    then show ?thesis using assms valid leaderboard_park_db [of h d "''undecodable-envelope''" ora w]
      by (simp add: leaderboard_Process_def DecodeIncoming_def)
  next
    case (Some env)
    then show ?thesis using assms valid processLap_logs processSessionStarted_logs processSessionEnded_logs
      by (auto simp: leaderboard_Process_def DecodeIncoming_def ack_def emitE_def split: if_splits)
  qed
qed

lemma foldl_event_seq [simp]:
  "foldl (\<lambda>d ev. event_db ev d) (d\<lparr>ingest_seq := n\<rparr>) evs = (foldl (\<lambda>d ev. event_db ev d) d evs)\<lparr>ingest_seq := n\<rparr>"
  by (induction evs arbitrary: d) simp_all

lemma lb_tables_eq: "lb_tables d' = lb_tables d \<longleftrightarrow> d' = d\<lparr>ingest_seq := ingest_seq d'\<rparr>"
  by (cases d; cases d') (auto simp: lb_tables_def)

text \<open>What a run leaves is the fold of the events it applied, whose ids are the new inbox rows; each event
  stands in a message the run was delivered.\<close>

lemma consumer_run_log:
  "consumer_run (leaderboard_Process cd h) evs ora w = (x, w') \<Longrightarrow>
   \<exists>log rs n. db w' = (foldl (\<lambda>d ev. event_db ev d) (db w) (map snd log))\<lparr>inbox := inbox (db w) @ rs, ingest_seq := n\<rparr>
     \<and> map in_id rs = map (ID \<circ> fst) log
     \<and> (\<forall>(env, ev)\<in>set log. stands_for cd env ev \<and> (\<exists>d\<in>set (taken evs). UnmarshalEnvelope cd (dv_Body d) = Some env))"
proof (induction evs arbitrary: w rule: taken.induct)
  case (4 d evs)
  obtain r u where p: "leaderboard_Process cd h d ora w = (r, u)" by fastforce
  then have "r = Inr ()" using leaderboard_Process_done by blast
  with p 4(2) have run: "consumer_run (leaderboard_Process cd h) evs ora u = (x, w')" by (simp add: bindE_def)
  from 4(1) [OF this] obtain log rs n where ih: "db w' = (foldl (\<lambda>d ev. event_db ev d) (db u) (map snd log))\<lparr>inbox := inbox (db u) @ rs, ingest_seq := n\<rparr>"
    "map in_id rs = map (ID \<circ> fst) log"
    "\<forall>(env, ev)\<in>set log. stands_for cd env ev \<and> (\<exists>d\<in>set (taken evs). UnmarshalEnvelope cd (dv_Body d) = Some env)" by blast
  from leaderboard_Process_logs [OF p] consider (same) k where "db u = (db w)\<lparr>ingest_seq := k\<rparr>"
    | (more) env ev row k where "UnmarshalEnvelope cd (dv_Body d) = Some env" "stands_for cd env ev" "in_id row = ID env"
        "db u = (event_db ev (db w))\<lparr>inbox := inbox (db w) @ [row], ingest_seq := k\<rparr>"
    unfolding logs_def lb_tables_eq by blast
  then show ?case
  proof cases
    case same
    then show ?thesis using ih by (intro exI [of _ log] exI [of _ rs] exI [of _ n]) auto
  next
    case more
    then show ?thesis using ih by (intro exI [of _ "(env, ev) # log"] exI [of _ "row # rs"] exI [of _ n]) auto
  qed
qed (auto simp: retE_def intro!: exI [of _ "[]"] some_seq)

lemma leaderboard_Run_log:
  assumes "leaderboard_Run cd h startSeq evs ora w = (x, w')" "inbox (db w) = []"
  shows "\<exists>log n rs. db w' = (foldl (\<lambda>d ev. event_db ev d) (db w) (map snd log))\<lparr>inbox := rs, ingest_seq := n\<rparr>
     \<and> map in_id rs = map (ID \<circ> fst) log
     \<and> (\<forall>(env, ev)\<in>set log. stands_for cd env ev \<and> (\<exists>d\<in>set (taken evs). UnmarshalEnvelope cd (dv_Body d) = Some env))"
proof -
  have "consumer_run (leaderboard_Process cd h) evs ora (w\<lparr>db := (db w)\<lparr>ingest_seq := startSeq\<rparr>\<rparr>) = (x, w')"
    using assms(1) by (simp add: leaderboard_Run_def bindE_def memE_def)
  from consumer_run_log [OF this] assms(2) show ?thesis by auto
qed

section \<open>Nothing is skipped\<close>

lemma applied_seen:
  assumes "no_fault ora" "tryE (apply_event i ty at ev) (\<lambda>r. bindE (settle h d r) (\<lambda>_. retE ())) ora w = (x, w')"
  shows "i \<in> in_id ` set (inbox (db w'))"
proof -
  obtain r u where r: "apply_event i ty at ev ora w = (Inr r, u)" using apply_event_no_fault [OF assms(1)] by blast
  have "db w' = db u"
    using assms(2) r settle_db [of h d "Inr r" ora u] by (auto simp: tryE_def bindE_def retE_def split: prod.splits sum.splits)
  moreover from r have "i \<in> in_id ` set (inbox (db u))" by (cases rule: apply_event_cases) (auto simp: seen_def)
  ultimately show ?thesis by simp
qed

lemma bind_now_seq:
  "bindE nowE f ora w = f (o_clk ora (tick w)) ora (tock w)"
  "bindE next_seq g ora w = g (wrap64 (ingest_seq (db w) + 1)) ora (w\<lparr>db := (db w)\<lparr>ingest_seq := wrap64 (ingest_seq (db w) + 1)\<rparr>\<rparr>)"
  by (simp_all add: bindE_def nowE_def next_seq_def memE_def Let_def)

lemma sessionIDOK_named: "TrimSpace s \<noteq> '''' \<Longrightarrow> sessionIDOK h d s = retE True"
  by (simp add: sessionIDOK_def)

lemma leaderboard_Process_takes:
  assumes "no_fault ora" "leaderboard_Process cd h d ora w = (x, w')" "lb_Validate h (dv_Body d) = None"
    "UnmarshalEnvelope cd (dv_Body d) = Some env" "stands_for cd env ev" "TrimSpace (ev_session ev) \<noteq> ''''"
  shows "ID env \<in> in_id ` set (inbox (db w'))"
  using assms(5)
proof cases
  case (lap l n)
  have "tryE (apply_event (ID env) (Type env) (FormatWireTime (o_clk ora (tick w))) (ELap (lap_SessionID l)
        \<lparr>l_MasterID = lap_MasterID l, l_LapTimeMs = lap_LapTimeMs l, l_At = lap_At l, l_Seq = wrap64 (ingest_seq (db w) + 1)\<rparr>))
      (\<lambda>r. bindE (settle h d r) (\<lambda>_. retE ())) ora (tock (w\<lparr>db := (db w)\<lparr>ingest_seq := wrap64 (ingest_seq (db w) + 1)\<rparr>\<rparr>)) = (x, w')"
    using assms lap by (simp add: leaderboard_Process_def DecodeIncoming_def processLap_def DecodeLapRecorded_def sessionIDOK_named
        bind_now_seq)
  from applied_seen [OF assms(1) this] show ?thesis .
next
  case (started s)
  have "tryE (apply_event (ID env) (Type env) (FormatWireTime (o_clk ora (tick w))) (EStarted (st_SessionID s) (st_StartedAt s)))
      (\<lambda>r. bindE (settle h d r) (\<lambda>_. retE ())) ora (tock w) = (x, w')"
    using assms started by (simp add: leaderboard_Process_def DecodeIncoming_def processSessionStarted_def DecodeSessionStarted_def sessionIDOK_named
        bind_now_seq SessionStartedRoutingKey_def LapRecordedRoutingKey_def)
  from applied_seen [OF assms(1) this] show ?thesis .
next
  case (ended e)
  have "tryE (apply_event (ID env) (Type env) (FormatWireTime (o_clk ora (tick w))) (EEnded (en_SessionID e) (en_EndedAt e)))
      (\<lambda>r. bindE (settle h d r) (\<lambda>_. retE ())) ora (tock w) = (x, w')"
    using assms ended by (simp add: leaderboard_Process_def DecodeIncoming_def processSessionEnded_def DecodeSessionEnded_def sessionIDOK_named
        bind_now_seq SessionEndedRoutingKey_def SessionStartedRoutingKey_def LapRecordedRoutingKey_def)
  from applied_seen [OF assms(1) this] show ?thesis .
qed

lemma consumer_run_takes:
  assumes "no_fault ora" "consumer_run (leaderboard_Process cd h) evs ora w = (x, w')" "d \<in> set (taken evs)" "lb_Validate h (dv_Body d) = None"
    "UnmarshalEnvelope cd (dv_Body d) = Some env" "stands_for cd env ev" "TrimSpace (ev_session ev) \<noteq> ''''"
  shows "ID env \<in> in_id ` set (inbox (db w'))"
  using assms(2,3)
proof (induction evs arbitrary: w rule: taken.induct)
  case (4 d' evs)
  obtain r u where p: "leaderboard_Process cd h d' ora w = (r, u)" by fastforce
  then have "r = Inr ()" using leaderboard_Process_done by blast
  with p 4(2) have run: "consumer_run (leaderboard_Process cd h) evs ora u = (x, w')" by (simp add: bindE_def)
  show ?case
  proof (cases "d = d'")
    case True
    from leaderboard_Process_takes [OF assms(1) p [folded True] assms(4-7)] have "ID env \<in> in_id ` set (inbox (db u))" .
    then show ?thesis using consumer_run_log [OF run] by auto
  next
    case False
    then show ?thesis using 4 run by simp
  qed
qed simp_all

lemma leaderboard_Run_takes:
  assumes "no_fault ora" "leaderboard_Run cd h startSeq evs ora w = (x, w')" "d \<in> set (taken evs)" "lb_Validate h (dv_Body d) = None"
    "UnmarshalEnvelope cd (dv_Body d) = Some env" "stands_for cd env ev" "TrimSpace (ev_session ev) \<noteq> ''''"
  shows "ID env \<in> in_id ` set (inbox (db w'))"
proof -
  have "consumer_run (leaderboard_Process cd h) evs ora (w\<lparr>db := (db w)\<lparr>ingest_seq := startSeq\<rparr>\<rparr>) = (x, w')"
    using assms(2) by (simp add: leaderboard_Run_def bindE_def memE_def)
  from consumer_run_takes [OF assms(1) this assms(3-7)] show ?thesis .
qed

section \<open>A run as a function of its deliveries\<close>

text \<open>What the handler reads in a delivery: the envelope's id and the event, but for the number a lap gets.
  \<open>None\<close>: it is parked or acked without touching the tables.\<close>

definition heard :: "json_codec \<Rightarrow> LeaderboardHandler \<Rightarrow> Delivery \<Rightarrow> (string \<times> (int \<Rightarrow> lb_event)) option" where
  "heard cd h d =
     (if lb_Validate h (dv_Body d) \<noteq> None then None
      else case UnmarshalEnvelope cd (dv_Body d) of None \<Rightarrow> None | Some env \<Rightarrow>
        (case (if Type env = LapRecordedRoutingKey
               then map_option (\<lambda>l. (lap_SessionID l, \<lambda>n. ELap (lap_SessionID l)
                 \<lparr>l_MasterID = lap_MasterID l, l_LapTimeMs = lap_LapTimeMs l, l_At = lap_At l, l_Seq = n\<rparr>)) (UnmarshalLap cd (Data env))
               else if Type env = SessionStartedRoutingKey
               then map_option (\<lambda>s. (st_SessionID s, \<lambda>n. EStarted (st_SessionID s) (st_StartedAt s))) (UnmarshalStarted cd (Data env))
               else if Type env = SessionEndedRoutingKey
               then map_option (\<lambda>e. (en_SessionID e, \<lambda>n. EEnded (en_SessionID e) (en_EndedAt e))) (UnmarshalEnded cd (Data env))
               else None) of
           None \<Rightarrow> None
         | Some (s, ev) \<Rightarrow> if TrimSpace s = '''' then None else Some (ID env, ev)))"

text \<open>The events of a run, each envelope id the first time only.\<close>

fun ingested :: "json_codec \<Rightarrow> LeaderboardHandler \<Rightarrow> string set \<Rightarrow> Delivery list \<Rightarrow> (int \<Rightarrow> lb_event) list" where
  "ingested cd h ids [] = []"
| "ingested cd h ids (d # ds) =
     (case heard cd h d of
        None \<Rightarrow> ingested cd h ids ds
      | Some (i, ev) \<Rightarrow> if i \<in> ids then ingested cd h ids ds else ev # ingested cd h (insert i ids) ds)"

lemma applied_once:
  assumes "no_fault ora" "tryE (apply_event i ty at ev) (\<lambda>r. bindE (settle h d r) (\<lambda>_. retE ())) ora w = (x, w')"
    and "db w = d0\<lparr>ingest_seq := n\<rparr>"
  shows "if seen d0 i then lb_tables (db w') = lb_tables d0
    else \<exists>r. in_id r = i \<and> db w' = (event_db ev d0)\<lparr>inbox := inbox d0 @ [r], ingest_seq := n\<rparr>"
proof -
  obtain r u where r: "apply_event i ty at ev ora w = (Inr r, u)" using apply_event_no_fault [OF assms(1)] by blast
  have w': "db w' = db u"
    using assms(2) r settle_db [of h d "Inr r" ora u] by (auto simp: tryE_def bindE_def retE_def split: prod.splits sum.splits)
  have s: "seen (db w) i = seen d0 i" by (simp add: seen_def assms(3))
  from r show ?thesis
  proof (cases rule: apply_event_cases)
    case duplicate
    then show ?thesis using s w' assms(3) by simp
  next
    case (applied a)
    then have "db w' = (event_db ev d0)\<lparr>inbox := inbox d0 @ [\<lparr>in_id = i, in_type = ty, in_processed_at = at\<rparr>], ingest_seq := n\<rparr>"
      using w' assms(3) by simp
    then show ?thesis using applied(2) s by (metis InboxRow.select_convs(1))
  qed simp
qed

lemma sessionIDOK_blank:
  "TrimSpace s = '''' \<Longrightarrow> bindE (sessionIDOK h d s) (\<lambda>ok. if \<not> ok then retE () else m) ora w = (x, w') \<Longrightarrow> db w' = db w"
  using leaderboard_park_db [of h d "''blank-session-id''" ora w]
  by (auto simp: sessionIDOK_def bindE_assoc) (auto simp: bindE_def retE_def split: prod.splits sum.splits)

lemma ack_db: "db (snd (ack d ora w)) = db w"
  by (simp add: ack_def emitE_def)

lemma park_same: "leaderboard_park h d reason ora w = (x, w') \<Longrightarrow> db w' = db w"
  using leaderboard_park_db by (metis snd_conv)

abbreviation outcome :: "(string \<times> (int \<Rightarrow> lb_event)) option \<Rightarrow> leaderboard_db \<Rightarrow> leaderboard_db \<Rightarrow> bool" where
  "outcome r d d' \<equiv> (case r of
      None \<Rightarrow> lb_tables d' = lb_tables d
    | Some (i, ev) \<Rightarrow> if seen d i then lb_tables d' = lb_tables d
        else \<exists>n k r. in_id r = i \<and> d' = (event_db (ev n) d)\<lparr>inbox := inbox d @ [r], ingest_seq := k\<rparr>)"

lemma outcomeI:
  assumes "if seen d i then lb_tables d' = lb_tables d
      else \<exists>r. in_id r = i \<and> d' = (event_db e d)\<lparr>inbox := inbox d @ [r], ingest_seq := k\<rparr>"
    and "told = Some (i, ev)" "e = ev n"
  shows "outcome told d d'"
  unfolding assms(2) using assms(1,3) by (auto simp: option.case prod.case) blast

lemma leaderboard_Process_hears:
  assumes "no_fault ora" "leaderboard_Process cd h d ora w = (x, w')"
  shows "outcome (heard cd h d) (db w) (db w')"
proof (cases "lb_Validate h (dv_Body d) \<noteq> None \<or> UnmarshalEnvelope cd (dv_Body d) = None")
  case True
  then have "heard cd h d = None" by (auto simp: heard_def)
  moreover have "db w' = db w"
    using True assms(2) by (cases "UnmarshalEnvelope cd (dv_Body d)")
      (auto simp: leaderboard_Process_def DecodeIncoming_def split: option.splits dest: park_same)
  ultimately show ?thesis by simp
next
  case False
  then obtain env where e: "lb_Validate h (dv_Body d) = None" "UnmarshalEnvelope cd (dv_Body d) = Some env" by auto
  note P = assms(2) [unfolded leaderboard_Process_def DecodeIncoming_def e option.case sum.case]
  note keys = SessionStartedRoutingKey_def LapRecordedRoutingKey_def SessionEndedRoutingKey_def
  have blank: "db w' = db w" if "TrimSpace s = ''''" "bindE (sessionIDOK h d s) (\<lambda>ok. if \<not> ok then retE () else m) ora w = (x, w')" for s m
    using sessionIDOK_blank that by blast
  consider (lap) "Type env = LapRecordedRoutingKey" | (started) "Type env = SessionStartedRoutingKey"
    | (ended) "Type env = SessionEndedRoutingKey" | (other) "Type env \<notin> {LapRecordedRoutingKey, SessionStartedRoutingKey, SessionEndedRoutingKey}" by blast
  then show ?thesis
  proof cases
    case lap
    then have run: "processLap cd h d env ora w = (x, w')" using P by simp
    show ?thesis
    proof (cases "UnmarshalLap cd (Data env)")
      case None
      then show ?thesis using run lap e by (auto simp: heard_def processLap_def DecodeLapRecorded_def dest: park_same)
    next
      case (Some l)
      show ?thesis
      proof (cases "TrimSpace (lap_SessionID l) = ''''")
        case True
        then show ?thesis using run lap e Some blank [OF True] by (simp add: heard_def processLap_def DecodeLapRecorded_def cong: if_cong)
      next
        case False
        have "tryE (apply_event (ID env) (Type env) (FormatWireTime (o_clk ora (tick w))) (ELap (lap_SessionID l)
            \<lparr>l_MasterID = lap_MasterID l, l_LapTimeMs = lap_LapTimeMs l, l_At = lap_At l, l_Seq = wrap64 (ingest_seq (db w) + 1)\<rparr>))
          (\<lambda>r. bindE (settle h d r) (\<lambda>_. retE ())) ora (tock (w\<lparr>db := (db w)\<lparr>ingest_seq := wrap64 (ingest_seq (db w) + 1)\<rparr>\<rparr>)) = (x, w')"
          using run Some False by (simp add: processLap_def DecodeLapRecorded_def sessionIDOK_named bind_now_seq)
        moreover have "db (tock (w\<lparr>db := (db w)\<lparr>ingest_seq := wrap64 (ingest_seq (db w) + 1)\<rparr>\<rparr>)) = (db w)\<lparr>ingest_seq := wrap64 (ingest_seq (db w) + 1)\<rparr>" by simp
        ultimately have "if seen (db w) (ID env) then lb_tables (db w') = lb_tables (db w)
          else \<exists>r. in_id r = ID env \<and> db w' = (event_db (ELap (lap_SessionID l)
            \<lparr>l_MasterID = lap_MasterID l, l_LapTimeMs = lap_LapTimeMs l, l_At = lap_At l, l_Seq = wrap64 (ingest_seq (db w) + 1)\<rparr>) (db w))
              \<lparr>inbox := inbox (db w) @ [r], ingest_seq := wrap64 (ingest_seq (db w) + 1)\<rparr>" by (rule applied_once [OF assms(1)])
        then show ?thesis
          by (rule outcomeI [where ev = "\<lambda>n. ELap (lap_SessionID l) \<lparr>l_MasterID = lap_MasterID l, l_LapTimeMs = lap_LapTimeMs l, l_At = lap_At l, l_Seq = n\<rparr>"
                and n = "wrap64 (ingest_seq (db w) + 1)"]) (use lap e Some False in \<open>simp_all add: heard_def\<close>)
      qed
    qed
  next
    case started
    then have run: "processSessionStarted cd h d env ora w = (x, w')" using P by (simp add: keys)
    show ?thesis
    proof (cases "UnmarshalStarted cd (Data env)")
      case None
      then show ?thesis using run started e by (auto simp: heard_def keys processSessionStarted_def DecodeSessionStarted_def dest: park_same)
    next
      case (Some s)
      show ?thesis
      proof (cases "TrimSpace (st_SessionID s) = ''''")
        case True
        then show ?thesis using run started e Some blank [OF True] by (simp add: heard_def keys processSessionStarted_def DecodeSessionStarted_def cong: if_cong)
      next
        case False
        have "tryE (apply_event (ID env) (Type env) (FormatWireTime (o_clk ora (tick w))) (EStarted (st_SessionID s) (st_StartedAt s)))
          (\<lambda>r. bindE (settle h d r) (\<lambda>_. retE ())) ora (tock w) = (x, w')"
          using run Some False by (simp add: processSessionStarted_def DecodeSessionStarted_def sessionIDOK_named bind_now_seq)
        moreover have "db (tock w) = (db w)\<lparr>ingest_seq := ingest_seq (db w)\<rparr>" by simp
        ultimately have "if seen (db w) (ID env) then lb_tables (db w') = lb_tables (db w)
          else \<exists>r. in_id r = ID env \<and> db w' = (event_db (EStarted (st_SessionID s) (st_StartedAt s)) (db w))\<lparr>inbox := inbox (db w) @ [r], ingest_seq := ingest_seq (db w)\<rparr>"
          by (rule applied_once [OF assms(1)])
        then show ?thesis
          by (rule outcomeI [where ev = "\<lambda>n. EStarted (st_SessionID s) (st_StartedAt s)"]) (use started e Some False in \<open>simp_all add: heard_def keys\<close>)
      qed
    qed
  next
    case ended
    then have run: "processSessionEnded cd h d env ora w = (x, w')" using P by (simp add: keys)
    show ?thesis
    proof (cases "UnmarshalEnded cd (Data env)")
      case None
      then show ?thesis using run ended e by (auto simp: heard_def keys processSessionEnded_def DecodeSessionEnded_def dest: park_same)
    next
      case (Some s)
      show ?thesis
      proof (cases "TrimSpace (en_SessionID s) = ''''")
        case True
        then show ?thesis using run ended e Some blank [OF True] by (simp add: heard_def keys processSessionEnded_def DecodeSessionEnded_def cong: if_cong)
      next
        case False
        have "tryE (apply_event (ID env) (Type env) (FormatWireTime (o_clk ora (tick w))) (EEnded (en_SessionID s) (en_EndedAt s)))
          (\<lambda>r. bindE (settle h d r) (\<lambda>_. retE ())) ora (tock w) = (x, w')"
          using run Some False by (simp add: processSessionEnded_def DecodeSessionEnded_def sessionIDOK_named bind_now_seq)
        moreover have "db (tock w) = (db w)\<lparr>ingest_seq := ingest_seq (db w)\<rparr>" by simp
        ultimately have "if seen (db w) (ID env) then lb_tables (db w') = lb_tables (db w)
          else \<exists>r. in_id r = ID env \<and> db w' = (event_db (EEnded (en_SessionID s) (en_EndedAt s)) (db w))\<lparr>inbox := inbox (db w) @ [r], ingest_seq := ingest_seq (db w)\<rparr>"
          by (rule applied_once [OF assms(1)])
        then show ?thesis
          by (rule outcomeI [where ev = "\<lambda>n. EEnded (en_SessionID s) (en_EndedAt s)"]) (use ended e Some False in \<open>simp_all add: heard_def keys\<close>)
      qed
    qed
  next
    case other
    then have "ack d ora w = (x, w')" "heard cd h d = None" using P e by (simp_all add: heard_def)
    then show ?thesis using ack_db [of d ora w] by simp
  qed
qed

lemma some_inbox_seq: "\<exists>rs n. d = d\<lparr>inbox := rs, ingest_seq := n\<rparr>"
  by (intro exI [of _ "inbox d"] exI [of _ "ingest_seq d"]) simp

lemma consumer_run_ingested:
  assumes "no_fault ora"
  shows "consumer_run (leaderboard_Process cd h) evs ora w = (x, w') \<Longrightarrow>
    \<exists>log rs n. list_all2 (\<lambda>f ev. \<exists>k. ev = f k) (ingested cd h {i. seen (db w) i} (taken evs)) log
      \<and> db w' = (foldl (\<lambda>d ev. event_db ev d) (db w) log)\<lparr>inbox := rs, ingest_seq := n\<rparr>"
proof (induction evs arbitrary: w rule: taken.induct)
  case (4 d evs)
  obtain r u where p: "leaderboard_Process cd h d ora w = (r, u)" by fastforce
  then have "r = Inr ()" using leaderboard_Process_done by blast
  with p 4(2) have "consumer_run (leaderboard_Process cd h) evs ora u = (x, w')" by (simp add: bindE_def)
  from 4(1) [OF this] obtain log rs n where
    l: "list_all2 (\<lambda>f ev. \<exists>k. ev = f k) (ingested cd h {i. seen (db u) i} (taken evs)) log"
    and dw: "db w' = (foldl (\<lambda>d ev. event_db ev d) (db u) log)\<lparr>inbox := rs, ingest_seq := n\<rparr>" by blast
  note o = leaderboard_Process_hears [OF assms p]
  have same: ?case if "lb_tables (db u) = lb_tables (db w)" "ingested cd h {i. seen (db w) i} (taken (Delivered d # evs)) = ingested cd h {i. seen (db w) i} (taken evs)"
  proof -
    note t = that
    obtain k where k: "db u = (db w)\<lparr>ingest_seq := k\<rparr>" using t(1) unfolding lb_tables_eq by blast
    then have "{i. seen (db u) i} = {i. seen (db w) i}" by (simp add: seen_def)
    then show ?thesis using l dw k t(2) by (intro exI [of _ log] exI [of _ rs] exI [of _ n]) simp
  qed
  show ?case
  proof (cases "heard cd h d")
    case None
    then show ?thesis using o by (intro same) simp_all
  next
    case (Some told)
    obtain i ev where iev: "told = (i, ev)" by fastforce
    show ?thesis
    proof (cases "seen (db w) i")
      case True
      then show ?thesis using o Some iev by (intro same) simp_all
    next
      case False
      with o Some iev obtain m k r where u: "in_id r = i" "db u = (event_db (ev m) (db w))\<lparr>inbox := inbox (db w) @ [r], ingest_seq := k\<rparr>" by auto
      then have "{i. seen (db u) i} = insert i {i. seen (db w) i}" by (auto simp: seen_def)
      then show ?thesis using l dw u Some iev False
        by (intro exI [of _ "ev m # log"] exI [of _ rs] exI [of _ n]) auto
    qed
  qed
qed (auto simp: retE_def intro!: exI [of _ "[]"] some_inbox_seq)

lemma leaderboard_Run_ingested:
  assumes "no_fault ora" "leaderboard_Run cd h startSeq evs ora w = (x, w')" "inbox (db w) = []"
  shows "\<exists>log rs n. list_all2 (\<lambda>f ev. \<exists>k. ev = f k) (ingested cd h {} (taken evs)) log
      \<and> db w' = (foldl (\<lambda>d ev. event_db ev d) (db w) log)\<lparr>inbox := rs, ingest_seq := n\<rparr>"
proof -
  have "consumer_run (leaderboard_Process cd h) evs ora (w\<lparr>db := (db w)\<lparr>ingest_seq := startSeq\<rparr>\<rparr>) = (x, w')"
    using assms(2) by (simp add: leaderboard_Run_def bindE_def memE_def)
  from consumer_run_ingested [OF assms(1) this] assms(3) show ?thesis by (simp add: seen_def)
qed

text \<open>The laps of one driver in one session, as they come in; \<open>fastest\<close> does not look at their numbers.\<close>

definition laps_ingested :: "json_codec \<Rightarrow> LeaderboardHandler \<Rightarrow> string \<Rightarrow> string \<Rightarrow> Delivery list \<Rightarrow> Lap list" where
  "laps_ingested cd h s m ds = laps_of s m (map (\<lambda>f. f 0) (ingested cd h {} ds))"

definition shaped :: "(int \<Rightarrow> lb_event) \<Rightarrow> bool" where
  "shaped f \<longleftrightarrow> (\<exists>s lap. f = (\<lambda>n. ELap s (lap\<lparr>l_Seq := n\<rparr>))) \<or> (\<exists>ev. f = (\<lambda>n. ev) \<and> (\<forall>s lap. ev \<noteq> ELap s lap))"

lemma laps_of_numbers:
  assumes "list_all2 (\<lambda>f ev. \<exists>k. ev = f k) fs log" "\<forall>f\<in>set fs. shaped f"
  shows "list_all2 (\<lambda>a b. b = a\<lparr>l_Seq := l_Seq b\<rparr>) (laps_of s m (map (\<lambda>f. f 0) fs)) (laps_of s m log)"
  using assms
proof (induction rule: list_all2_induct)
  case (Cons f fs ev log)
  then obtain k where k: "ev = f k" by blast
  have "shaped f" using Cons.prems by simp
  then consider (lap) s' lap where "f = (\<lambda>n. ELap s' (lap\<lparr>l_Seq := n\<rparr>))" | (other) ev' where "f = (\<lambda>n. ev')" "\<forall>s lap. ev' \<noteq> ELap s lap"
    unfolding shaped_def by blast
  then show ?case
  proof cases
    case lap
    then show ?thesis using Cons k by simp
  next
    case other
    then show ?thesis using Cons k by (cases ev') auto
  qed
qed simp

lemma shaped_intros:
  "shaped (\<lambda>n. ELap s \<lparr>l_MasterID = m, l_LapTimeMs = t, l_At = a, l_Seq = n\<rparr>)" "shaped (\<lambda>n. EStarted s a)" "shaped (\<lambda>n. EEnded s a)"
proof -
  have "(\<lambda>n. ELap s \<lparr>l_MasterID = m, l_LapTimeMs = t, l_At = a, l_Seq = n\<rparr>) = (\<lambda>n. ELap s (\<lparr>l_MasterID = m, l_LapTimeMs = t, l_At = a, l_Seq = 0\<rparr>\<lparr>l_Seq := n\<rparr>))"
    by simp
  then show "shaped (\<lambda>n. ELap s \<lparr>l_MasterID = m, l_LapTimeMs = t, l_At = a, l_Seq = n\<rparr>)" unfolding shaped_def by blast
qed (auto simp: shaped_def)

lemma heard_shape: "heard cd h d = Some (i, f) \<Longrightarrow> shaped f"
  by (auto simp: heard_def shaped_intros split: if_splits option.splits)

lemma ingested_shape: "f \<in> set (ingested cd h ids ds) \<Longrightarrow> shaped f"
  by (induction ds arbitrary: ids) (auto split: option.splits prod.splits if_splits dest: heard_shape)

lemma hd_filter_split:
  assumes "\<exists>x\<in>set xs. P x"
  shows "\<exists>pre post. xs = pre @ hd (filter P xs) # post \<and> P (hd (filter P xs)) \<and> (\<forall>x\<in>set pre. \<not> P x)"
  using assms
proof (induction xs)
  case (Cons x xs)
  show ?case
  proof (cases "P x")
    case True
    then show ?thesis by (intro exI [of _ "[]"] exI [of _ xs]) simp
  next
    case False
    then obtain pre post where "xs = pre @ hd (filter P xs) # post \<and> P (hd (filter P xs)) \<and> (\<forall>x\<in>set pre. \<not> P x)" using Cons by auto
    then show ?thesis using False by (intro exI [of _ "x # pre"] exI [of _ post]) simp
  qed
qed simp

lemma fastest_split:
  assumes "ls \<noteq> []"
  shows "\<exists>pre post. ls = pre @ fastest ls # post \<and> (\<forall>l\<in>set pre. l_LapTimeMs (fastest ls) < l_LapTimeMs l)
     \<and> (\<forall>l\<in>set post. l_LapTimeMs (fastest ls) \<le> l_LapTimeMs l)"
proof -
  let ?P = "\<lambda>l. \<forall>l'\<in>set ls. l_LapTimeMs l \<le> l_LapTimeMs l'"
  have "\<exists>x\<in>set ls. ?P x" using fastest_mem [OF assms] by blast
  from hd_filter_split [OF this] obtain pre post where s: "ls = pre @ fastest ls # post" "?P (fastest ls)" "\<forall>x\<in>set pre. \<not> ?P x"
    by (auto simp: fastest_def)
  then have "\<forall>l\<in>set pre. l_LapTimeMs (fastest ls) < l_LapTimeMs l" by (metis order_less_le_trans linorder_not_le)
  then show ?thesis using s by (metis Un_iff list.set_intros(2) set_append)
qed

lemma list_all2_split:
  "list_all2 P xs (pre @ y # post) \<Longrightarrow> \<exists>pre' x post'. xs = pre' @ x # post' \<and> list_all2 P pre' pre \<and> P x y \<and> list_all2 P post' post"
  by (auto simp: list_all2_append2 list_all2_Cons2)

text \<open>C16: the moment on the board is that of the lap that came in first. While no statement fails, whatever a run
  from an empty board is delivered, take the laps of a driver in a session in the order they come in, each
  envelope once and without the messages that are parked. The driver has an entry exactly when there is one,
  and the entry has the time and the moment of the first of the fastest: every lap before it is
  slower, no lap after it is faster. What the comments call the first time the best was achieved is
  this one, whatever the laps' own moments say.\<close>

theorem BestLapAt_is_first_ingested:
  assumes "no_fault ora" and "empty_board (db w)" and "inbox (db w) = []"
    and "leaderboard_Run cd h startSeq evs ora w = (x, w')"
  shows "case best_of (db w') s m of
      None \<Rightarrow> laps_ingested cd h s m (taken evs) = []
    | Some b \<Rightarrow> \<exists>before lap after. laps_ingested cd h s m (taken evs) = before @ lap # after
        \<and> BestLapMs b = l_LapTimeMs lap \<and> BestLapAt b = l_At lap
        \<and> (\<forall>l\<in>set before. l_LapTimeMs lap < l_LapTimeMs l) \<and> (\<forall>l\<in>set after. l_LapTimeMs lap \<le> l_LapTimeMs l)"
proof -
  from leaderboard_Run_ingested [OF assms(1,4,3)] obtain log rs n where
    log: "list_all2 (\<lambda>f ev. \<exists>k. ev = f k) (ingested cd h {} (taken evs)) log"
    "db w' = (foldl (\<lambda>d ev. event_db ev d) (db w) log)\<lparr>inbox := rs, ingest_seq := n\<rparr>" by blast
  have laps: "list_all2 (\<lambda>a b. b = a\<lparr>l_Seq := l_Seq b\<rparr>) (laps_ingested cd h s m (taken evs)) (laps_of s m log)"
    unfolding laps_ingested_def using laps_of_numbers [OF log(1)] ingested_shape by blast
  have best: "best_of (db w') s m = spec_best s m log" using events_refine(1) [OF assms(2)] by (simp add: log(2) best_of_def)
  show ?thesis
  proof (cases "laps_of s m log = []")
    case True
    then show ?thesis using laps by (simp add: best spec_best_def)
  next
    case False
    define F where "F = fastest (laps_of s m log)"
    from fastest_split [OF False] obtain pre post where
      s: "laps_of s m log = pre @ F # post" "\<forall>l\<in>set pre. l_LapTimeMs F < l_LapTimeMs l" "\<forall>l\<in>set post. l_LapTimeMs F \<le> l_LapTimeMs l"
      unfolding F_def by blast
    have "list_all2 (\<lambda>a b. b = a\<lparr>l_Seq := l_Seq b\<rparr>) (laps_ingested cd h s m (taken evs)) (pre @ F # post)" using laps s(1) by simp
    from list_all2_split [OF this] obtain before lap after where
      t: "laps_ingested cd h s m (taken evs) = before @ lap # after" "list_all2 (\<lambda>a b. b = a\<lparr>l_Seq := l_Seq b\<rparr>) before pre"
      "F = lap\<lparr>l_Seq := l_Seq F\<rparr>" "list_all2 (\<lambda>a b. b = a\<lparr>l_Seq := l_Seq b\<rparr>) after post" by blast
    have f: "l_LapTimeMs F = l_LapTimeMs lap" "l_At F = l_At lap" by (subst t(3), simp)+
    have le: "\<exists>l'\<in>set ys. l_LapTimeMs l' = l_LapTimeMs l" if "list_all2 (\<lambda>a b. b = a\<lparr>l_Seq := l_Seq b\<rparr>) xs ys" "l \<in> set xs" for xs ys and l :: Lap
      using that
    proof (induction rule: list_all2_induct)
      case (Cons a as b bs)
      have "l_LapTimeMs b = l_LapTimeMs a" by (subst Cons(1)) simp
      then show ?case using Cons by auto
    qed simp
    have "\<forall>l\<in>set before. l_LapTimeMs lap < l_LapTimeMs l" "\<forall>l\<in>set after. l_LapTimeMs lap \<le> l_LapTimeMs l"
      using le [OF t(2)] le [OF t(4)] s(2,3) f(1) by metis+
    then show ?thesis using False t(1) f by (auto simp: best spec_best_def lapBest_def F_def [symmetric])
  qed
qed

definition tie_codec :: json_codec where
  "tie_codec = demo_codec\<lparr>UnmarshalEnvelope := \<lambda>b. Some ((demo_env b b)\<lparr>Type := LapRecordedRoutingKey\<rparr>),
     UnmarshalLap := \<lambda>b. Some \<lparr>lap_MasterID = ''m'', lap_SessionID = ''s'', lap_LapNumber = 1, lap_LapTimeMs = 800, lap_At = b, lap_TransponderID = None\<rparr>\<rparr>"

definition open_handler :: LeaderboardHandler where
  "open_handler = \<lparr>sk_Policy = \<lparr>MaxAttempts = 3, BaseMs = 100, Multiplier = 2, MaxMs = 1000\<rparr>, sk_Retry = True, sk_Park = True,
     lb_Validate = (\<lambda>_. None), lb_Notify = True\<rparr>"

text \<open>Two equal laps, the later one first, with a redelivery: the board keeps the later moment.\<close>

theorem BestLapAt_is_first_ingested_witness:
  "\<exists>x w'. leaderboard_Run tie_codec open_handler 0 (map (\<lambda>t. Delivered \<lparr>dv_Body = t, dv_Headers = None\<rparr>) [''t3'', ''t1'', ''t3'']) demo_ok demo_board = (x, w')
     \<and> map_option BestLapAt (best_of (db w') ''s'' ''m'') = Some ''t3''"
proof -
  let ?evs = "map (\<lambda>t. Delivered \<lparr>dv_Body = t, dv_Headers = None\<rparr>) [''t3'', ''t1'', ''t3'']"
  obtain x w' where run: "leaderboard_Run tie_codec open_handler 0 ?evs demo_ok demo_board = (x, w')" by fastforce
  have ok: "no_fault demo_ok" "empty_board (db demo_board)" "inbox (db demo_board) = []"
    by (simp_all add: no_fault_def demo_ok_def empty_board_def demo_board_def)
  have laps: "map (\<lambda>l. (l_LapTimeMs l, l_At l)) (laps_ingested tie_codec open_handler ''s'' ''m'' (taken ?evs)) = [(800, ''t3''), (800, ''t1'')]"
  proof -
    have "TrimSpace ''s'' = ''s''" by code_simp
    then have "heard tie_codec open_handler \<lparr>dv_Body = t, dv_Headers = None\<rparr>
      = Some (t, \<lambda>n. ELap ''s'' \<lparr>l_MasterID = ''m'', l_LapTimeMs = 800, l_At = t, l_Seq = n\<rparr>)" for t
      by (simp add: heard_def tie_codec_def open_handler_def demo_env_def)
    then show ?thesis by (simp add: laps_ingested_def)
  qed
  show ?thesis
  proof (cases "best_of (db w') ''s'' ''m''")
    case None
    then show ?thesis using BestLapAt_is_first_ingested [OF ok run, of "''s''" "''m''"] laps by simp
  next
    case (Some b)
    then obtain before lap after where
      b: "laps_ingested tie_codec open_handler ''s'' ''m'' (taken ?evs) = before @ lap # after" "BestLapAt b = l_At lap"
      "\<forall>l\<in>set before. l_LapTimeMs lap < l_LapTimeMs l"
      using BestLapAt_is_first_ingested [OF ok run, of "''s''" "''m''"] by auto
    have "before = []" "l_At lap = ''t3''" using laps b(3) unfolding b(1) by (cases before; auto simp: Cons_eq_append_conv append_eq_Cons_conv)+
    then show ?thesis using run Some b(2) by auto
  qed
qed

end
