(* ===== verification/Race_To_Board.thy ===== *)
theory Race_To_Board
  imports Board_Log Simulator_Run
begin

text \<open>
  From the line to the board, across two services and the bus: Timing generates a session and writes
  its events to the outbox, the relay publishes them, the broker delivers them to the Leaderboard in
  any order and any number of times, and the board that results is the one the summary in
  \<open>session.ended\<close> states, although the Leaderboard never reads that summary.
\<close>

section \<open>Rows and the events they carry\<close>

text \<open>A builder uses its id for nothing but the id, and its key names its payload.\<close>

definition proper :: "builder \<Rightarrow> bool" where
  "proper b \<longleftrightarrow> (\<forall>eid. ID (b eid) = eid \<and> Data (b eid) = pay b \<and> Type (b eid) \<in> session_keys
     \<and> (Type (b eid) = LapRecordedRoutingKey \<longleftrightarrow> (\<exists>l. pay b = LapRecorded l))
     \<and> (Type (b eid) = SessionStartedRoutingKey \<longleftrightarrow> (\<exists>d. pay b = SessionStarted d))
     \<and> (Type (b eid) = SessionEndedRoutingKey \<longleftrightarrow> (\<exists>d. pay b = SessionEnded d)))"

lemma proper_builders:
  "proper (\<lambda>eid. NewSessionStartedEnvelope eid src corr sid base)" "proper (check_in cfg corr base d)"
  "proper (\<lambda>eid. NewScannerOfflineEnvelope eid src corr sc g since)" "proper (\<lambda>eid. NewScannerOnlineEnvelope eid src corr sc at)"
  "proper (\<lambda>eid. NewLapRecordedEnvelope eid src corr m sid n l tp at)" "proper (\<lambda>eid. NewSessionEndedEnvelope eid src corr sid at rows)"
  by (simp_all add: proper_def pay_def check_in_def session_envelopes session_keys_def routing_keys Let_def)

lemma proper_step: "list_all proper (gs_out st) \<Longrightarrow> list_all proper (gs_out (gen_step cfg corr sid chk ow st ic))"
  by (auto simp: gen_step_def proper_builders Let_def split: prod.splits)

lemma proper_loop: "list_all proper (gs_out st) \<Longrightarrow> list_all proper (gs_out (gen_loop cfg corr sid chk ow st cs))"
  by (induction cs rule: rev_induct) (auto simp: gen_loop_snoc proper_step)

lemma proper_GenerateSession: "list_all proper (fst (GenerateSession s rng k corr base))"
proof -
  have "list_all proper (gs_out (gen_start cfg ((\<lambda>eid. NewSessionStartedEnvelope eid src corr sid base) # map (check_in cfg corr base) ds) base))" for cfg src sid ds
    by (simp add: gen_start_def proper_builders list_all_iff)
  from proper_loop [OF this] show ?thesis
    unfolding GenerateSession_def Let_def by (auto simp: proper_builders split: prod.splits)
qed

text \<open>Every row an emission appends is some envelope's, and ids stay distinct.\<close>

abbreviation some_row :: "json_codec \<Rightarrow> OutboxRow \<Rightarrow> bool" where
  "some_row cd r \<equiv> \<exists>env. row_of cd env r"

lemma adds_tryE [adds_intros]:
  assumes "adds P m" "\<And>r. adds P (f r)"
  shows "adds P (tryE m f)"
  unfolding adds_def
proof (intro allI)
  fix ora w
  obtain x u where x: "m ora w = (x, u)" by fastforce
  from addsD [OF assms(1) this] obtain n1 where n1: "outbox (db u) = outbox (db w) @ n1" "list_all P n1" by blast
  from assms(2) [of x] obtain n2 where "outbox (db (snd (f x ora u))) = outbox (db u) @ n2" "list_all P n2" unfolding adds_def by blast
  then show "\<exists>new. outbox (db (snd (tryE m f ora w))) = outbox (db w) @ new \<and> list_all P new"
    using x n1 by (intro exI [of _ "n1 @ n2"]) (simp add: tryE_def)
qed

lemma adds_some_observePR: "adds (some_row cd) (observePR cd v cfg env)"
  unfolding observePR_def by (cases "Data env") (auto intro!: adds_intros adds_NewEnqueuer)

lemma adds_some_emitEnvelope: "adds (some_row cd) (emitEnvelope cd v cfg env st)"
  unfolding emitEnvelope_def by (intro adds_intros adds_NewEnqueuer adds_some_observePR) blast

lemma adds_some_emit_session: "adds (some_row cd) (emit_session cd v cfg bs st)"
proof (induction bs arbitrary: st)
  case (Cons b bs)
  then show ?case
    by (auto intro!: adds_intros adds_some_emitEnvelope simp: fatalE_def sleepE_def split: sum.splits)
qed (simp add: adds_intros)

lemma keeps_of_adds:
  assumes "adds (\<lambda>r. False) m"
  shows "keeps outbox_ok m"
proof (rule keepsI)
  fix ora and w :: "timing_db world"
  assume "outbox_ok (db w)"
  moreover obtain new where "outbox (db (snd (m ora w))) = outbox (db w) @ new" "list_all (\<lambda>r. False) new"
    using assms unfolding adds_def by blast
  ultimately show "outbox_ok (db (snd (m ora w)))" by (cases new) (simp_all add: outbox_ok_def)
qed

lemma keeps_NewEnqueuer [keeps_intros]: "keeps outbox_ok (NewEnqueuer cd v env :: (timing_db, unit) io)"
  unfolding NewEnqueuer_def by (intro keeps_intros)

lemma keeps_observePR [keeps_intros]: "keeps outbox_ok (observePR cd v cfg env)"
  unfolding observePR_def
  by (cases "Data env") (auto intro!: keeps_intros keeps_of_adds [OF adds_ObserveLap] split: sum.split)

lemma keeps_emitEnvelope [keeps_intros]: "keeps outbox_ok (emitEnvelope cd v cfg env st)"
  unfolding emitEnvelope_def by (intro keeps_intros keeps_of_adds [OF adds_outages(1)] keeps_of_adds [OF adds_outages(2)])

lemma keeps_emit_session: "keeps outbox_ok (emit_session cd v cfg bs st)"
proof (induction bs arbitrary: st)
  case (Cons b bs)
  then show ?case by (auto intro!: keeps_intros simp: fatalE_def sleepE_def split: sum.splits)
qed (simp add: keeps_intros)

section \<open>The session a stream is about\<close>

definition of_session :: "string \<Rightarrow> builder \<Rightarrow> bool" where
  "of_session sid b \<longleftrightarrow> (case pay b of LapRecorded l \<Rightarrow> lap_SessionID l = sid | SessionStarted d \<Rightarrow> st_SessionID d = sid
     | SessionEnded d \<Rightarrow> en_SessionID d = sid | _ \<Rightarrow> True)"

lemma of_session_builders:
  "of_session sid (\<lambda>eid. NewSessionStartedEnvelope eid src corr sid base)" "of_session sid (check_in cfg corr base d)"
  "of_session sid (\<lambda>eid. NewScannerOfflineEnvelope eid src corr sc g since)" "of_session sid (\<lambda>eid. NewScannerOnlineEnvelope eid src corr sc at)"
  "of_session sid (\<lambda>eid. NewLapRecordedEnvelope eid src corr m sid n l tp at)" "of_session sid (\<lambda>eid. NewSessionEndedEnvelope eid src corr sid at rows)"
  using pay_check_in [of cfg corr base d] by (auto simp: of_session_def)

lemma of_session_step: "list_all (of_session sid) (gs_out st) \<Longrightarrow> list_all (of_session sid) (gs_out (gen_step cfg corr sid chk ow st ic))"
  by (auto simp: gen_step_def of_session_builders Let_def split: prod.splits)

lemma of_session_loop: "list_all (of_session sid) (gs_out st) \<Longrightarrow> list_all (of_session sid) (gs_out (gen_loop cfg corr sid chk ow st cs))"
  by (induction cs rule: rev_induct) (auto simp: gen_loop_snoc of_session_step)

lemma of_session_GenerateSession: "list_all (of_session (''sim-'' @ FormatCompact base)) (fst (GenerateSession s rng k corr base))"
proof -
  define sid where "sid = ''sim-'' @ FormatCompact base"
  have "list_all (of_session sid) (gs_out (gen_start cfg ((\<lambda>eid. NewSessionStartedEnvelope eid src corr sid base) # map (check_in cfg corr base) ds) base))" for cfg src ds
    by (simp add: gen_start_def of_session_builders list_all_iff)
  from of_session_loop [OF this] show ?thesis
    unfolding GenerateSession_def Let_def sid_def by (auto simp: of_session_builders split: prod.splits)
qed

section \<open>From a payload to an event\<close>

definition means :: "payload \<Rightarrow> lb_event \<Rightarrow> bool" where
  "means pl ev \<longleftrightarrow> (case pl of
     LapRecorded l \<Rightarrow> (\<exists>n. ev = ELap (lap_SessionID l) \<lparr>l_MasterID = lap_MasterID l, l_LapTimeMs = lap_LapTimeMs l, l_At = lap_At l, l_Seq = n\<rparr>)
   | SessionStarted d \<Rightarrow> ev = EStarted (st_SessionID d) (st_StartedAt d)
   | SessionEnded d \<Rightarrow> ev = EEnded (en_SessionID d) (en_EndedAt d)
   | _ \<Rightarrow> False)"

text \<open>JSON as both services use it: what one encodes the other decodes.\<close>

definition carries :: "json_codec \<Rightarrow> bytes \<Rightarrow> Envelope \<Rightarrow> bool" where
  "carries cd p env \<longleftrightarrow> (\<exists>inc. UnmarshalEnvelope cd p = Some inc \<and> ID inc = ID env \<and> Type inc = Type env
     \<and> (case Data env of
          LapRecorded l \<Rightarrow> UnmarshalLap cd (Data inc) = Some l
        | SessionStarted d \<Rightarrow> UnmarshalStarted cd (Data inc) = Some d
        | SessionEnded d \<Rightarrow> UnmarshalEnded cd (Data inc) = Some d
        | _ \<Rightarrow> True))"

definition faithful :: "json_codec \<Rightarrow> bool" where
  "faithful cd \<longleftrightarrow> (\<forall>env p. Marshal cd env = Some p \<longrightarrow> carries cd p env)"

lemma decoded_means:
  assumes "proper b" "carries cd p (b eid)" "UnmarshalEnvelope cd p = Some env" "stands_for cd env ev"
  shows "means (pay b) ev"
proof -
  have c: "Type env = Type (b eid)" "Data (b eid) = pay b"
    "case pay b of LapRecorded l \<Rightarrow> UnmarshalLap cd (Data env) = Some l | SessionStarted d \<Rightarrow> UnmarshalStarted cd (Data env) = Some d
        | SessionEnded d \<Rightarrow> UnmarshalEnded cd (Data env) = Some d | _ \<Rightarrow> True"
    using assms(1-3) by (auto simp: carries_def proper_def)
  from assms(4) show ?thesis
  proof cases
    case (lap l n)
    then obtain l' where "pay b = LapRecorded l'" using c(1) assms(1) by (auto simp: proper_def)
    then show ?thesis using c(3) lap by (auto simp: means_def)
  next
    case (started d)
    then obtain d' where "pay b = SessionStarted d'" using c(1) assms(1) by (auto simp: proper_def)
    then show ?thesis using c(3) started by (auto simp: means_def)
  next
    case (ended d)
    then obtain d' where "pay b = SessionEnded d'" using c(1) assms(1) by (auto simp: proper_def)
    then show ?thesis using c(3) ended by (auto simp: means_def)
  qed
qed

section \<open>What the specification says of one session\<close>

lemma spec_best_ms:
  "map_option BestLapMs (spec_best s m evs) = (if laps_of s m evs = [] then None else Some (Min (l_LapTimeMs ` set (laps_of s m evs))))"
proof (cases "laps_of s m evs = []")
  case False
  from fastest_mem [OF False] have "Min (l_LapTimeMs ` set (laps_of s m evs)) = l_LapTimeMs (fastest (laps_of s m evs))"
    by (intro Min_eqI) auto
  then show ?thesis using False by (simp add: spec_best_def lapBest_def)
qed (simp add: spec_best_def)

lemma laps_of_set: "set (laps_of s m evs) = {lap. ELap s lap \<in> set evs \<and> l_MasterID lap = m}"
  by (induction s m evs rule: laps_of.induct) auto

lemma spec_status_ended: "EEnded s a \<in> set evs \<Longrightarrow> spec_status s evs = Some StatusFinished"
proof (induction evs rule: rev_induct)
  case (snoc ev evs)
  have top: "max StatusFinished st = StatusFinished" "max st StatusFinished = StatusFinished" for st
    by (cases st; simp add: max_def less_eq_session_status_def)+
  show ?case using snoc by (cases "ev = EEnded s a") (auto simp: spec_status_snoc top split: option.splits)
qed simp

lemma first_seen_one: "evs \<noteq> [] \<Longrightarrow> \<forall>ev\<in>set evs. ev_session ev = s \<Longrightarrow> first_seen evs = [s]"
proof (induction evs rule: rev_induct)
  case (snoc ev evs)
  then show ?case by (cases "evs = []") (auto simp: first_seen_snoc first_seen_def [of "[ev]"])
qed simp

section \<open>From the outbox to the log\<close>

text \<open>
  A delivered stream is honest when every message is one the relay published, and complete when the
  Leaderboard has processed every message of the session it subscribes to (its id is in the inbox).
\<close>

definition board_keys :: "string set" where
  "board_keys = {LapRecordedRoutingKey, SessionStartedRoutingKey, SessionEndedRoutingKey}"

lemma log_is_the_session:
  assumes "faithful cd" and bs: "list_all proper bs"
    and rows: "distinct (map Row_ID rows)" "list_all (some_row cd) rows"
      "list_all2 (\<lambda>b r. \<exists>eid. row_of cd (b eid) r) bs (filter (\<lambda>r. \<not> record_row r) rows)"
    and log: "\<forall>(env, ev)\<in>set log. stands_for cd env ev \<and> (\<exists>r\<in>set rows. UnmarshalEnvelope cd (Payload r) = Some env)"
    and all: "\<forall>r\<in>set rows. RoutingKey r \<in> board_keys \<longrightarrow> Row_ID r \<in> set (map (ID \<circ> fst) log)"
  shows "\<forall>ev\<in>set (map snd log). \<exists>b\<in>set bs. means (pay b) ev"
    and "\<forall>b\<in>set bs. (\<exists>ev. means (pay b) ev) \<longrightarrow> (\<exists>ev\<in>set (map snd log). means (pay b) ev)"
proof -
  have carried: "carries cd (Payload r) env" if "row_of cd env r" for env r
    using that assms(1) by (simp add: faithful_def row_of_def)
  have row_env: "ID env = Row_ID r \<and> Type env = RoutingKey r" if "r \<in> set rows" "UnmarshalEnvelope cd (Payload r) = Some env" for r env
  proof -
    have "some_row cd r" using rows(2) that(1) by (simp add: list_all_iff)
    then obtain e where "row_of cd e r" by (elim exE)
    then show ?thesis using carried [of e r] that(2) by (auto simp: carries_def row_of_def)
  qed
  have builder: "\<exists>b\<in>set bs. \<exists>eid. row_of cd (b eid) r" if "r \<in> set rows" "\<not> record_row r" for r
    using list_all2_in_right [OF rows(3)] that by simp
  have row: "\<exists>r\<in>set rows. \<exists>eid. row_of cd (b eid) r" if "b \<in> set bs" for b
    using list_all2_in_left [OF rows(3) that] by auto
  show "\<forall>ev\<in>set (map snd log). \<exists>b\<in>set bs. means (pay b) ev"
  proof
    fix ev assume "ev \<in> set (map snd log)"
    then obtain env r where e: "stands_for cd env ev" "r \<in> set rows" "UnmarshalEnvelope cd (Payload r) = Some env" using log by fastforce
    have "Type env \<in> board_keys" using e(1) by (cases rule: stands_for.cases) (auto simp: board_keys_def)
    then have "\<not> record_row r" using row_env [OF e(2,3)] by (auto simp: board_keys_def routing_keys)
    then obtain b eid where b: "b \<in> set bs" "row_of cd (b eid) r" using builder e(2) by blast
    then show "\<exists>b\<in>set bs. means (pay b) ev"
      using decoded_means [of b cd "Payload r" eid env ev] carried [OF b(2)] e(1,3) bs by (auto simp: list_all_iff)
  qed
  show "\<forall>b\<in>set bs. (\<exists>ev. means (pay b) ev) \<longrightarrow> (\<exists>ev\<in>set (map snd log). means (pay b) ev)"
  proof (intro ballI impI)
    fix b assume b: "b \<in> set bs" "\<exists>ev. means (pay b) ev"
    then obtain r eid where r: "r \<in> set rows" "row_of cd (b eid) r" using row by blast
    have "proper b" using b(1) bs by (simp add: list_all_iff)
    then have "RoutingKey r \<in> board_keys" using b(2) r(2)
      by (cases "pay b") (auto simp: proper_def row_of_def board_keys_def means_def)
    then obtain env ev where l: "(env, ev) \<in> set log" "ID env = Row_ID r" using all r(1) by fastforce
    then obtain r' where r': "r' \<in> set rows" "UnmarshalEnvelope cd (Payload r') = Some env" "stands_for cd env ev" using log by fastforce
    then have "r' = r" using row_env [OF r'(1,2)] l(2) rows(1) r(1) by (metis distinct_map inj_onD)
    then have "means (pay b) ev" using decoded_means [of b cd "Payload r" eid env ev] carried [OF r(2)] r'(2,3) b(1) bs by (auto simp: list_all_iff)
    then show "\<exists>ev\<in>set (map snd log). means (pay b) ev" using l(1) by force
  qed
qed

section \<open>The board and the summary\<close>

lemma board_of_session:
  assumes "empty_board d0" and d: "d = (foldl (\<lambda>d ev. event_db ev d) d0 evs)\<lparr>inbox := x, ingest_seq := n\<rparr>"
    and sid: "list_all (of_session sid) bs"
    and sound: "\<forall>ev\<in>set evs. \<exists>b\<in>set bs. means (pay b) ev"
    and complete: "\<forall>b\<in>set bs. (\<exists>ev. means (pay b) ev) \<longrightarrow> (\<exists>ev\<in>set evs. means (pay b) ev)"
    and ended: "SessionEnded e \<in> pay ` set bs"
  shows "map ss_id (sessions d) = [sid]" and "status_of d sid = Some StatusFinished"
    and "map_option BestLapMs (best_of d sid m) = (if times_of m (laps_in bs) = [] then None else Some (Min (set (times_of m (laps_in bs)))))"
proof -
  note ref = events_refine [OF assms(1), of evs]
  have tabs: "sessions d = sessions (foldl (\<lambda>d ev. event_db ev d) d0 evs)" "standings d = standings (foldl (\<lambda>d ev. event_db ev d) d0 evs)"
    by (simp_all add: d)
  have ses: "\<forall>ev\<in>set evs. ev_session ev = sid"
  proof
    fix ev assume "ev \<in> set evs"
    then obtain b where "b \<in> set bs" "means (pay b) ev" using sound by blast
    then show "ev_session ev = sid" using sid by (cases "pay b") (auto simp: list_all_iff of_session_def means_def)
  qed
  obtain b where b: "b \<in> set bs" "pay b = SessionEnded e" using ended by auto
  then have fin: "EEnded (en_SessionID e) (en_EndedAt e) \<in> set evs" using complete by (force simp: means_def)
  moreover have "en_SessionID e = sid" using b sid by (force simp: list_all_iff of_session_def)
  ultimately show "status_of d sid = Some StatusFinished"
    using ref(2) [of sid] spec_status_ended [of sid "en_EndedAt e" evs] by (simp add: status_of_def tabs)
  show "map ss_id (sessions d) = [sid]" using ref(3) first_seen_one [OF _ ses] fin by (force simp: tabs)
  have "l_LapTimeMs ` set (laps_of sid m evs) = set (times_of m (laps_in bs))"
  proof (intro equalityI subsetI)
    fix t assume "t \<in> l_LapTimeMs ` set (laps_of sid m evs)"
    then obtain lap where lap: "ELap sid lap \<in> set evs" "l_MasterID lap = m" "t = l_LapTimeMs lap" by (auto simp: laps_of_set)
    then obtain b where b: "b \<in> set bs" "means (pay b) (ELap sid lap)" using sound by blast
    then obtain l where "pay b = LapRecorded l" "lap_MasterID l = m" "lap_LapTimeMs l = t" using lap by (cases "pay b") (auto simp: means_def)
    then show "t \<in> set (times_of m (laps_in bs))" using b(1) by (force simp: times_of_def laps_in_def)
  next
    fix t assume "t \<in> set (times_of m (laps_in bs))"
    then obtain b l where b: "b \<in> set bs" "pay b = LapRecorded l" "lap_MasterID l = m" "t = lap_LapTimeMs l"
      unfolding times_of_def laps_in_def by (force split: payload.splits)
    then obtain ev where "ev \<in> set evs" "means (pay b) ev" using complete by (force simp: means_def)
    moreover have "lap_SessionID l = sid" using b(1,2) sid by (force simp: list_all_iff of_session_def)
    ultimately show "t \<in> l_LapTimeMs ` set (laps_of sid m evs)" using b(2-4) unfolding laps_of_set by (force simp: means_def)
  qed
  moreover have "best_of d sid m = best_of (foldl (\<lambda>d ev. event_db ev d) d0 evs) sid m" by (simp add: best_of_def tabs)
  ultimately show "map_option BestLapMs (best_of d sid m) = (if times_of m (laps_in bs) = [] then None else Some (Min (set (times_of m (laps_in bs)))))"
    using ref(1) [of sid m] spec_best_ms [of sid m evs] by (metis image_is_empty set_empty)
qed

section \<open>End to end\<close>

lemma emitted_session:
  assumes "emit_session cd v cfg (fst (GenerateSession s rng k corr base)) st ora w = (Inr (Some st'), w1)" "outbox (db w) = []"
  shows "outbox_ok (db w1)" and "list_all (some_row cd) (outbox (db w1))"
    and "list_all2 (\<lambda>b r. \<exists>eid. row_of cd (b eid) r) (fst (GenerateSession s rng k corr base)) (filter (\<lambda>r. \<not> record_row r) (outbox (db w1)))"
proof -
  have "outbox_ok (db w)" using assms(2) by (simp add: outbox_ok_def)
  with keeps_emit_session show "outbox_ok (db w1)" using assms(1) unfolding keeps_def by (metis snd_conv)
  show "list_all (some_row cd) (outbox (db w1))"
    using addsD [OF adds_some_emit_session assms(1)] assms(2) by auto
  show "list_all2 (\<lambda>b r. \<exists>eid. row_of cd (b eid) r) (fst (GenerateSession s rng k corr base)) (filter (\<lambda>r. \<not> record_row r) (outbox (db w1)))"
    using emit_session_rows [OF _ assms(1)] session_not_record assms(2) by fastforce
qed

lemma session_summary:
  fixes s rng k corr base
  defines "out \<equiv> fst (GenerateSession s rng k corr base)"
  shows "\<exists>ended. SessionEnded ended \<in> pay ` set out \<and> out \<noteq> [] \<and> pay (last out) = SessionEnded ended \<and> en_SessionID ended = ''sim-'' @ FormatCompact base
    \<and> (\<forall>m. map_of (map (\<lambda>r. (sum_MasterID r, sum_BestLapMs r)) (en_Summary ended)) m
          = (if times_of m (laps_in out) = [] then None else Some (Min (set (times_of m (laps_in out))))))"
proof -
  obtain held k' where g: "GenerateSession s rng k corr base = (out, held, k')" unfolding out_def by (metis prod.collapse)
  from GenerateSession_stream [where s = s and rng = rng and k = k and corr = corr and base = base] obtain body ended where e:
    "map pay out = SessionStarted \<lparr>st_SessionID = ''sim-'' @ FormatCompact base, st_StartedAt = FormatWireTime base\<rparr>
         # map (pay \<circ> check_in (sim_cfg s) corr base) (sim_drivers s) @ body @ [SessionEnded ended]"
    "en_SessionID ended = ''sim-'' @ FormatCompact base" "set (map lap_MasterID (laps_in out)) \<subseteq> set (DriverIDs s)"
    "en_Summary ended = map (\<lambda>m. \<lparr>sum_MasterID = m, sum_BestLapMs = Min (set (times_of m (laps_in out))), sum_LapCount = int (length (times_of m (laps_in out)))\<rparr>)
           (filter (\<lambda>m. times_of m (laps_in out) \<noteq> []) (DriverIDs s))"
    unfolding g by auto
  have ne: "out \<noteq> []" using e(1) by auto
  then have "pay (last out) = last (map pay out)" by (simp add: last_map)
  then have last: "pay (last out) = SessionEnded ended" by (simp add: e(1))
  have drv: "m \<in> set (DriverIDs s)" if "times_of m (laps_in out) \<noteq> []" for m
    using that e(3) by (auto simp: times_of_def filter_empty_conv)
  have "map_of (map (\<lambda>r. (sum_MasterID r, sum_BestLapMs r)) (en_Summary ended)) m
          = (if times_of m (laps_in out) = [] then None else Some (Min (set (times_of m (laps_in out)))))" for m
    using drv [of m] by (auto simp: e(4) comp_def map_of_map_restrict restrict_map_def)
  then show ?thesis using ne last e(2) by (intro exI [of _ ended]) (auto intro!: image_eqI [of _ pay "last out"])
qed

text \<open>C5: the board shows what Timing's own summary says. Timing emits a generated session into an empty outbox,
  whatever its configuration, drivers and random draws, with or without record events between; the relay
  runs in any way, with failures and repeats; the Leaderboard, starting empty, is delivered messages the relay
  published, in any order, duplicated and through whatever faults, until it has taken every lap, start and
  end of the session (their ids are in its inbox). Then the board has this one session, finished, and for
  every driver the best lap is the one the summary of \<open>session.ended\<close> gives, with no entry for a
  driver that is not in the summary. What JSON encodes it decodes, for the envelope's id, type and the data.\<close>

theorem board_shows_summary:
  assumes codec: "faithful cd"
    and emitted: "outbox (db w) = []" "emit_session cd v cfg (fst (GenerateSession s rng k corr base)) st ora w = (Inr (Some st'), w1)"
    and relayed: "RelayRun rcfg b revs oraR w1 = (x, w2)"
    and delivered: "\<forall>d\<in>set (taken evs). \<exists>rk ok. Pub rk (dv_Body d) ok \<in> set (drop (length (trace w1)) (trace w2))"
    and consumed: "empty_board (db wl)" "inbox (db wl) = []" "leaderboard_Run cd h startSeq evs oraL wl = (y, wl')"
    and complete: "\<forall>r\<in>set (outbox (db w1)). RoutingKey r \<in> board_keys \<longrightarrow> Row_ID r \<in> in_id ` set (inbox (db wl'))"
  shows "\<exists>ended. pay (last (fst (GenerateSession s rng k corr base))) = SessionEnded ended
    \<and> map ss_id (sessions (db wl')) = [en_SessionID ended] \<and> status_of (db wl') (en_SessionID ended) = Some StatusFinished
    \<and> (\<forall>m. map_option BestLapMs (best_of (db wl') (en_SessionID ended) m)
          = map_of (map (\<lambda>r. (sum_MasterID r, sum_BestLapMs r)) (en_Summary ended)) m)"
proof -
  let ?bs = "fst (GenerateSession s rng k corr base)"
  note em = emitted_session [OF emitted(2,1)]
  from leaderboard_Run_log [OF consumed(3,2)] obtain log n rs where log:
    "db wl' = (foldl (\<lambda>d ev. event_db ev d) (db wl) (map snd log))\<lparr>inbox := rs, ingest_seq := n\<rparr>"
    "map in_id rs = map (ID \<circ> fst) log"
    "\<forall>(env, ev)\<in>set log. stands_for cd env ev \<and> (\<exists>d\<in>set (taken evs). UnmarshalEnvelope cd (dv_Body d) = Some env)" by blast
  have sent: "\<forall>(env, ev)\<in>set log. stands_for cd env ev \<and> (\<exists>r\<in>set (outbox (db w1)). UnmarshalEnvelope cd (Payload r) = Some env)"
  proof (clarify, intro conjI)
    fix env ev assume "(env, ev) \<in> set log"
    then obtain d where d: "stands_for cd env ev" "d \<in> set (taken evs)" "UnmarshalEnvelope cd (dv_Body d) = Some env" using log(3) by blast
    then obtain r where "r \<in> set (outbox (db w1))" "Payload r = dv_Body d" using delivered published_rows [OF em(1) relayed] by blast
    with d show "stands_for cd env ev" "\<exists>r\<in>set (outbox (db w1)). UnmarshalEnvelope cd (Payload r) = Some env" by force+
  qed
  have "inbox (db wl') = rs" by (simp add: log(1))
  then have all: "\<forall>r\<in>set (outbox (db w1)). RoutingKey r \<in> board_keys \<longrightarrow> Row_ID r \<in> set (map (ID \<circ> fst) log)"
    using complete unfolding log(2) [symmetric] by simp
  have "distinct (map Row_ID (outbox (db w1)))" using em(1) by (simp add: outbox_ok_def)
  note log_bs = log_is_the_session [OF codec proper_GenerateSession this em(2,3) sent all]
  from session_summary [where s = s and rng = rng and k = k and corr = corr and base = base] obtain ended where e: "SessionEnded ended \<in> pay ` set ?bs" "pay (last ?bs) = SessionEnded ended"
    "en_SessionID ended = ''sim-'' @ FormatCompact base" "\<And>m. map_of (map (\<lambda>r. (sum_MasterID r, sum_BestLapMs r)) (en_Summary ended)) m
          = (if times_of m (laps_in ?bs) = [] then None else Some (Min (set (times_of m (laps_in ?bs)))))" by blast
  note board = board_of_session [OF consumed(1) log(1) of_session_GenerateSession [where s = s and rng = rng and k = k and corr = corr and base = base] log_bs e(1)]
  show ?thesis using board e by (intro exI [of _ ended]) simp
qed

section \<open>A race\<close>

fun key_of :: "payload \<Rightarrow> string" where
  "key_of (SessionStarted d) = SessionStartedRoutingKey"
| "key_of (CheckedIn d) = DriverCheckedInRoutingKey"
| "key_of (LapRecorded d) = LapRecordedRoutingKey"
| "key_of (SessionEnded d) = SessionEndedRoutingKey"
| "key_of _ = ''''"

definition table_codec :: "(char \<times> payload) list \<Rightarrow> json_codec" where
  "table_codec tab = demo_codec\<lparr>
     Marshal := \<lambda>env. map_option (\<lambda>(c, p). c # ID env) (find (\<lambda>(c, p). p = Data env \<and> Type env = key_of p) tab),
     UnmarshalEnvelope := \<lambda>b. (case b of [] \<Rightarrow> None | c # i \<Rightarrow> map_option (\<lambda>p. (demo_env i [c])\<lparr>Type := key_of p\<rparr>) (map_of tab c)),
     UnmarshalLap := \<lambda>b. (case map_of tab (hd b) of Some (LapRecorded l) \<Rightarrow> Some l | _ \<Rightarrow> None),
     UnmarshalStarted := \<lambda>b. (case map_of tab (hd b) of Some (SessionStarted l) \<Rightarrow> Some l | _ \<Rightarrow> None),
     UnmarshalEnded := \<lambda>b. (case map_of tab (hd b) of Some (SessionEnded l) \<Rightarrow> Some l | _ \<Rightarrow> None)\<rparr>"

lemma table_codec_faithful: "distinct (map fst tab) \<Longrightarrow> faithful (table_codec tab)"
  unfolding faithful_def
proof (intro allI impI)
  fix env p assume d: "distinct (map fst tab)" and "Marshal (table_codec tab) env = Some p"
  then obtain c pl where f: "find (\<lambda>(c, p). p = Data env \<and> Type env = key_of p) tab = Some (c, pl)" "p = c # ID env"
    by (auto simp: table_codec_def)
  then have "(c, pl) \<in> set tab" "pl = Data env" "Type env = key_of pl" by (auto simp: find_Some_iff) (metis nth_mem)
  with d f(2) show "carries (table_codec tab) p env"
    by (cases "Data env") (simp_all add: carries_def table_codec_def demo_env_def)
qed

definition race_cfg :: SimConfig where
  "race_cfg = demo_cfg_sim\<lparr>sc_SessionLaps := 1, sc_ObservePR := False\<rparr>"

definition race_sim :: Simulator where
  "race_sim = \<lparr>sim_cfg = race_cfg, sim_drivers = [\<lparr>d_email = ''a@b'', d_method = CheckInMethodQR, d_transponderID = '''', d_masterID = ''m''\<rparr>]\<rparr>"

definition race_rng :: sim_rng where
  "race_rng = \<lparr>rg_Intn = \<lambda>k n. 0, rg_Lap = \<lambda>k sd mean. mean\<rparr>"

definition race_id :: string where "race_id = ''sim-19700101T000000.000Z''"

lemma gen_step_start:
  assumes "chk (cr_driver c)" "\<not> gs_reset st (cr_driver c)" "snd (snd (Cross (gs_trackers st (cr_driver c)) (cr_at c))) = StartMarker"
  shows "gen_step cfg corr sid chk None st (i, c) = st\<lparr>gs_trackers := (gs_trackers st)(cr_driver c := fst (Cross (gs_trackers st (cr_driver c)) (cr_at c)))\<rparr>"
  using assms by (simp add: gen_step_def in_window_def split_def Let_def)

lemma gen_step_first:
  assumes "chk (cr_driver c)" "\<not> gs_reset st (cr_driver c)" "snd (snd (Cross (gs_trackers st (cr_driver c)) (cr_at c))) = Counted"
    "gs_summary st (cr_driver c) = None"
  shows "gen_step cfg corr sid chk None st (i, c) = st\<lparr>gs_trackers := (gs_trackers st)(cr_driver c := fst (Cross (gs_trackers st (cr_driver c)) (cr_at c))),
     gs_out := gs_out st @ [\<lambda>eid. NewLapRecordedEnvelope eid (sc_Source cfg) corr (cr_driver c) sid (tl_LapNumber (fst (snd (Cross (gs_trackers st (cr_driver c)) (cr_at c))))) (tl_LapTimeMs (fst (snd (Cross (gs_trackers st (cr_driver c)) (cr_at c))))) None (cr_at c)],
     gs_summary := (gs_summary st)(cr_driver c := Some (tl_LapTimeMs (fst (snd (Cross (gs_trackers st (cr_driver c)) (cr_at c)))), 1)), gs_lastAt := cr_at c\<rparr>"
  using assms by (simp add: gen_step_def in_window_def split_def Let_def)

lemma race_stream_eq:
  "fst (GenerateSession race_sim race_rng 0 ''c'' 0) = [\<lambda>eid. NewSessionStartedEnvelope eid ''timing'' ''c'' race_id 0,
     check_in race_cfg ''c'' 0 (hd (sim_drivers race_sim)),
     \<lambda>eid. NewLapRecordedEnvelope eid ''timing'' ''c'' ''m'' race_id 1 30000 None 30000000000,
     \<lambda>eid. NewSessionEndedEnvelope eid ''timing'' ''c'' race_id 30000000000 [\<lparr>sum_MasterID = ''m'', sum_BestLapMs = 30000, sum_LapCount = 1\<rparr>]]"
proof -
  have c: "session_crossings race_sim race_rng 0 0 = ([\<lparr>cr_driver = ''m'', cr_method = CheckInMethodQR, cr_at = 0\<rparr>,
      \<lparr>cr_driver = ''m'', cr_method = CheckInMethodQR, cr_at = 30000000000\<rparr>], 2)"
    by code_simp
  have i: "''sim-'' @ FormatCompact 0 = race_id" by code_simp
  define t1 where "t1 = \<lparr>lt_MinLapTimeMs = 0, lt_prev = 0, lt_hasPrev = True, lt_lapCount = 0\<rparr>"
  define t2 where "t2 = \<lparr>lt_MinLapTimeMs = 0, lt_prev = 30000000000, lt_hasPrev = True, lt_lapCount = 1\<rparr>"
  have x: "Cross (NewTracker 0) 0 = (t1, noLap, StartMarker)" "Cross t1 30000000000 = (t2, \<lparr>tl_LapNumber = 1, tl_LapTimeMs = 30000\<rparr>, Counted)"
    unfolding t1_def t2_def by code_simp+
  have "outage_of race_cfg cs = None" "sc_MinLapTimeMs race_cfg = 0" "sc_Source race_cfg = ''timing''" for cs by (simp_all add: outage_of_def demo_cfg_sim_def race_cfg_def)
  then show ?thesis
    unfolding GenerateSession_def c i Let_def prod.case
    by (simp add: race_sim_def DriverIDs_def gen_loop_def gen_start_def gen_step_start gen_step_first x summary_rows_def
      List.map_filter_simps)
qed

definition race_ora :: env_oracle where
  "race_ora = demo_ok\<lparr>o_uuid := \<lambda>n. if n < 2 then ''1'' else if n < 7 then ''2'' else if n < 12 then ''3'' else ''4''\<rparr>"

definition race_codec :: json_codec where
  "race_codec = table_codec (zip ''abcd'' (map pay (fst (GenerateSession race_sim race_rng 0 ''c'' 0))))"

definition race_world :: "OutboxRow list \<Rightarrow> nat \<Rightarrow> action list \<Rightarrow> timing_db world" where
  "race_world rows n tr = \<lparr>db = (db demo_timing)\<lparr>outbox := rows\<rparr>, tick = n, trace = tr\<rparr>"

definition race_row :: "string \<Rightarrow> string \<Rightarrow> bytes \<Rightarrow> int \<Rightarrow> OutboxRow" where
  "race_row i key p at = \<lparr>Row_ID = i, RoutingKey = key, Payload = p, Status = Pending, Attempts = 0, LastError = None,
     CreatedAt = FormatWireTime at, SentAt = ''''\<rparr>"

lemma race_codec_faithful: "faithful race_codec"
  unfolding race_codec_def race_stream_eq by (intro table_codec_faithful) simp

lemma enqueue_race:
  assumes "Marshal cd env = Some p" "ID env \<notin> Row_ID ` set rows"
  shows "NewEnqueuer cd (Some (\<lambda>_. None)) env race_ora (race_world rows n tr) =
    (Inr (), race_world (rows @ [\<lparr>Row_ID = ID env, RoutingKey = Type env, Payload = p, Status = Pending, Attempts = 0, LastError = None,
       CreatedAt = OccurredAt env, SentAt = ''''\<rparr>]) (n + 3) (tr @ [Committed, Kicked]))"
  using assms by (simp add: NewEnqueuer_def EnqueueEnvelope_def Enqueue_def io_defs race_ora_def demo_ok_def race_world_def tock_def)

lemma race_marshal:
  "Marshal race_codec (NewSessionStartedEnvelope eid ''timing'' ''c'' race_id 0) = Some (CHR ''a'' # eid)"
  "Marshal race_codec (check_in race_cfg ''c'' 0 (hd (sim_drivers race_sim)) eid) = Some (CHR ''b'' # eid)"
  "Marshal race_codec (NewLapRecordedEnvelope eid ''timing'' ''c'' ''m'' race_id 1 30000 None 30000000000) = Some (CHR ''c'' # eid)"
  "Marshal race_codec (NewSessionEndedEnvelope eid ''timing'' ''c'' race_id 30000000000 [\<lparr>sum_MasterID = ''m'', sum_BestLapMs = 30000, sum_LapCount = 1\<rparr>])
    = Some (CHR ''d'' # eid)"
  by (simp_all add: race_codec_def race_stream_eq table_codec_def check_in_def session_envelopes pay_def Let_def)

lemma race_ora_simps [simp]: "o_fault race_ora n = False" "o_done race_ora n = False" "o_send race_ora n" "o_clk race_ora n = 0"
  by (simp_all add: race_ora_def demo_ok_def)

lemma race_cfg_simps [simp]: "sc_ObservePR race_cfg = False" "sc_Source race_cfg = ''timing''"
  by (simp_all add: race_cfg_def demo_cfg_sim_def)

lemma tock_race [simp]: "tock (race_world rows n tr) = race_world rows (Suc n) tr" "tick (race_world rows n tr) = n" "trace (race_world rows n tr) = tr"
  by (simp_all add: race_world_def tock_def)

lemma race_emit:
  assumes "Marshal cd (b eid) = Some p" "o_uuid race_ora n = eid" "ID (b eid) \<notin> Row_ID ` set rows"
    "Type (b eid) \<noteq> ScannerOfflineRoutingKey" "Type (b eid) \<noteq> ScannerOnlineRoutingKey"
  shows "\<exists>st'. emit_session cd (\<lambda>_. None) race_cfg (b # bs) st race_ora (race_world rows n tr)
    = emit_session cd (\<lambda>_. None) race_cfg bs st' race_ora
        (race_world (rows @ [\<lparr>Row_ID = ID (b eid), RoutingKey = Type (b eid), Payload = p, Status = Pending, Attempts = 0, LastError = None,
            CreatedAt = OccurredAt (b eid), SentAt = ''''\<rparr>]) (n + 5) (tr @ [Committed, Kicked]))"
proof -
  note enq = enqueue_race [OF assms(1,3), of "Suc n" tr]
  have "\<exists>st'. emitEnvelope cd (\<lambda>_. None) race_cfg (b eid) st race_ora (race_world rows (Suc n) tr)
      = (Inr st', snd (NewEnqueuer cd (Some (\<lambda>_. None)) (b eid) race_ora (race_world rows (Suc n) tr)))"
    using assms(4,5) unfolding emitEnvelope_def by (simp add: bindE_def retE_def enq)
  then obtain st' where e: "emitEnvelope cd (\<lambda>_. None) race_cfg (b eid) st race_ora (race_world rows (Suc n) tr)
      = (Inr st', snd (NewEnqueuer cd (Some (\<lambda>_. None)) (b eid) race_ora (race_world rows (Suc n) tr)))" ..
  show ?thesis
    using e assms(2) by (intro exI [of _ st']) (simp add: bindE_def newIdE_def tryE_def enq sleepE_def ctxErrE_def retE_def add.commute)
qed

definition race_rows :: "OutboxRow list" where
  "race_rows = [race_row ''1'' SessionStartedRoutingKey ''a1'' 0, race_row ''2'' DriverCheckedInRoutingKey ''b2'' 0,
     race_row ''3'' LapRecordedRoutingKey ''c3'' 30000000000, race_row ''4'' SessionEndedRoutingKey ''d4'' 30000000000]"

lemma race_emitted:
  "\<exists>st tr. emit_session race_codec (\<lambda>_. None) race_cfg (fst (GenerateSession race_sim race_rng 0 ''c'' 0)) new_runState race_ora (race_world [] 0 [])
     = (Inr (Some st), race_world race_rows 20 tr)"
proof -
  have u: "o_uuid race_ora 0 = ''1''" "o_uuid race_ora 5 = ''2''" "o_uuid race_ora 10 = ''3''" "o_uuid race_ora 15 = ''4''" by (simp_all add: race_ora_def)
  let ?es = "emit_session race_codec (\<lambda>_. None) race_cfg"
  obtain b1 b2 b3 b4 where bs: "fst (GenerateSession race_sim race_rng 0 ''c'' 0) = [b1, b2, b3, b4]"
    "\<And>i. Marshal race_codec (b1 i) = Some (CHR ''a'' # i)" "\<And>i. Marshal race_codec (b2 i) = Some (CHR ''b'' # i)"
    "\<And>i. Marshal race_codec (b3 i) = Some (CHR ''c'' # i)" "\<And>i. Marshal race_codec (b4 i) = Some (CHR ''d'' # i)"
    "\<And>i. (ID (b1 i), Type (b1 i), OccurredAt (b1 i)) = (i, SessionStartedRoutingKey, FormatWireTime 0)"
    "\<And>i. (ID (b2 i), Type (b2 i), OccurredAt (b2 i)) = (i, DriverCheckedInRoutingKey, FormatWireTime 0)"
    "\<And>i. (ID (b3 i), Type (b3 i), OccurredAt (b3 i)) = (i, LapRecordedRoutingKey, FormatWireTime 30000000000)"
    "\<And>i. (ID (b4 i), Type (b4 i), OccurredAt (b4 i)) = (i, SessionEndedRoutingKey, FormatWireTime 30000000000)"
    using race_marshal by (intro that [OF race_stream_eq]) (simp_all add: session_envelopes check_in_def Let_def)
  note row = bs(6-9) [simplified] routing_keys race_row_def
  obtain s1 t1 where 1: "?es [b1, b2, b3, b4] new_runState race_ora (race_world [] 0 []) = ?es [b2, b3, b4] s1 race_ora (race_world (take 1 race_rows) 5 t1)"
    using race_emit [of race_codec b1 "''1''" "''a1''" 0 "[]" "[b2, b3, b4]" new_runState "[]"] bs(2) u(1) by (auto simp: row race_rows_def simp del: emit_session.simps)
  obtain s2 t2 where 2: "?es [b2, b3, b4] s1 race_ora (race_world (take 1 race_rows) 5 t1) = ?es [b3, b4] s2 race_ora (race_world (take 2 race_rows) 10 t2)"
    using race_emit [of race_codec b2 "''2''" "''b2''" 5 "take 1 race_rows" "[b3, b4]" s1 t1] bs(3) u(2) by (auto simp: row race_rows_def simp del: emit_session.simps)
  obtain s3 t3 where 3: "?es [b3, b4] s2 race_ora (race_world (take 2 race_rows) 10 t2) = ?es [b4] s3 race_ora (race_world (take 3 race_rows) 15 t3)"
    using race_emit [of race_codec b3 "''3''" "''c3''" 10 "take 2 race_rows" "[b4]" s2 t2] bs(4) u(3) by (auto simp: row race_rows_def simp del: emit_session.simps)
  obtain s4 t4 where 4: "?es [b4] s3 race_ora (race_world (take 3 race_rows) 15 t3) = ?es [] s4 race_ora (race_world race_rows 20 t4)"
    using race_emit [of race_codec b4 "''4''" "''d4''" 15 "take 3 race_rows" "[]" s3 t3] bs(5) u(4) by (auto simp: row race_rows_def simp del: emit_session.simps)
  show ?thesis unfolding bs(1) 1 2 3 4 by (auto simp: retE_def)
qed

definition race_handler :: LeaderboardHandler where
  "race_handler = \<lparr>sk_Policy = \<lparr>MaxAttempts = 3, BaseMs = 100, Multiplier = 2, MaxMs = 1000\<rparr>, sk_Retry = True, sk_Park = True,
     lb_Validate = (\<lambda>_. None), lb_Notify = True\<rparr>"

definition race_deliveries :: "consumer_event list" where
  "race_deliveries = map (\<lambda>p. Delivered \<lparr>dv_Body = p, dv_Headers = None\<rparr>) [''d4'', ''c3'', ''c3'', ''a1'', ''d4'']"

lemma race_decoded:
  "UnmarshalEnvelope race_codec (CHR ''a'' # i) = Some ((demo_env i ''a'')\<lparr>Type := SessionStartedRoutingKey\<rparr>)"
  "UnmarshalEnvelope race_codec (CHR ''c'' # i) = Some ((demo_env i ''c'')\<lparr>Type := LapRecordedRoutingKey\<rparr>)"
  "UnmarshalEnvelope race_codec (CHR ''d'' # i) = Some ((demo_env i ''d'')\<lparr>Type := SessionEndedRoutingKey\<rparr>)"
  "\<exists>d. UnmarshalStarted race_codec ''a'' = Some d \<and> st_SessionID d = race_id"
  "\<exists>d. UnmarshalLap race_codec ''c'' = Some d \<and> lap_SessionID d = race_id"
  "\<exists>d. UnmarshalEnded race_codec ''d'' = Some d \<and> en_SessionID d = race_id"
  by (simp_all add: race_codec_def race_stream_eq table_codec_def check_in_def session_envelopes pay_def Let_def)

lemma race_taken:
  assumes l: "leaderboard_Run race_codec race_handler 0 race_deliveries race_ora demo_board = (y, wl)"
  shows "{''1'', ''3'', ''4''} \<subseteq> in_id ` set (inbox (db wl))"
proof -
  have named: "TrimSpace race_id \<noteq> ''''" unfolding race_id_def by code_simp
  have nf: "no_fault race_ora" by (simp add: no_fault_def)
  note takes = leaderboard_Run_takes [OF nf l]
  have got: "\<lparr>dv_Body = p, dv_Headers = None\<rparr> \<in> set (taken race_deliveries)" if "p \<in> {''d4'', ''c3'', ''a1''}" for p
    using that by (auto simp: race_deliveries_def)
  have accepts: "lb_Validate race_handler b = None" for b by (simp add: race_handler_def)
  obtain ds dl de where d: "UnmarshalStarted race_codec ''a'' = Some ds" "UnmarshalLap race_codec ''c'' = Some dl" "UnmarshalEnded race_codec ''d'' = Some de"
    "st_SessionID ds = race_id" "lap_SessionID dl = race_id" "en_SessionID de = race_id" using race_decoded(4-6) by blast
  have "stands_for race_codec ((demo_env ''1'' ''a'')\<lparr>Type := SessionStartedRoutingKey\<rparr>) (EStarted (st_SessionID ds) (st_StartedAt ds))"
    by (rule stands_for.started) (simp_all add: demo_env_def d)
  from takes [OF got [of "''a1''"] accepts _ this] have i1: "''1'' \<in> in_id ` set (inbox (db wl))" using race_decoded(1) named d(4) by (simp add: demo_env_def)
  have "stands_for race_codec ((demo_env ''4'' ''d'')\<lparr>Type := SessionEndedRoutingKey\<rparr>) (EEnded (en_SessionID de) (en_EndedAt de))"
    by (rule stands_for.ended) (simp_all add: demo_env_def d)
  from takes [OF got [of "''d4''"] accepts _ this] have i4: "''4'' \<in> in_id ` set (inbox (db wl))" using race_decoded(3) named d(6) by (simp add: demo_env_def)
  have "stands_for race_codec ((demo_env ''3'' ''c'')\<lparr>Type := LapRecordedRoutingKey\<rparr>)
      (ELap (lap_SessionID dl) \<lparr>l_MasterID = lap_MasterID dl, l_LapTimeMs = lap_LapTimeMs dl, l_At = lap_At dl, l_Seq = 0\<rparr>)"
    by (rule stands_for.lap) (simp_all add: demo_env_def d)
  from takes [OF got [of "''c3''"] accepts _ this] have i3: "''3'' \<in> in_id ` set (inbox (db wl))" using race_decoded(2) named d(5) by (simp add: demo_env_def)
  show ?thesis using i1 i3 i4 by simp
qed

theorem board_shows_summary_witness:
  "\<exists>wl. snd (leaderboard_Run race_codec race_handler 0 race_deliveries race_ora demo_board) = wl
     \<and> status_of (db wl) race_id = Some StatusFinished \<and> map_option BestLapMs (best_of (db wl) race_id ''m'') = Some 30000"
proof -
  obtain st tr where e: "emit_session race_codec (\<lambda>_. None) race_cfg (fst (GenerateSession race_sim race_rng 0 ''c'' 0)) new_runState race_ora (race_world [] 0 [])
     = (Inr (Some st), race_world race_rows 20 tr)" using race_emitted by blast
  let ?cfg = "demo_cfg\<lparr>rc_Batch := 9\<rparr>"
  let ?w1 = "race_world race_rows 20 tr"
  have rows: "outbox (db (race_world rs n t)) = rs" for rs n t by (simp add: race_world_def)
  have ok: "outbox_ok (db ?w1)" "calm race_ora"
    by (simp_all add: outbox_ok_def rows race_rows_def race_row_def calm_def)
  obtain x w2 where r: "RelayRun ?cfg 0 [RelayKick] race_ora ?w1 = (x, w2)" by fastforce
  have pub: "\<exists>ok. Pub (RoutingKey row) (Payload row) ok \<in> set (drop (length (trace ?w1)) (trace w2))" if "row \<in> set race_rows" for row
    using RelayKick_publishes [OF ok(2,1) _ _ r, of row] that by (auto simp: rows demo_cfg_def race_rows_def race_row_def)
  obtain y wl where l: "leaderboard_Run race_codec race_handler 0 race_deliveries race_ora demo_board = (y, wl)" by fastforce
  have sent: "\<forall>d\<in>set (taken race_deliveries). \<exists>rk ok. Pub rk (dv_Body d) ok \<in> set (drop (length (trace ?w1)) (trace w2))"
  proof
    fix d assume "d \<in> set (taken race_deliveries)"
    then have "\<exists>row\<in>set race_rows. Payload row = dv_Body d" by (auto simp: race_deliveries_def race_rows_def race_row_def)
    then show "\<exists>rk ok. Pub rk (dv_Body d) ok \<in> set (drop (length (trace ?w1)) (trace w2))" using pub by metis
  qed
  have "\<forall>r\<in>set (outbox (db ?w1)). RoutingKey r \<in> board_keys \<longrightarrow> Row_ID r \<in> in_id ` set (inbox (db wl))"
    using race_taken [OF l] by (simp add: rows race_rows_def race_row_def board_keys_def routing_keys)
  moreover have "empty_board (db demo_board)" "inbox (db demo_board) = []" by (simp_all add: demo_board_def empty_board_def)
  ultimately obtain en where en: "pay (last (fst (GenerateSession race_sim race_rng 0 ''c'' 0))) = SessionEnded en"
    "status_of (db wl) (en_SessionID en) = Some StatusFinished"
    "\<forall>m. map_option BestLapMs (best_of (db wl) (en_SessionID en) m) = map_of (map (\<lambda>r. (sum_MasterID r, sum_BestLapMs r)) (en_Summary en)) m"
    using board_shows_summary [OF race_codec_faithful rows e r sent _ _ l] by blast
  have "en_SessionID en = race_id" "en_Summary en = [\<lparr>sum_MasterID = ''m'', sum_BestLapMs = 30000, sum_LapCount = 1\<rparr>]"
    using en(1) by (auto simp: race_stream_eq pay_def session_envelopes Let_def)
  then show ?thesis using l en(2,3) by (intro exI [of _ wl]) simp
qed

end
