(* ===== verification/Spec2Isabelle.thy ===== *)
theory Spec2Isabelle
  imports Service_Process Leaderboard_Web Heartbeat Race_To_Board
begin

text \<open>
  Pitwall: the Go side of a karting venue's event platform, verified.

  \<^bold>\<open>The program.\<close> Three Go services talk only through a RabbitMQ bus and share a library,
  libs/go-pitwall. \<^emph>\<open>Timing\<close> turns crossings of the start-finish line into laps and sessions (its only
  source today is a simulator), keeps a local copy of personal records and writes every event to a
  transactional outbox. \<^emph>\<open>Identity\<close> answers lookups with one master id per mailbox and erases people on
  request. \<^emph>\<open>Leaderboard\<close> folds laps and sessions into a read model and pushes it to browsers. Each service
  has a private SQLite database; a handler deduplicates by envelope id in the transaction that does its
  work; a failing message is retried through a dead-letter exchange with growing delays and parked in
  the end; a relay publishes the outbox; a supervisor keeps the connection to the broker.

  \<^bold>\<open>How it is modelled.\<close> Everything a service cannot decide itself is an oracle or a parameter: whether a
  statement, a commit or a publish fails, the clock, fresh ids, the random generator, whether the
  context is done, what the broker answers, JSON, JSON Schema, SHA-256, Unicode lower-casing. Code that
  changes state is a function in a small state-and-error monad over a \<open>world\<close> (the database and a trace of
  what others can see, with a rollback in \<open>WithinTx\<close>); loops that select on channels are functions of the
  sequence of events they select, or, for the supervisor, a step relation. Go's integers are integers with
  their 64- and 32-bit wrap-around written out, times are nanoseconds, strings are bytes.

  \<^bold>\<open>The theories\<close>, bottom up.
  \<^item> \<open>Pitwall_Prelude\<close>: machine integers, errors, the world, the monad and its proof rules, \<open>WithinTx\<close>
    (persistence/db.go), string functions of the Go library, tables as lists of rows.
  \<^item> \<open>Dlq_Policy\<close>, \<open>Dlq_Topology\<close>: \<open>NextRetry\<close> and its two copies (dlq/dlq.go, internal/domain/dlq.go), the
    retry header, and the queues, bindings and publishes of messaging/dlq.go. The locale \<open>retry_policy\<close> is
    what a consumer relies on; all three copies interpret it. Shown: the closed form of the delay and when
    it overflows; that a poison message is parked after \<open>MaxAttempts\<close> deliveries if every delay is positive
    and is otherwise stranded in the retry queue, since a publishing with delay 0 has no expiration;
    what the topology routes where.
  \<^item> \<open>Wire_Time\<close>, \<open>Envelopes\<close>: the timestamp layout with the calendar, both directions, round trip and order;
    the envelope, all payloads and their constructors (messaging/envelope.go of library and services).
  \<^item> \<open>Contract_Validator\<close>: messaging/validate.go, which fails closed.
  \<^item> \<open>Store_Core\<close>, \<open>Outbox_Relay\<close>: inbox and outbox tables (persistence/inbox.go, outbox.go), the producer seam
    and the relay (relay/producer.go, relay.go). Shown: enqueueing is atomic, a row is marked sent only
    after a confirmed publish and in order, the loop empties the outbox once the broker answers.
  \<^item> \<open>Consumer_Spine\<close>: park, retry-or-park, ack and nack, and the run loop that the handlers repeat. The
    locale \<open>delivery_spine\<close> says what a handler promises for one delivery; the four handlers interpret it
    and inherit that each delivery of a run is settled exactly once and acked only when it is secured.
  \<^item> \<open>Leaderboard_Store\<close>, \<open>Leaderboard_Service\<close>, \<open>Leaderboard_Web\<close>: ranking, tables and store
    (internal/domain, internal/persistence), the consumer, and the board with its hub of browsers
    (internal/web). Shown: the tables refine an abstract specification, and are those of each envelope
    applied once, whatever is redelivered; the life cycle only moves forward, ranking is a sorted
    permutation, the served board is consistent, a publish reaches every browser.
  \<^item> \<open>Erasure_Lib\<close>, \<open>Identity_Store\<close>, \<open>Identity_Service\<close>: the erasure engine with its callbacks as the locale
    \<open>erasable\<close> (erasure/erasure.go), resolve-or-mint, suppression and held lookups, and the consumer.
    Shown: ids are stable until erased and never minted again; two lookups the consumer answers for spellings of
    one ASCII address get one id, since its handler normalises what was typed.
  \<^item> \<open>Lap_Rules\<close>, \<open>Timing_Stores\<close>, \<open>Timing_Consumers\<close>, \<open>Simulator_Gen\<close>, \<open>Simulator_Run\<close>: the lap tracker and the
    record rule, Timing's tables (the locale \<open>keyed_upsert\<close>, interpreted for three statements), its two
    consumers and the register-first client, the simulator's sessions and its run. Shown, among others: the
    summary of a session counts exactly its laps, exactly the unknown tokens seen outside an outage are
    held, and a record whose event could not be enqueued stays unreported until a slower confirmed
    record overwrites it.
  \<^item> \<open>Service_Config\<close>, \<open>Amqp_Uri\<close>, \<open>Service_Wiring\<close>: what \<open>Load\<close> of the three services checks (signs and order; no
    product is bounded), the broker address (\<open>AMQPURI\<close> over \<open>net/url\<close>, with its round trip), and what the mains build from the configuration.
  \<^item> \<open>Bus_Supervisor\<close>, \<open>Bus_Links\<close>: the reconnecting supervisor (messaging/supervisor.go) and the two
    connections it keeps (consumer.go, publisher.go); the locale \<open>supervised_link\<close> gives what holds of a
    connection it reports, interpreted for the consumer's bus (twice) and the publisher.
  \<^item> \<open>Heartbeat\<close>: the beat and the liveness file (heartbeat/heartbeat.go).
  \<^item> \<open>Service_Process\<close>: \<open>run\<close> of the three mains over the parts above, with the database opened and migrated
    (persistence/db.go, migrate.go and the services' db.go): what is opened in which order, what every early
    return gives back, the waits, the flush and the closes after the signal. Shown: runs are orderly, a
    signalled run flushes exactly once, the waits are bounded by the timeout, a failed start leaves no
    connection open in two services and at most one in Timing, a shutdown loses no event of the outbox.
  \<^item> \<open>Board_Log\<close>, \<open>Race_To_Board\<close>: the composition of Timing and Leaderboard over the bus. The first says what a
    run of the Leaderboard consumer leaves (the fold of the events it took, each from a delivered message;
    without faults, the function of the deliveries that \<open>ingested\<close> is, so that the moment of a best lap is
    that of the first of the fastest laps to come in),
    the second follows a session from \<open>GenerateSession\<close> through \<open>emit_session\<close>, the outbox and \<open>RelayRun\<close> to
    \<open>leaderboard_Run\<close>. Shown: in whatever order and however often the messages arrive, the board has the
    session finished with exactly the best laps that the summary of \<open>session.ended\<close> states.
  This theory adds the other end: from an accepted environment to a message in the parking queue.

  \<^bold>\<open>Bounds and fuel.\<close> Recursions are structural or have a measure. The run loops end with the list of events
  they are given; \<open>poison_run\<close> has fuel and its theorem shows that \<open>MaxAttempts\<close> is enough; the simulator's
  endless loop runs as many iterations as it is given; how many events or turns suffice is part of the
  statement of every liveness theorem. The dead-letter bound assumes at most \<open>2^31\<close> attempts, since the
  count travels as an \<open>int32\<close>; the delays are closed forms when no product exceeds 64 bits. \<open>Load\<close> checks
  neither.

  \<^bold>\<open>Idealisations.\<close> The indexes of the outage window (\<open>outage_of\<close>) and the next epoch (\<open>next_epoch\<close>) are not
  wrapped at 64 bits; \<open>UserinfoString\<close> is what net/url's \<open>Userinfo.String\<close> does with the credentials the code
  hands it; \<open>readURI\<close> is a specification, a reader of the URI grammar, and not code of the program;
  \<open>NewValidator\<close> joins file names without cleaning them, and compiling a schema is a parameter.

  \<^bold>\<open>Not modelled.\<close> Log lines that carry no decision; what SQLite and goose do when the database is opened and
  migrated (the tables the migrations declare are the row records); HTTP routing, headers, the embedded
  bundle and the HTTP server's own shutdown; the seeding of the random generator; generated contract
  types; what a loop does while the flush runs, when it outlives the timeout; goroutine
  scheduling inside a handler (a handler runs one delivery at a time; the server and the supervisor are
  modelled with their interleavings). The services in other languages are outside this development.
\<close>

section \<open>From the environment to the parking queue\<close>

lemma dialled_bus:
  assumes "DialConsumerBus br uri ex calls = (Inr u, b)"
  shows "\<exists>g. Bus_establish br \<lparr>link_uri = uri, link_exchange = ex, link_conn = False, link_ch = False, link_closed = None,
       link_calls = calls, bus_dlx = ''''\<rparr> = (Inr g, b) \<and> link_closed b = Some g"
  using assms by (auto simp: DialConsumerBus_def split: prod.splits sum.splits dest: Bus_establish_Inr)

text \<open>C10: a service that starts keeps the promises of its dead-letter policy, end to end. Take Identity
  or Leaderboard with a configuration its \<open>Load\<close> accepts, whose source exchange is not its own DLX, on a
  broker where nobody else binds to that DLX. Whenever the supervisor then reports a connection, after
  whatever outages, its three queues are routed as documented: a retried message comes back to the
  work queue exactly once, a parked one lands in the parking queue only, and every event type the
  service consumes is bound to its queue. And a message that fails at every delivery is parked after
  \<open>MaxAttempts\<close> deliveries, waiting \<open>min(BaseMs * Multiplier^i, MaxMs)\<close> before hop i, if that product
  stays within 64 bits.\<close>

theorem started_consumer_is_sound:
  assumes "leaderboard_wired env opts p rule \<or> identity_wired env opts p rule"
    and "DLXExchange opts \<noteq> SourceExchange opts" and "own_dlx opts calls"
    and "DialConsumerBus br0 uri ex calls = (Inr u, b0)" and "ConnectAndConsume br1 opts cb b0 = Inr s0"
    and "(sup_step (bus_connect brs opts))\<^sup>*\<^sup>* s0 s" and "sv_at s = Serving g"
    and "direct_routing route" and "no_overflow p" and "MaxAttempts p \<le> 2 ^ 31"
  shows "let calls' = link_calls (snd (sv_conn s)) in
      route calls' (DLXExchange opts) dlqRetryRoutingKey = {RetryQueueName (QueueName opts)}
    \<and> route calls' (DLXExchange opts) dlqRedeliverRoutingKey = {QueueName opts}
    \<and> route calls' (DLXExchange opts) dlqParkRoutingKey = {ParkingQueueName (QueueName opts)}
    \<and> copies_back route calls' (DLXExchange opts) (QueueName opts) = 1
    \<and> (\<forall>k \<in> set (RoutingKeys opts). (QueueName opts, k, SourceExchange opts) \<in> bound calls')
    \<and> poison_run rule p body (nat (MaxAttempts p)) None
        = Some (Parked (map (\<lambda>i. min (BaseMs p * Multiplier p ^ i) (MaxMs p)) [0..<nat (MaxAttempts p) - 1]))"
proof -
  obtain g0 where e: "Bus_establish br0 \<lparr>link_uri = uri, link_exchange = ex, link_conn = False, link_ch = False, link_closed = None,
       link_calls = calls, bus_dlx = ''''\<rparr> = (Inr g0, b0)" (is "Bus_establish br0 ?b = _") and g0: "link_closed b0 = Some g0"
    using dialled_bus [OF assms(4)] by blast
  obtain b1 where sb: "subscribe br1 opts b0 = (Inr (), b1)" and s0: "s0 = newSupervisor defaultBackoff cb (Some g0, b1)"
    using assms(5) g0 by (auto simp: ConnectAndConsume_def split: if_splits prod.splits sum.splits)
  have "own_dlx opts (link_calls b1)"
    using own_dlx_grows [OF grows_trans [OF establish_grows [OF e] subscribe_grows [OF sb assms(2)]]] assms(3) by simp
  then have own: "own_dlx opts (link_calls (snd (sv_conn s)))"
    using own_link.serving_is_ready [OF assms(6) [unfolded s0] _ assms(7)] assms(2) by simp
  have "adoptable (bus_ready uri ex opts) uri ex (Some g0, b1)"
    using establish_subscribe_ready [OF e sb] subscribe_keeps [OF sb] Bus_establish_keeps [OF e] by (simp add: adoptable_def)
  then have ready: "bus_ready uri ex opts g (snd (sv_conn s))"
    by (rule bus_link.serving_is_ready [OF assms(6) [unfolded s0] _ assms(7)])
  then have "\<forall>k \<in> set (RoutingKeys opts). (QueueName opts, k, SourceExchange opts) \<in> bound (link_calls (snd (sv_conn s)))"
    by (auto simp: bus_ready_def)
  with ready_routes [OF ready own assms(8)] wired_poison [OF assms(1,9,10), of body] show ?thesis
    by (simp add: Let_def hop_delay_def [abs_def])
qed

lemma demo_leaderboard: "case leaderboard_Load demo_getenv of Inl e \<Rightarrow> False
    | Inr c \<Rightarrow> lc_TimingExchange c = ''timing.events'' \<and> cfg_Policy c = \<lparr>MaxAttempts = 5, BaseMs = 1000, Multiplier = 2, MaxMs = 60000\<rparr>"
  unfolding leaderboard_Load_def by (simp add: demo_eval cfg_Policy_def firstNonEmpty_def cong: load_cong)

lemma demo_issue_all: "issue_all demo_broker cs b = (Inr (), b\<lparr>link_calls := link_calls b @ cs\<rparr>)"
  by (induction cs arbitrary: b) simp_all

lemma demo_serving:
  assumes "DLXExchange opts \<noteq> ''''"
  shows "\<exists>b0 s0 s. DialConsumerBus demo_broker uri ex [] = (Inr (), b0) \<and> ConnectAndConsume demo_broker opts True b0 = Inr s0
    \<and> (sup_step (bus_connect (\<lambda>k. demo_broker) opts))\<^sup>*\<^sup>* s0 s \<and> sv_at s = Serving 1"
proof -
  note run = Bus_establish_def subscribe_def consumeRaw_def DeclareDLQTopology_def declareWorkQueueResilient_def Let_def
  obtain b0 where b0: "DialConsumerBus demo_broker uri ex [] = (Inr (), b0)" by (simp add: DialConsumerBus_def Bus_establish_def Let_def)
  then have "b0 = snd (DialConsumerBus demo_broker uri ex [])" by simp
  then obtain b1 where s0: "ConnectAndConsume demo_broker opts True b0 = Inr (newSupervisor defaultBackoff True (Some 1, b1))"
    using assms by (simp add: ConnectAndConsume_def DialConsumerBus_def run demo_issue_all del: issue_all.simps)
  let ?s0 = "newSupervisor defaultBackoff True (Some 1, b1)"
  have "sup_step (bus_connect (\<lambda>k. demo_broker) opts) ?s0 (dial_done (None, b1) 1 ?s0)"
    by (rule sup_step.dials) (simp_all add: newSupervisor_def bus_connect_def)
  then show ?thesis using b0 s0 by (intro exI conjI) (rule b0, rule s0, rule r_into_rtranclp, assumption, simp add: dial_done_def Let_def)
qed

theorem started_consumer_is_sound_witness:
  "\<exists>opts p. leaderboard_wired demo_getenv opts p leaderboard_NextRetry
     \<and> poison_run leaderboard_NextRetry p ''x'' 5 None = Some (Parked [1000, 2000, 4000, 8000])
     \<and> (\<exists>s :: (nat option \<times> Bus) supervisor. sv_at s = Serving 1
          \<and> {q. (q, dlqParkRoutingKey, DLXExchange opts) \<in> bound (link_calls (snd (sv_conn s)))} = {ParkingQueueName (QueueName opts)})"
proof -
  obtain c where c: "leaderboard_Load demo_getenv = Inr c" "lc_TimingExchange c = ''timing.events''"
      "cfg_Policy c = \<lparr>MaxAttempts = 5, BaseMs = 1000, Multiplier = 2, MaxMs = 60000\<rparr>"
    using demo_leaderboard by (auto split: sum.splits)
  let ?o = "leaderboard_consumerOpts c" and ?p = "cfg_Policy c" and ?route = "\<lambda>calls e k. {q. (q, k, e) \<in> bound calls}"
  have w: "leaderboard_wired demo_getenv ?o ?p leaderboard_NextRetry \<or> identity_wired demo_getenv ?o ?p leaderboard_NextRetry"
    and d: "DLXExchange ?o \<noteq> SourceExchange ?o" "DLXExchange ?o \<noteq> ''''" and o: "own_dlx ?o []"
    by (simp_all add: leaderboard_wired_def c leaderboard_consumerOpts_def LeaderboardDLXExchange_def own_dlx_def bound_def)
  obtain b0 s0 s where run: "DialConsumerBus demo_broker ''amqp://bus'' LeaderboardExchange [] = (Inr (), b0)"
      "ConnectAndConsume demo_broker ?o True b0 = Inr s0" "(sup_step (bus_connect (\<lambda>k. demo_broker) ?o))\<^sup>*\<^sup>* s0 s" "sv_at s = Serving 1"
    using demo_serving [OF d(2)] by blast
  have "direct_routing ?route" "no_overflow ?p" "MaxAttempts ?p \<le> 2 ^ 31" by (simp_all add: direct_routing_def c(3) no_overflow_def)
  from started_consumer_is_sound [OF w d(1) o run this, of "''x''"] w c(1,3) run(4) show ?thesis
    by (intro exI [of _ ?o] exI [of _ ?p]) (auto simp: Let_def leaderboard_wired_def upt_rec intro!: exI [of _ s])
qed

end
